(* ===== verification/Prelude.thy ===== *)
theory Prelude
  imports Complex_Main "HOL-Library.Word" "HOL-Library.Signed_Division"
    "HOL-Library.Log_Nat" "HOL-Library.Multiset" "HOL-Library.Sublist" "HOL-Library.Code_Target_Nat"
begin

text \<open>
  Shared vocabulary of the development.

  \<^item> C++ integers: a value of type \<^verbatim>\<open>int\<close> or \<^verbatim>\<open>int64_t\<close> is a HOL \<^typ>\<open>int\<close>; conversions that
    narrow are written out (\<open>to_int32\<close>), and \<^verbatim>\<open>/\<close> is the truncating \<open>sdiv\<close>.
  \<^item> C++ doubles: rationals, with IEEE 754 binary64 round-to-nearest-even (\<open>rnd\<close>) applied to
    every operation and every literal.
  \<^item> Strings are HOL strings; \<open>str_find\<close> is \<^verbatim>\<open>std::string::find\<close>, \<open>stoi\<close> is \<^verbatim>\<open>std::stoi\<close>,
    \<open>to_string\<close> is \<^verbatim>\<open>std::to_string\<close>.
  \<^item> Exceptions are the left summand of a result.
  \<^item> The locale \<open>scan_best\<close> is the contract of a one-pass search for a best element, which the
    request queue and the endpoint router both run.
\<close>

named_theorems wf_intros \<open>operations keep the component invariants\<close>
named_theorems frame_simps \<open>fields an operation does not write\<close>

section \<open>Exceptions as values\<close>

datatype cpp_exn =
    InvalidArgument
  | OutOfRange
  | RuntimeError string
  | JsonTypeError
  | JsonParseError
  | LengthError
  | AssertFailed
  | UndefinedBehaviour

type_synonym 'a result = "cpp_exn + 'a"

section \<open>Machine arithmetic\<close>

definition INT_MAX :: int where
  "INT_MAX = 2147483647"

definition INT_MIN :: int where
  "INT_MIN = - 2147483648"

definition is_int32 :: "int \<Rightarrow> bool" where
  "is_int32 i \<longleftrightarrow> INT_MIN \<le> i \<and> i \<le> INT_MAX"

definition to_int32 :: "int \<Rightarrow> int" where
  "to_int32 i = (i + 2147483648) mod 4294967296 - 2147483648"

definition round_half_even :: "rat \<Rightarrow> int" where
  "round_half_even x =
     (let f = \<lfloor>x\<rfloor>; r = x - of_int f
      in if r < 1 / 2 then f else if 1 / 2 < r then f + 1 else if even f then f else f + 1)"

definition ilog2 :: "rat \<Rightarrow> int" where
  "ilog2 x =
     (let (p, q) = quotient_of x; e = bitlen p - bitlen q
      in if (2::rat) powi e \<le> x then e else e - 1)"

definition rnd :: "rat \<Rightarrow> rat" where
  "rnd x =
     (if x = 0 then 0
      else let u = (2::rat) powi (ilog2 \<bar>x\<bar> - 52)
           in of_int (round_half_even (x / u)) * u)"

definition double_of_int :: "int \<Rightarrow> rat" where
  "double_of_int i = rnd (of_int i)"

definition trunc_int :: "rat \<Rightarrow> int" where
  "trunc_int x = (if 0 \<le> x then \<lfloor>x\<rfloor> else \<lceil>x\<rceil>)"

section \<open>Strings\<close>

definition digit_char :: "nat \<Rightarrow> char" where
  "digit_char d = char_of (48 + d)"

definition char_digit :: "char \<Rightarrow> nat option" where
  "char_digit c = (let n = of_char c in if 48 \<le> n \<and> n \<le> (57::nat) then Some (n - 48) else None)"

fun string_of_nat :: "nat \<Rightarrow> string" where
  "string_of_nat n =
     (if n < 10 then [digit_char n] else string_of_nat (n div 10) @ [digit_char (n mod 10)])"

declare string_of_nat.simps [simp del]

definition to_string :: "int \<Rightarrow> string" where
  "to_string i = (if i < 0 then CHR ''-'' # string_of_nat (nat (- i)) else string_of_nat (nat i))"

definition is_space :: "char \<Rightarrow> bool" where
  "is_space c \<longleftrightarrow> (let n = of_char c in n = (32::nat) \<or> (9 \<le> n \<and> n \<le> 13))"

fun digits_value :: "nat \<Rightarrow> string \<Rightarrow> nat" where
  "digits_value acc [] = acc"
| "digits_value acc (c # cs) =
     (case char_digit c of None \<Rightarrow> acc | Some d \<Rightarrow> digits_value (10 * acc + d) cs)"

definition unsigned_prefix :: "string \<Rightarrow> nat option" where
  "unsigned_prefix s =
     (case s of [] \<Rightarrow> None
      | c # cs \<Rightarrow> (if char_digit c = None then None else Some (digits_value 0 s)))"

definition parse_signed :: "string \<Rightarrow> int option" where
  "parse_signed s =
     (case dropWhile is_space s of
        [] \<Rightarrow> None
      | c # cs \<Rightarrow>
          (if c = CHR ''-'' then map_option (\<lambda>n. - int n) (unsigned_prefix cs)
           else if c = CHR ''+'' then map_option int (unsigned_prefix cs)
           else map_option int (unsigned_prefix (c # cs))))"

definition stoi :: "string \<Rightarrow> int result" where
  "stoi s =
     (case parse_signed s of
        None \<Rightarrow> Inl InvalidArgument
      | Some i \<Rightarrow> (if is_int32 i then Inr i else Inl OutOfRange))"

definition is_int64 :: "int \<Rightarrow> bool" where
  "is_int64 i \<longleftrightarrow> - 9223372036854775808 \<le> i \<and> i \<le> 9223372036854775807"

definition stoll :: "string \<Rightarrow> int result" where
  "stoll s =
     (case parse_signed s of
        None \<Rightarrow> Inl InvalidArgument
      | Some i \<Rightarrow> (if is_int64 i then Inr i else Inl OutOfRange))"

fun str_find :: "string \<Rightarrow> string \<Rightarrow> nat option" where
  "str_find pat [] = (if pat = [] then Some 0 else None)"
| "str_find pat (c # cs) =
     (if prefix pat (c # cs) then Some 0 else map_option Suc (str_find pat cs))"

definition str_contains :: "string \<Rightarrow> string \<Rightarrow> bool" where
  "str_contains pat s \<longleftrightarrow> str_find pat s \<noteq> None"

section \<open>Lists\<close>

fun find_index_of :: "('a \<Rightarrow> bool) \<Rightarrow> 'a list \<Rightarrow> nat option" where
  "find_index_of P [] = None"
| "find_index_of P (x # xs) = (if P x then Some 0 else map_option Suc (find_index_of P xs))"

fun update_first :: "('a \<Rightarrow> bool) \<Rightarrow> ('a \<Rightarrow> 'a) \<Rightarrow> 'a list \<Rightarrow> 'a list" where
  "update_first P f [] = []"
| "update_first P f (x # xs) = (if P x then f x # xs else x # update_first P f xs)"

definition remove_nth :: "nat \<Rightarrow> 'a list \<Rightarrow> 'a list" where
  "remove_nth i xs = take i xs @ drop (Suc i) xs"

definition keep_last :: "nat \<Rightarrow> 'a list \<Rightarrow> 'a list" where
  "keep_last n xs = drop (length xs - n) xs"

definition push_unique :: "'a list \<Rightarrow> 'a \<Rightarrow> 'a list" where
  "push_unique xs x = (if x \<in> set xs then xs else xs @ [x])"

fun alist_put :: "'k \<Rightarrow> 'v \<Rightarrow> ('k \<times> 'v) list \<Rightarrow> ('k \<times> 'v) list" where
  "alist_put k v [] = [(k, v)]"
| "alist_put k v ((k', v') # ps) = (if k = k' then (k, v) # ps else (k', v') # alist_put k v ps)"

definition alist_erase :: "'k \<Rightarrow> ('k \<times> 'v) list \<Rightarrow> ('k \<times> 'v) list" where
  "alist_erase k ps = filter (\<lambda>p. fst p \<noteq> k) ps"

section \<open>Facts on machine arithmetic\<close>

lemma to_int32_range: "is_int32 (to_int32 i)"
proof -
  have "0 \<le> (i + 2147483648) mod 4294967296" and "(i + 2147483648) mod 4294967296 < 4294967296"
    by simp_all
  then show ?thesis
    unfolding is_int32_def to_int32_def INT_MIN_def INT_MAX_def by linarith
qed

lemma to_int32_id: "is_int32 i \<Longrightarrow> to_int32 i = i"
  by (simp add: is_int32_def to_int32_def INT_MIN_def INT_MAX_def)

lemma round_half_even_nonneg: "0 \<le> x \<Longrightarrow> 0 \<le> round_half_even x"
  by (simp add: round_half_even_def Let_def)

lemma rnd_0 [simp]: "rnd 0 = 0"
  by (simp add: rnd_def)

lemma rnd_nonneg: "0 \<le> x \<Longrightarrow> 0 \<le> rnd x"
  by (simp add: rnd_def Let_def round_half_even_nonneg divide_nonneg_nonneg)

lemma double_of_int_nonneg: "0 \<le> i \<Longrightarrow> 0 \<le> double_of_int i"
  by (simp add: double_of_int_def rnd_nonneg)

lemma trunc_int_nonneg: "0 \<le> x \<Longrightarrow> 0 \<le> trunc_int x"
  by (simp add: trunc_int_def)

lemma sdiv_pos_div: "0 \<le> a \<Longrightarrow> 0 < b \<Longrightarrow> (a::int) sdiv b = a div b"
  by (cases "a = 0") (simp_all add: signed_divide_int_def)

section \<open>Facts on numbers in strings\<close>

lemma char_digit_digit_char [simp]: "d < 10 \<Longrightarrow> char_digit (digit_char d) = Some d"
  by (simp add: char_digit_def digit_char_def Let_def)

lemma digit_char_not_minus: "d < 10 \<Longrightarrow> digit_char d \<noteq> CHR ''-''"
proof
  assume "d < 10" and "digit_char d = CHR ''-''"
  then have "of_char (digit_char d) = (45::nat)" by simp
  with \<open>d < 10\<close> show False by (simp add: digit_char_def)
qed

lemma digit_char_not_plus: "d < 10 \<Longrightarrow> digit_char d \<noteq> CHR ''+''"
proof
  assume "d < 10" and "digit_char d = CHR ''+''"
  then have "of_char (digit_char d) = (43::nat)" by simp
  with \<open>d < 10\<close> show False by (simp add: digit_char_def)
qed

lemma digit_char_not_space: "d < 10 \<Longrightarrow> \<not> is_space (digit_char d)"
  by (simp add: is_space_def digit_char_def Let_def)

lemma string_of_nat_small: "n < 10 \<Longrightarrow> string_of_nat n = [digit_char n]"
  by (subst string_of_nat.simps) simp

lemma string_of_nat_big:
  "\<not> n < 10 \<Longrightarrow> string_of_nat n = string_of_nat (n div 10) @ [digit_char (n mod 10)]"
  by (subst string_of_nat.simps) simp

lemma string_of_nat_hd: "\<exists>d cs. d < 10 \<and> string_of_nat n = digit_char d # cs"
proof (induction n rule: string_of_nat.induct)
  case (1 n)
  show ?case
  proof (cases "n < 10")
    case True
    then show ?thesis by (auto simp: string_of_nat_small)
  next
    case False
    then obtain d cs where "d < 10" "string_of_nat (n div 10) = digit_char d # cs"
      using "1.IH" by blast
    with False show ?thesis by (auto simp: string_of_nat_big)
  qed
qed

lemma string_of_nat_digits: "c \<in> set (string_of_nat n) \<Longrightarrow> \<exists>d < 10. c = digit_char d"
proof (induction n rule: string_of_nat.induct)
  case (1 n)
  show ?case
  proof (cases "n < 10")
    case True
    with "1.prems" show ?thesis by (auto simp: string_of_nat_small)
  next
    case False
    then have "c \<in> set (string_of_nat (n div 10)) \<or> c = digit_char (n mod 10)"
      using "1.prems" by (auto simp: string_of_nat_big)
    then show ?thesis
    proof
      assume "c = digit_char (n mod 10)"
      moreover have "n mod 10 < 10" by simp
      ultimately show ?thesis by blast
    qed (use False "1.IH" in blast)
  qed
qed

lemma digits_value_append:
  assumes "\<And>c. c \<in> set xs \<Longrightarrow> char_digit c \<noteq> None"
  shows "digits_value acc (xs @ ys) = digits_value (digits_value acc xs) ys"
  using assms
proof (induction xs arbitrary: acc)
  case (Cons c cs)
  then obtain d where "char_digit c = Some d" by fastforce
  with Cons show ?case by simp
qed simp

lemma digits_value_string_of_nat: "digits_value 0 (string_of_nat n) = n"
proof (induction n rule: string_of_nat.induct)
  case (1 n)
  show ?case
  proof (cases "n < 10")
    case True
    then show ?thesis by (simp add: string_of_nat_small)
  next
    case False
    have "\<And>c. c \<in> set (string_of_nat (n div 10)) \<Longrightarrow> char_digit c \<noteq> None"
      by (metis char_digit_digit_char option.distinct(1) string_of_nat_digits)
    with False "1.IH" show ?thesis
      by (simp add: string_of_nat_big digits_value_append)
  qed
qed

lemma unsigned_prefix_string_of_nat: "unsigned_prefix (string_of_nat n) = Some n"
proof -
  obtain d cs where h: "d < 10" "string_of_nat n = digit_char d # cs"
    using string_of_nat_hd by blast
  then show ?thesis
    using digits_value_string_of_nat [of n] by (simp add: unsigned_prefix_def)
qed

lemma parse_signed_to_string: "parse_signed (to_string i) = Some i"
proof (cases "i < 0")
  case True
  then show ?thesis
    by (simp add: parse_signed_def to_string_def is_space_def unsigned_prefix_string_of_nat)
next
  case False
  obtain d cs where h: "d < 10" "string_of_nat (nat i) = digit_char d # cs"
    using string_of_nat_hd by blast
  have "unsigned_prefix (digit_char d # cs) = Some (nat i)"
    using unsigned_prefix_string_of_nat [of "nat i"] h(2) by simp
  with False h show ?thesis
    by (simp add: parse_signed_def to_string_def digit_char_not_space digit_char_not_minus
        digit_char_not_plus)
qed

lemma stoi_to_string: "is_int32 i \<Longrightarrow> stoi (to_string i) = Inr i"
  by (simp add: stoi_def parse_signed_to_string)

lemma string_of_nat_length: "n < 10 ^ Suc k \<Longrightarrow> length (string_of_nat n) \<le> Suc k"
proof (induction k arbitrary: n)
  case 0
  then show ?case by (simp add: string_of_nat_small)
next
  case (Suc k)
  show ?case
  proof (cases "n < 10")
    case True
    then show ?thesis by (simp add: string_of_nat_small)
  next
    case False
    have "n div 10 < 10 ^ Suc k" using Suc.prems by (simp add: less_mult_imp_div_less mult.commute)
    then show ?thesis using Suc.IH [of "n div 10"] False by (simp add: string_of_nat_big)
  qed
qed

lemma to_string_inj: "to_string i = to_string j \<Longrightarrow> i = j"
  by (metis option.inject parse_signed_to_string)

lemma to_string_nonempty [simp]: "to_string i \<noteq> []"
  using string_of_nat_hd [of "nat i"] by (auto simp: to_string_def)

lemma to_string_chars: "c \<in> set (to_string i) \<Longrightarrow> c = CHR ''-'' \<or> (\<exists>d < 10. c = digit_char d)"
  by (auto simp: to_string_def split: if_splits dest: string_of_nat_digits)

lemma dot_notin_to_string: "CHR ''.'' \<notin> set (to_string i)"
proof
  assume a: "CHR ''.'' \<in> set (to_string i)"
  have "CHR ''.'' = CHR ''-'' \<or> (\<exists>d < 10. CHR ''.'' = digit_char d)"
    by (rule to_string_chars [OF a])
  then obtain d where d: "d < 10" "CHR ''.'' = digit_char d" by auto
  have "of_char (digit_char d) = (46::nat)"
    unfolding d(2) [symmetric] by simp
  with d(1) show False by (simp add: digit_char_def)
qed

section \<open>Facts on searches\<close>

lemma str_find_None: "str_find pat s = None \<Longrightarrow> \<not> sublist pat s"
proof (induction s)
  case Nil
  then show ?case by (simp split: if_splits)
next
  case (Cons c cs)
  then show ?case by (auto simp: sublist_Cons_right split: if_splits)
qed

lemma str_find_Some:
  "str_find pat s = Some i \<Longrightarrow> i \<le> length s \<and> prefix pat (drop i s)"
  by (induction s arbitrary: i) (auto split: if_splits)

lemma str_find_sublist: "str_contains pat s \<longleftrightarrow> sublist pat s"
proof
  assume "str_contains pat s"
  then obtain i where "str_find pat s = Some i" by (auto simp: str_contains_def)
  then have "prefix pat (drop i s)" by (simp add: str_find_Some)
  then show "sublist pat s"
    by (metis prefix_imp_sublist sublist_drop sublist_order.order_trans)
next
  assume "sublist pat s"
  then show "str_contains pat s"
    using str_find_None by (auto simp: str_contains_def)
qed

lemma find_index_of_Some:
  "find_index_of P xs = Some i \<Longrightarrow> i < length xs \<and> P (xs ! i) \<and> (\<forall>j < i. \<not> P (xs ! j))"
proof (induction xs arbitrary: i)
  case (Cons x xs)
  show ?case
  proof (cases "P x")
    case False
    with Cons.prems obtain k where k: "find_index_of P xs = Some k" "i = Suc k" by auto
    from Cons.IH [OF k(1)] False k(2) show ?thesis
      by (auto simp: less_Suc_eq_0_disj)
  qed (use Cons.prems in auto)
qed simp

lemma find_index_of_None: "find_index_of P xs = None \<longleftrightarrow> (\<forall>x \<in> set xs. \<not> P x)"
  by (induction xs) auto

lemma mset_remove_nth: "i < length xs \<Longrightarrow> mset xs = add_mset (xs ! i) (mset (remove_nth i xs))"
  by (metis id_take_nth_drop mset_append mset.simps(2) remove_nth_def union_mset_add_mset_right)

lemma length_remove_nth: "i < length xs \<Longrightarrow> length (remove_nth i xs) = length xs - 1"
  by (simp add: remove_nth_def)

lemma set_remove_nth_subset: "set (remove_nth i xs) \<subseteq> set xs"
  by (auto simp: remove_nth_def dest: in_set_takeD in_set_dropD)

lemma length_keep_last [simp]: "length (keep_last n xs) = min n (length xs)"
  by (simp add: keep_last_def)

lemma set_keep_last: "set (keep_last n xs) \<subseteq> set xs"
  by (simp add: keep_last_def set_drop_subset)

lemma keep_last_all: "length xs \<le> n \<Longrightarrow> keep_last n xs = xs"
  by (simp add: keep_last_def)

lemma length_update_first [simp]: "length (update_first P f xs) = length xs"
  by (induction xs) auto

lemma map_update_first:
  "(\<And>x. g (f x) = g x) \<Longrightarrow> map g (update_first P f xs) = map g xs"
  by (induction xs) auto

lemma map_of_alist_put: "map_of (alist_put k v ps) = (map_of ps)(k \<mapsto> v)"
  by (induction ps) (auto simp: fun_eq_iff)

lemma map_of_alist_erase: "map_of (alist_erase k ps) = (map_of ps)(k := None)"
  by (induction ps) (auto simp: alist_erase_def fun_eq_iff)

lemma dom_alist_put: "fst ` set (alist_put k v ps) = insert k (fst ` set ps)"
  by (induction k v ps rule: alist_put.induct) auto

lemma alist_put_nonempty: "alist_put k v ps \<noteq> []"
  by (cases ps) (auto split: if_splits)

lemma in_alist_put: "p \<in> set (alist_put k v ps) \<Longrightarrow> p = (k, v) \<or> p \<in> set ps"
  by (induction k v ps rule: alist_put.induct) (auto split: if_splits)

lemma distinct_alist_put: "distinct (map fst ps) \<Longrightarrow> distinct (map fst (alist_put k v ps))"
proof (induction ps)
  case (Cons p ps)
  obtain k' v' where p: "p = (k', v')" by fastforce
  have "k' \<notin> set (map fst (alist_put k v ps))" if "k \<noteq> k'"
    using Cons.prems that p dom_alist_put [of k v ps] by auto
  with Cons p show ?case by auto
qed simp

lemma distinct_alist_erase: "distinct (map fst ps) \<Longrightarrow> distinct (map fst (alist_erase k ps))"
  by (simp add: alist_erase_def distinct_map_filter)

lemma length_alist_put:
  "length (alist_put k v ps) = (if k \<in> fst ` set ps then length ps else Suc (length ps))"
  by (induction k v ps rule: alist_put.induct) auto

lemma length_alist_erase: "length (alist_erase k ps) \<le> length ps"
  by (simp add: alist_erase_def)

lemma set_push_unique [simp]: "set (push_unique xs x) = insert x (set xs)"
  by (auto simp: push_unique_def)

lemma distinct_push_unique [simp]: "distinct (push_unique xs x) = distinct xs"
  by (auto simp: push_unique_def)

section \<open>Runs of operations\<close>

text \<open>
  The contract of the components whose state changes by a sequence of calls: every operation keeps
  the invariant, so every run does.
\<close>

locale invariant_of =
  fixes step :: "'op \<Rightarrow> 's \<Rightarrow> 's" and inv :: "'s \<Rightarrow> bool"
  assumes keeps: "inv s \<Longrightarrow> inv (step op s)"
begin

lemma run: "inv s \<Longrightarrow> inv (fold step ops s)"
  by (induction ops arbitrary: s) (simp_all add: keeps)

end

section \<open>One-pass search for a best element\<close>

text \<open>
  The contract of a loop that walks a sequence with a current best and replaces it whenever the
  next element is strictly better: a strict weak order on the elements gives an element that
  nothing beats, and the first of those.
\<close>

locale scan_best =
  fixes better :: "'a \<Rightarrow> 'a \<Rightarrow> bool"
  assumes better_irrefl: "\<not> better x x"
    and better_trans: "better x y \<Longrightarrow> better y z \<Longrightarrow> better x z"
    and not_better_trans: "\<not> better x y \<Longrightarrow> \<not> better y z \<Longrightarrow> \<not> better x z"
begin

fun scan :: "'a option \<Rightarrow> 'a list \<Rightarrow> 'a option" where
  "scan b [] = b"
| "scan b (x # xs) =
     scan (case b of None \<Rightarrow> Some x | Some y \<Rightarrow> (if better x y then Some x else b)) xs"

lemma scan_Some_iff: "scan b xs = None \<longleftrightarrow> b = None \<and> xs = []"
  by (induction xs arbitrary: b) (auto split: option.splits)

lemma scan_in: "scan b xs = Some m \<Longrightarrow> b = Some m \<or> m \<in> set xs"
proof (induction xs arbitrary: b)
  case (Cons x xs)
  let ?b = "case b of None \<Rightarrow> Some x | Some y \<Rightarrow> (if better x y then Some x else b)"
  have "?b = Some m \<or> m \<in> set xs" using Cons by simp
  then show ?case by (auto split: option.splits if_splits)
qed simp

lemma scan_keeps: "scan (Some y) xs = Some m \<Longrightarrow> \<not> better y m"
proof (induction xs arbitrary: y)
  case Nil
  then show ?case by (simp add: better_irrefl)
next
  case (Cons x xs)
  show ?case
  proof (cases "better x y")
    case True
    with Cons.prems have "scan (Some x) xs = Some m" by simp
    then have "\<not> better x m" by (rule Cons.IH)
    with True show ?thesis by (blast intro: better_trans)
  next
    case False
    with Cons show ?thesis by simp
  qed
qed

lemma scan_best: "scan b xs = Some m \<Longrightarrow> x \<in> set xs \<Longrightarrow> \<not> better x m"
proof (induction xs arbitrary: b)
  case (Cons y ys)
  let ?b = "case b of None \<Rightarrow> Some y | Some z \<Rightarrow> (if better y z then Some y else b)"
  have step: "scan ?b ys = Some m" using Cons.prems(1) by simp
  show ?case
  proof (cases "x = y")
    case True
    obtain w where w: "?b = Some w" by (cases b; cases "better y (the b)") auto
    have "\<not> better y w" using w by (auto split: option.splits if_splits simp: better_irrefl)
    moreover have "\<not> better w m" using step w scan_keeps by simp
    ultimately show ?thesis using True not_better_trans by blast
  next
    case False
    with Cons.prems(2) have "x \<in> set ys" by simp
    with step show ?thesis by (rule Cons.IH)
  qed
qed simp

lemma scan_None_obtains: "xs \<noteq> [] \<Longrightarrow> \<exists>m. scan None xs = Some m \<and> m \<in> set xs"
  using scan_Some_iff [of None xs] scan_in [of None xs] by auto

end

end
