(* ===== verification/Json_Values.thy ===== *)
theory Json_Values
  imports Prelude
begin

text \<open>
  JSON values as the program sees them, and the typed accessors of
  \<^verbatim>\<open>node/vllm-client/src/main.cpp\<close> and \<^verbatim>\<open>observability_metrics.cpp\<close>.

  A \<open>json\<close> value has the constructors of an \<^verbatim>\<open>nlohmann::json\<close> value; an object is an association
  list with one entry per key. \<open>contains\<close>, \<open>jget\<close> and \<open>jset\<close> are \<^verbatim>\<open>contains\<close>, \<^verbatim>\<open>at\<close>/\<^verbatim>\<open>operator[]\<close>
  and the assignment through \<^verbatim>\<open>operator[]\<close>, which creates an object from null and throws a type
  error on every other kind of value. The JSON text parser and printer are parameters wherever
  the program calls them.
\<close>

datatype json =
    JNull
  | JBool bool
  | JInt int
  | JFloat rat
  | JStr string
  | JArr "json list"
  | JObj "(string \<times> json) list"

fun contains :: "json \<Rightarrow> string \<Rightarrow> bool" where
  "contains (JObj kvs) k = (map_of kvs k \<noteq> None)"
| "contains _ k = False"

fun jget :: "json \<Rightarrow> string \<Rightarrow> json option" where
  "jget (JObj kvs) k = map_of kvs k"
| "jget _ k = None"

fun jset :: "json \<Rightarrow> string \<Rightarrow> json \<Rightarrow> json result" where
  "jset (JObj kvs) k v = Inr (JObj (alist_put k v kvs))"
| "jset JNull k v = Inr (JObj [(k, v)])"
| "jset _ k v = Inl JsonTypeError"

fun is_object :: "json \<Rightarrow> bool" where
  "is_object (JObj _) = True"
| "is_object _ = False"

fun is_array :: "json \<Rightarrow> bool" where
  "is_array (JArr _) = True"
| "is_array _ = False"

fun is_jstring :: "json \<Rightarrow> bool" where
  "is_jstring (JStr _) = True"
| "is_jstring _ = False"

fun array_items :: "json \<Rightarrow> json list" where
  "array_items (JArr xs) = xs"
| "array_items _ = []"

section \<open>Accessors\<close>

definition parse_bool_string :: "string \<Rightarrow> bool \<Rightarrow> bool" where
  "parse_bool_string val default_value =
     (if val \<in> {''1'', ''true'', ''TRUE'', ''on'', ''ON''} then True
      else if val \<in> {''0'', ''false'', ''FALSE'', ''off'', ''OFF''} then False
      else default_value)"

definition json_bool_value :: "json \<Rightarrow> string \<Rightarrow> bool \<Rightarrow> bool" where
  "json_bool_value body key default_value =
     (case jget body key of
        None \<Rightarrow> default_value
      | Some (JBool b) \<Rightarrow> b
      | Some (JInt i) \<Rightarrow> to_int32 i \<noteq> 0
      | Some (JStr s) \<Rightarrow> parse_bool_string s default_value
      | Some _ \<Rightarrow> default_value)"

definition json_int_value :: "json \<Rightarrow> string \<Rightarrow> int \<Rightarrow> int" where
  "json_int_value body key default_value =
     (case jget body key of
        None \<Rightarrow> default_value
      | Some (JInt i) \<Rightarrow> to_int32 i
      | Some (JStr s) \<Rightarrow> (case stoi s of Inl _ \<Rightarrow> default_value | Inr i \<Rightarrow> i)
      | Some _ \<Rightarrow> default_value)"

definition json_string_value :: "json \<Rightarrow> string \<Rightarrow> string \<Rightarrow> string" where
  "json_string_value body key default_value =
     (case jget body key of Some (JStr s) \<Rightarrow> s | _ \<Rightarrow> default_value)"

definition string_in_vector :: "string list \<Rightarrow> string \<Rightarrow> bool" where
  "string_in_vector values target \<longleftrightarrow> target \<in> set values"

fun json_strings :: "json list \<Rightarrow> string list" where
  "json_strings [] = []"
| "json_strings (JStr s # xs) = s # json_strings xs"
| "json_strings (_ # xs) = json_strings xs"

definition json_string_array_value :: "json \<Rightarrow> string \<Rightarrow> string list" where
  "json_string_array_value body key =
     (case jget body key of
        None \<Rightarrow> []
      | Some (JStr s) \<Rightarrow> [s]
      | Some (JArr xs) \<Rightarrow> json_strings xs
      | Some _ \<Rightarrow> [])"

definition to_int64 :: "int \<Rightarrow> int" where
  "to_int64 i = (i + 9223372036854775808) mod 18446744073709551616 - 9223372036854775808"

definition json_int64_value :: "json \<Rightarrow> string \<Rightarrow> int \<Rightarrow> int" where
  "json_int64_value body key default_value =
     (case jget body key of
        None \<Rightarrow> default_value
      | Some (JInt i) \<Rightarrow> to_int64 i
      | Some (JFloat x) \<Rightarrow> trunc_int x
      | Some (JStr s) \<Rightarrow> (case stoll s of Inl _ \<Rightarrow> default_value | Inr i \<Rightarrow> i)
      | Some _ \<Rightarrow> default_value)"

definition trim_right_slash :: "string \<Rightarrow> string" where
  "trim_right_slash value = rev (dropWhile (\<lambda>c. c = CHR ''/'') (rev value))"

section \<open>Facts\<close>

lemma contains_jget: "contains body k \<longleftrightarrow> jget body k \<noteq> None"
  by (cases body) auto

lemma not_contains_jget [simp]: "\<not> contains body k \<Longrightarrow> jget body k = None"
  by (simp add: contains_jget)

lemma jget_jset: "jset j k v = Inr j' \<Longrightarrow> jget j' k' = (if k' = k then Some v else jget j k')"
  by (cases j) (auto simp: map_of_alist_put)

lemma jset_fails_iff: "jset j k v = Inl e \<longleftrightarrow> e = JsonTypeError \<and> \<not> is_object j \<and> j \<noteq> JNull"
  by (cases j) auto

lemma is_object_jset: "jset j k v = Inr j' \<Longrightarrow> is_object j'"
  by (cases j) auto

lemma json_int_value_int32:
  assumes "is_int32 d"
  shows "is_int32 (json_int_value body key d)"
proof -
  have "is_int32 i" if "stoi s = Inr i" for s i
    using that by (auto simp: stoi_def split: option.splits if_splits)
  with assms show ?thesis
    by (auto simp: json_int_value_def to_int32_range split: option.splits json.splits sum.splits)
qed

lemma json_value_absent:
  assumes "\<not> contains body key"
  shows "json_int_value body key i = i" and "json_string_value body key s = s"
    and "json_bool_value body key b = b" and "json_string_array_value body key = []"
  using assms
  by (simp_all add: json_int_value_def json_string_value_def json_bool_value_def
      json_string_array_value_def)

lemma trim_right_slash_last: "trim_right_slash s \<noteq> [] \<Longrightarrow> last (trim_right_slash s) \<noteq> CHR ''/''"
  unfolding trim_right_slash_def
  using hd_dropWhile [of "\<lambda>c. c = CHR ''/''" "rev s"] by (simp add: last_rev)

lemma trim_right_slash_idem [simp]: "trim_right_slash (trim_right_slash s) = trim_right_slash s"
  by (simp add: trim_right_slash_def)

lemma trim_right_slash_prefix: "\<exists>n. s = trim_right_slash s @ replicate n (CHR ''/'')"
proof -
  let ?t = "takeWhile (\<lambda>c. c = CHR ''/'') (rev s)"
  have "?t = replicate (length ?t) (CHR ''/'')"
    by (rule replicate_length_same [symmetric]) (auto dest: set_takeWhileD)
  moreover have "s = trim_right_slash s @ rev ?t"
    unfolding trim_right_slash_def by (metis rev_append rev_rev_ident takeWhile_dropWhile_id)
  ultimately show ?thesis by (metis rev_replicate)
qed

end
