(* ===== verification/Vllm_Types.thy ===== *)
theory Vllm_Types
  imports Json_Values
begin

text \<open>
  The data of the vLLM client node (\<^verbatim>\<open>node/vllm-client/src/main.cpp\<close>) and the event records it hands
  to the observability component (\<^verbatim>\<open>observability_metrics.h\<close>). Every C++ struct is a record whose
  fields carry a two-letter prefix of the struct's name; the in-class initialisers are the
  \<open>new_\<dots>\<close> constants. Circuit states are ordered by how much traffic they admit, which is the order
  of the values the circuit metric reports.
\<close>

section \<open>Enumerations\<close>

datatype TaskStatus =
  TS_Created | TS_Starting | TS_Ready | TS_Running | TS_Stopping | TS_Stopped | TS_Failed

fun status_to_string :: "TaskStatus \<Rightarrow> string" where
  "status_to_string TS_Created = ''created''"
| "status_to_string TS_Starting = ''starting''"
| "status_to_string TS_Ready = ''ready''"
| "status_to_string TS_Running = ''running''"
| "status_to_string TS_Stopping = ''stopping''"
| "status_to_string TS_Stopped = ''stopped''"
| "status_to_string TS_Failed = ''failed''"

datatype CircuitState = Closed | Open | HalfOpen

fun circuit_to_string :: "CircuitState \<Rightarrow> string" where
  "circuit_to_string Closed = ''closed''"
| "circuit_to_string Open = ''open''"
| "circuit_to_string HalfOpen = ''half_open''"

fun circuit_to_metric_value :: "CircuitState \<Rightarrow> int" where
  "circuit_to_metric_value Closed = 0"
| "circuit_to_metric_value HalfOpen = 1"
| "circuit_to_metric_value Open = 2"

datatype RequestStatus =
  RS_Pending | RS_Running | RS_Success | RS_Failed | RS_Timeout | RS_Cancelled

fun request_status_to_string :: "RequestStatus \<Rightarrow> string" where
  "request_status_to_string RS_Pending = ''pending''"
| "request_status_to_string RS_Running = ''running''"
| "request_status_to_string RS_Success = ''success''"
| "request_status_to_string RS_Failed = ''failed''"
| "request_status_to_string RS_Timeout = ''timeout''"
| "request_status_to_string RS_Cancelled = ''cancelled''"

section \<open>Requests\<close>

record InferenceRequest =
  rq_task_id :: int
  rq_request_id :: string
  rq_work_id :: string
  rq_output_url :: string
  rq_object :: string
  rq_action :: string
  rq_profile_name :: string
  rq_prompt :: string
  rq_system_prompt :: string
  rq_response_format :: string
  rq_session_default_action :: string
  rq_logical_model :: string
  rq_served_model :: string
  rq_endpoint_name :: string
  rq_fallback_chain :: "string list"
  rq_priority :: int
  rq_timeout_ms :: int
  rq_deadline_ms :: int
  rq_max_retries :: int
  rq_max_tokens :: int
  rq_retry_count :: int
  rq_created_ms :: int
  rq_started_ms :: int
  rq_finished_ms :: int
  rq_deadline_at_ms :: int
  rq_queue_wait_ms :: int
  rq_first_token_latency_ms :: int
  rq_total_latency_ms :: int
  rq_allow_degrade :: bool
  rq_degraded :: bool
  rq_enoutput :: bool
  rq_enstream :: bool
  rq_degrade_reason :: string

definition new_request :: InferenceRequest where
  "new_request = \<lparr>
     rq_task_id = 0, rq_request_id = [], rq_work_id = [], rq_output_url = [], rq_object = [],
     rq_action = [], rq_profile_name = [], rq_prompt = [], rq_system_prompt = [],
     rq_response_format = ''llm.utf-8.stream'', rq_session_default_action = ''chat'',
     rq_logical_model = [], rq_served_model = [], rq_endpoint_name = [], rq_fallback_chain = [],
     rq_priority = 5, rq_timeout_ms = 30000, rq_deadline_ms = 70000, rq_max_retries = 0,
     rq_max_tokens = 1024, rq_retry_count = 0, rq_created_ms = 0, rq_started_ms = 0,
     rq_finished_ms = 0, rq_deadline_at_ms = 0, rq_queue_wait_ms = 0,
     rq_first_token_latency_ms = -1, rq_total_latency_ms = -1, rq_allow_degrade = True,
     rq_degraded = False, rq_enoutput = True, rq_enstream = True, rq_degrade_reason = []\<rparr>"

record RequestOptions =
  ro_response_format :: string
  ro_system_prompt :: string
  ro_default_action :: string
  ro_enoutput :: bool
  ro_enstream :: bool

record RequestRecord =
  rr_task_id :: int
  rr_request_id :: string
  rr_work_id :: string
  rr_action :: string
  rr_profile_name :: string
  rr_logical_model :: string
  rr_served_model :: string
  rr_endpoint_name :: string
  rr_status :: RequestStatus
  rr_priority :: int
  rr_retry_count :: int
  rr_degraded :: bool
  rr_error_message :: string
  rr_created_ms :: int
  rr_started_ms :: int
  rr_finished_ms :: int
  rr_queue_wait_ms :: int
  rr_first_token_latency_ms :: int
  rr_total_latency_ms :: int

definition new_record :: RequestRecord where
  "new_record = \<lparr>
     rr_task_id = 0, rr_request_id = [], rr_work_id = [], rr_action = [], rr_profile_name = [],
     rr_logical_model = [], rr_served_model = [], rr_endpoint_name = [], rr_status = RS_Pending,
     rr_priority = 5, rr_retry_count = 0, rr_degraded = False, rr_error_message = [],
     rr_created_ms = 0, rr_started_ms = 0, rr_finished_ms = 0, rr_queue_wait_ms = 0,
     rr_first_token_latency_ms = -1, rr_total_latency_ms = -1\<rparr>"

section \<open>Endpoints and model profiles\<close>

record VllmEndpoint =
  ep_name :: string
  ep_base_url :: string
  ep_served_model :: string
  ep_role :: string
  ep_health_path :: string
  ep_api_key :: string
  ep_logical_models :: "string list"
  ep_weight :: int
  ep_max_context_len :: int
  ep_max_concurrency :: int
  ep_healthy :: bool
  ep_circuit_state :: CircuitState
  ep_inflight :: int
  ep_consecutive_failures :: int
  ep_consecutive_successes :: int
  ep_half_open_inflight :: int
  ep_circuit_open_until_ms :: int
  ep_last_health_check_ms :: int
  ep_last_latency_ms :: int
  ep_avg_latency_ms :: rat
  ep_success_count :: nat
  ep_failure_count :: nat
  ep_timeout_count :: nat
  ep_circuit_open_count :: nat

definition new_endpoint :: VllmEndpoint where
  "new_endpoint = \<lparr>
     ep_name = [], ep_base_url = [], ep_served_model = [], ep_role = ''primary'',
     ep_health_path = ''/health'', ep_api_key = [], ep_logical_models = [], ep_weight = 100,
     ep_max_context_len = 0, ep_max_concurrency = 1, ep_healthy = True,
     ep_circuit_state = Closed, ep_inflight = 0, ep_consecutive_failures = 0,
     ep_consecutive_successes = 0, ep_half_open_inflight = 0, ep_circuit_open_until_ms = 0,
     ep_last_health_check_ms = 0, ep_last_latency_ms = 0, ep_avg_latency_ms = 0,
     ep_success_count = 0, ep_failure_count = 0, ep_timeout_count = 0, ep_circuit_open_count = 0\<rparr>"

record ModelProfile =
  mp_name :: string
  mp_actions :: "string list"
  mp_primary_model :: string
  mp_fallback_models :: "string list"
  mp_max_context_len :: int
  mp_stream :: bool
  mp_tool_calling :: bool
  mp_default_max_tokens :: int
  mp_default_timeout_ms :: int
  mp_default_deadline_ms :: int
  mp_default_priority :: int
  mp_allow_model_fallback :: bool

section \<open>Observability events\<close>

record RequestMetricsEvent =
  re_action :: string
  re_endpoint :: string
  re_ok :: bool
  re_timeout :: bool
  re_degraded :: bool
  re_error_code :: int
  re_total_latency_ms :: int
  re_queue_wait_ms :: int
  re_first_token_latency_ms :: int

record QueueMetricsEvent =
  qe_pending :: int
  qe_high :: int
  qe_normal :: int
  qe_background :: int
  qe_max_queue_size :: int

record EndpointMetricsEvent =
  ee_endpoint :: string
  ee_inflight :: int
  ee_available_capacity :: int
  ee_avg_latency_ms :: rat
  ee_healthy :: bool
  ee_circuit_state :: int
  ee_success_count :: nat
  ee_failure_count :: nat
  ee_timeout_count :: nat
  ee_circuit_open_count :: nat

definition endpoint_metrics_event :: "VllmEndpoint \<Rightarrow> EndpointMetricsEvent" where
  "endpoint_metrics_event ep = \<lparr>
     ee_endpoint = ep_name ep,
     ee_inflight = ep_inflight ep,
     ee_available_capacity = max 0 (ep_max_concurrency ep - ep_inflight ep),
     ee_avg_latency_ms = ep_avg_latency_ms ep,
     ee_healthy = ep_healthy ep,
     ee_circuit_state = circuit_to_metric_value (ep_circuit_state ep),
     ee_success_count = ep_success_count ep,
     ee_failure_count = ep_failure_count ep,
     ee_timeout_count = ep_timeout_count ep,
     ee_circuit_open_count = ep_circuit_open_count ep\<rparr>"

section \<open>The order of circuit states\<close>

instantiation CircuitState :: linorder
begin

definition less_eq_CircuitState :: "CircuitState \<Rightarrow> CircuitState \<Rightarrow> bool" where
  "less_eq_CircuitState a b \<longleftrightarrow> circuit_to_metric_value a \<le> circuit_to_metric_value b"

definition less_CircuitState :: "CircuitState \<Rightarrow> CircuitState \<Rightarrow> bool" where
  "less_CircuitState a b \<longleftrightarrow> circuit_to_metric_value a < circuit_to_metric_value b"

instance
proof
  fix x y :: CircuitState
  assume "x \<le> y" and "y \<le> x"
  then show "x = y" by (cases x; cases y) (auto simp: less_eq_CircuitState_def)
qed (auto simp: less_eq_CircuitState_def less_CircuitState_def)

end

lemma circuit_metric_mono: "mono circuit_to_metric_value"
  by (rule monoI) (simp add: less_eq_CircuitState_def)

lemma circuit_to_string_inj: "circuit_to_string a = circuit_to_string b \<Longrightarrow> a = b"
  by (cases a; cases b) auto

lemma request_status_to_string_inj:
  "request_status_to_string a = request_status_to_string b \<Longrightarrow> a = b"
  by (cases a; cases b) auto

end
