(* ===== verification/Endpoint_Store.thy ===== *)
theory Endpoint_Store
  imports Vllm_Types
begin

text \<open>
  The endpoint objects of \<^verbatim>\<open>node/vllm-client/src/main.cpp\<close>. Endpoints are held through
  \<^verbatim>\<open>std::shared_ptr\<close> and shared between schedulers by the static table \<^verbatim>\<open>global_endpoints_\<close>, whose
  entries are weak pointers. The store is a heap of endpoint objects addressed by position, with
  that table; a task refers to its endpoints by address. Whether a weak pointer can still be
  locked depends on owners outside this task: the parameter \<open>alive\<close>.
\<close>

record endpoint_store =
  es_heap :: "VllmEndpoint list"
  es_global :: "(string \<times> nat) list"

definition empty_store :: endpoint_store where
  "empty_store = \<lparr>es_heap = [], es_global = []\<rparr>"

definition es_get :: "endpoint_store \<Rightarrow> nat \<Rightarrow> VllmEndpoint" where
  "es_get st a = es_heap st ! a"

definition es_update :: "nat \<Rightarrow> (VllmEndpoint \<Rightarrow> VllmEndpoint) \<Rightarrow> endpoint_store \<Rightarrow> endpoint_store" where
  "es_update a f st = st\<lparr>es_heap := (es_heap st)[a := f (es_heap st ! a)]\<rparr>"

definition es_alloc :: "VllmEndpoint \<Rightarrow> endpoint_store \<Rightarrow> nat \<times> endpoint_store" where
  "es_alloc ep st = (length (es_heap st), st\<lparr>es_heap := es_heap st @ [ep]\<rparr>)"

section \<open>Sharing and publishing\<close>

definition endpoint_runtime_key :: "VllmEndpoint \<Rightarrow> string" where
  "endpoint_runtime_key ep = ep_base_url ep @ ''|'' @ ep_served_model ep"

definition take_configured_fields :: "VllmEndpoint \<Rightarrow> VllmEndpoint \<Rightarrow> VllmEndpoint" where
  "take_configured_fields configured existing =
     existing\<lparr>ep_name := ep_name configured, ep_role := ep_role configured,
              ep_health_path := ep_health_path configured, ep_api_key := ep_api_key configured,
              ep_logical_models := ep_logical_models configured, ep_weight := ep_weight configured,
              ep_max_context_len := ep_max_context_len configured,
              ep_max_concurrency := ep_max_concurrency configured\<rparr>"

definition publish_endpoint_runtime :: "nat \<Rightarrow> endpoint_store \<Rightarrow> endpoint_store" where
  "publish_endpoint_runtime a st =
     st\<lparr>es_global := alist_put (endpoint_runtime_key (es_get st a)) a (es_global st)\<rparr>"

definition share_endpoint_runtime ::
  "(nat \<Rightarrow> bool) \<Rightarrow> nat \<Rightarrow> endpoint_store \<Rightarrow> nat \<times> endpoint_store" where
  "share_endpoint_runtime alive a st =
     (let configured = es_get st a; key = endpoint_runtime_key configured
      in case map_of (es_global st) key of
           Some b \<Rightarrow>
             (if alive b then (b, es_update b (take_configured_fields configured) st)
              else (a, publish_endpoint_runtime a st))
         | None \<Rightarrow> (a, publish_endpoint_runtime a st))"

section \<open>Committing a reloaded configuration\<close>

definition copy_endpoint_runtime_fields :: "VllmEndpoint \<Rightarrow> VllmEndpoint \<Rightarrow> VllmEndpoint" where
  "copy_endpoint_runtime_fields target source =
     target\<lparr>ep_healthy := ep_healthy source, ep_circuit_state := ep_circuit_state source,
            ep_consecutive_failures := ep_consecutive_failures source,
            ep_consecutive_successes := ep_consecutive_successes source,
            ep_circuit_open_until_ms := ep_circuit_open_until_ms source,
            ep_last_health_check_ms := ep_last_health_check_ms source,
            ep_last_latency_ms := ep_last_latency_ms source,
            ep_avg_latency_ms := ep_avg_latency_ms source,
            ep_success_count := ep_success_count source,
            ep_failure_count := ep_failure_count source,
            ep_timeout_count := ep_timeout_count source,
            ep_circuit_open_count := ep_circuit_open_count source,
            ep_inflight := 0, ep_half_open_inflight := 0\<rparr>"

definition old_by_key :: "endpoint_store \<Rightarrow> nat list \<Rightarrow> (string \<times> nat) list" where
  "old_by_key st old = fold (\<lambda>a m. alist_put (endpoint_runtime_key (es_get st a)) a m) old []"

definition committed_endpoint ::
  "endpoint_store \<Rightarrow> (string \<times> nat) list \<Rightarrow> nat \<Rightarrow> VllmEndpoint" where
  "committed_endpoint st olds a =
     (let endpoint = es_get st a
      in case map_of olds (endpoint_runtime_key endpoint) of
           Some b \<Rightarrow> copy_endpoint_runtime_fields endpoint (es_get st b)
         | None \<Rightarrow> endpoint)"

fun commit_loop ::
  "(string \<times> nat) list \<Rightarrow> nat list \<Rightarrow> nat list \<Rightarrow> endpoint_store \<Rightarrow> nat list \<times> endpoint_store" where
  "commit_loop olds [] committed st = (committed, st)"
| "commit_loop olds (a # configured) committed st =
     (let (c, st) = es_alloc (committed_endpoint st olds a) st
      in commit_loop olds configured (committed @ [c]) (publish_endpoint_runtime c st))"

definition commit_reloaded_endpoints_locked ::
  "nat list \<Rightarrow> nat list \<Rightarrow> endpoint_store \<Rightarrow> nat list \<times> endpoint_store" where
  "commit_reloaded_endpoints_locked old configured st =
     commit_loop (old_by_key st old) configured [] st"

section \<open>Well-formed stores\<close>

definition store_ok :: "endpoint_store \<Rightarrow> bool" where
  "store_ok st \<longleftrightarrow> (\<forall>k b. map_of (es_global st) k = Some b \<longrightarrow>
     b < length (es_heap st) \<and> endpoint_runtime_key (es_get st b) = k)"

definition addrs_ok :: "endpoint_store \<Rightarrow> nat list \<Rightarrow> bool" where
  "addrs_ok st as \<longleftrightarrow> (\<forall>a \<in> set as. a < length (es_heap st))"

definition same_runtime :: "VllmEndpoint \<Rightarrow> VllmEndpoint \<Rightarrow> bool" where
  "same_runtime e f \<longleftrightarrow>
     ep_healthy e = ep_healthy f \<and> ep_circuit_state e = ep_circuit_state f \<and>
     ep_consecutive_failures e = ep_consecutive_failures f \<and>
     ep_consecutive_successes e = ep_consecutive_successes f \<and>
     ep_circuit_open_until_ms e = ep_circuit_open_until_ms f \<and>
     ep_avg_latency_ms e = ep_avg_latency_ms f \<and> ep_success_count e = ep_success_count f \<and>
     ep_failure_count e = ep_failure_count f \<and> ep_circuit_open_count e = ep_circuit_open_count f"

section \<open>Facts\<close>

lemma es_alloc_simps [simp]:
  "fst (es_alloc ep st) = length (es_heap st)"
  "es_heap (snd (es_alloc ep st)) = es_heap st @ [ep]"
  "es_global (snd (es_alloc ep st)) = es_global st"
  by (simp_all add: es_alloc_def)

lemma es_get_alloc:
  "es_get (snd (es_alloc ep st)) a = (if a < length (es_heap st) then es_get st a
     else if a = length (es_heap st) then ep else es_get (snd (es_alloc ep st)) a)"
  by (auto simp: es_get_def nth_append)

lemma es_update_simps [simp]:
  "length (es_heap (es_update a f st)) = length (es_heap st)"
  "es_global (es_update a f st) = es_global st"
  "a < length (es_heap st) \<Longrightarrow> es_get (es_update a f st) a = f (es_get st a)"
  "a \<noteq> b \<Longrightarrow> es_get (es_update a f st) b = es_get st b"
  by (simp_all add: es_update_def es_get_def)

lemma publish_simps [simp]:
  "es_heap (publish_endpoint_runtime a st) = es_heap st"
  "es_get (publish_endpoint_runtime a st) b = es_get st b"
  by (simp_all add: publish_endpoint_runtime_def es_get_def)

lemma take_configured_key [simp]:
  "endpoint_runtime_key (take_configured_fields c e) = endpoint_runtime_key e"
  by (simp add: endpoint_runtime_key_def take_configured_fields_def)

lemma store_ok_empty: "store_ok empty_store"
  by (simp add: store_ok_def empty_store_def)

lemma store_ok_alloc [wf_intros]: "store_ok st \<Longrightarrow> store_ok (snd (es_alloc ep st))"
  by (fastforce simp: store_ok_def es_get_def nth_append)

lemma store_ok_publish [wf_intros]:
  "store_ok st \<Longrightarrow> a < length (es_heap st) \<Longrightarrow> store_ok (publish_endpoint_runtime a st)"
  by (auto simp: store_ok_def publish_endpoint_runtime_def map_of_alist_put es_get_def
      split: if_splits)

lemma store_ok_update [wf_intros]:
  assumes "store_ok st" and "\<And>e. endpoint_runtime_key (f e) = endpoint_runtime_key e"
  shows "store_ok (es_update a f st)"
  unfolding store_ok_def
proof (intro allI impI)
  fix k b assume "map_of (es_global (es_update a f st)) k = Some b"
  then have b: "b < length (es_heap st)" "endpoint_runtime_key (es_get st b) = k"
    using assms(1) by (simp_all add: store_ok_def)
  then have "endpoint_runtime_key (es_get (es_update a f st) b) = k"
    using assms(2) by (cases "a = b") simp_all
  with b(1) show "b < length (es_heap (es_update a f st)) \<and>
      endpoint_runtime_key (es_get (es_update a f st) b) = k" by simp
qed

lemma store_ok_share [wf_intros]:
  "store_ok st \<Longrightarrow> a < length (es_heap st) \<Longrightarrow> store_ok (snd (share_endpoint_runtime alive a st))"
  by (auto simp: share_endpoint_runtime_def Let_def split: option.splits
      intro: store_ok_publish store_ok_update)

lemma share_length [simp]:
  "length (es_heap (snd (share_endpoint_runtime alive a st))) = length (es_heap st)"
  by (auto simp: share_endpoint_runtime_def Let_def split: option.splits)

lemma share_addr:
  assumes "store_ok st" and "a < length (es_heap st)"
  shows "fst (share_endpoint_runtime alive a st) < length (es_heap st)"
  using assms by (auto simp: share_endpoint_runtime_def store_ok_def Let_def split: option.splits)

text \<open>Every object keeps its runtime key when an endpoint is shared; the result has the key of
  the configured endpoint and is the one the table names.\<close>

lemma share_keys:
  assumes "b < length (es_heap st)"
  shows "endpoint_runtime_key (es_get (snd (share_endpoint_runtime alive a st)) b) =
     endpoint_runtime_key (es_get st b)"
proof -
  have "endpoint_runtime_key (es_get (es_update c (take_configured_fields e) st) b) =
      endpoint_runtime_key (es_get st b)" for c e
    using assms by (cases "b = c") simp_all
  then show ?thesis by (simp add: share_endpoint_runtime_def Let_def split: option.splits)
qed

lemma share_result_key:
  assumes "store_ok st" and "a < length (es_heap st)"
  shows "endpoint_runtime_key (es_get (snd (share_endpoint_runtime alive a st))
      (fst (share_endpoint_runtime alive a st))) = endpoint_runtime_key (es_get st a)"
proof -
  have "endpoint_runtime_key (es_get st (fst (share_endpoint_runtime alive a st))) =
      endpoint_runtime_key (es_get st a)"
    using assms by (auto simp: share_endpoint_runtime_def store_ok_def Let_def split: option.splits)
  then show ?thesis using share_keys [OF share_addr [OF assms]] by simp
qed

lemma share_published:
  assumes "store_ok st" and "a < length (es_heap st)"
  shows "map_of (es_global (snd (share_endpoint_runtime alive a st)))
     (endpoint_runtime_key (es_get st a)) = Some (fst (share_endpoint_runtime alive a st))"
  using assms
  by (auto simp: share_endpoint_runtime_def publish_endpoint_runtime_def map_of_alist_put Let_def
      split: option.splits)

lemma share_table_other:
  "k \<noteq> endpoint_runtime_key (es_get st a) \<Longrightarrow>
   map_of (es_global (snd (share_endpoint_runtime alive a st))) k = map_of (es_global st) k"
  by (auto simp: share_endpoint_runtime_def publish_endpoint_runtime_def map_of_alist_put Let_def
      split: option.splits)

lemma share_existing:
  "map_of (es_global st) (endpoint_runtime_key (es_get st a)) = Some b \<Longrightarrow> alive b \<Longrightarrow>
   fst (share_endpoint_runtime alive a st) = b"
  by (simp add: share_endpoint_runtime_def Let_def)

section \<open>Facts on a commit\<close>

lemma committed_endpoint_append:
  assumes "a < length (es_heap st)" and "\<forall>p \<in> set olds. snd p < length (es_heap st)"
    and "es_heap st' = es_heap st @ xs"
  shows "committed_endpoint st' olds a = committed_endpoint st olds a"
proof -
  have "es_get st' b = es_get st b" if "b < length (es_heap st)" for b
    using that assms(3) by (simp add: es_get_def nth_append)
  then show ?thesis using assms(1,2)
    by (auto simp: committed_endpoint_def Let_def split: option.splits dest!: map_of_SomeD)
qed

lemma commit_loop_heap:
  assumes "\<forall>a \<in> set configured. a < length (es_heap st)"
    and "\<forall>p \<in> set olds. snd p < length (es_heap st)"
  shows "fst (commit_loop olds configured acc st) =
      acc @ [length (es_heap st) ..< length (es_heap st) + length configured] \<and>
    es_heap (snd (commit_loop olds configured acc st)) =
      es_heap st @ map (committed_endpoint st olds) configured"
  using assms
proof (induction configured arbitrary: acc st)
  case (Cons a configured)
  define st1 where "st1 = publish_endpoint_runtime (length (es_heap st))
    (snd (es_alloc (committed_endpoint st olds a) st))"
  have h1: "es_heap st1 = es_heap st @ [committed_endpoint st olds a]" by (simp add: st1_def)
  have "commit_loop olds (a # configured) acc st =
      commit_loop olds configured (acc @ [length (es_heap st)]) st1"
    by (simp add: st1_def es_alloc_def)
  moreover have "map (committed_endpoint st1 olds) configured =
      map (committed_endpoint st olds) configured"
    using Cons.prems h1 by (intro map_cong refl committed_endpoint_append) auto
  moreover have "[length (es_heap st) ..< length (es_heap st) + length (a # configured)] =
      length (es_heap st) # [Suc (length (es_heap st)) ..< Suc (length (es_heap st)) + length configured]"
    by (simp add: upt_rec)
  ultimately show ?case using Cons.IH [of st1 "acc @ [length (es_heap st)]"] Cons.prems h1
    by (simp add: less_SucI)
qed simp

lemma map_of_old_by_key:
  "map_of (old_by_key st old) k = (if k \<in> endpoint_runtime_key ` es_get st ` set old
     then Some (last (filter (\<lambda>a. endpoint_runtime_key (es_get st a) = k) old)) else None)"
  unfolding old_by_key_def
proof (induction old rule: rev_induct)
  case (snoc a old)
  then show ?case by (auto simp: map_of_alist_put image_iff filter_empty_conv)
qed simp

lemma old_by_key_addr:
  assumes "addrs_ok st old" shows "\<forall>p \<in> set (old_by_key st old). snd p < length (es_heap st)"
proof -
  have "\<forall>p \<in> set (fold (\<lambda>a m. alist_put (endpoint_runtime_key (es_get st a)) a m) old m).
      snd p < length (es_heap st)"
    if "\<forall>p \<in> set m. snd p < length (es_heap st)" for m
    using assms that
  proof (induction old arbitrary: m)
    case (Cons a old)
    have "\<forall>p \<in> set (alist_put (endpoint_runtime_key (es_get st a)) a m). snd p < length (es_heap st)"
      using Cons.prems in_alist_put by (fastforce simp: addrs_ok_def)
    then show ?case using Cons by (simp add: addrs_ok_def)
  qed simp
  from this [of "[]"] show ?thesis by (simp add: old_by_key_def)
qed

lemma commit_heap:
  assumes "addrs_ok st configured" and "addrs_ok st old"
  shows "fst (commit_reloaded_endpoints_locked old configured st) =
      [length (es_heap st) ..< length (es_heap st) + length configured]"
    and "es_heap (snd (commit_reloaded_endpoints_locked old configured st)) =
      es_heap st @ map (committed_endpoint st (old_by_key st old)) configured"
  using commit_loop_heap [of configured st "old_by_key st old" "[]"] assms old_by_key_addr [OF assms(2)]
  by (simp_all add: commit_reloaded_endpoints_locked_def addrs_ok_def)

lemma copy_runtime_same:
  "same_runtime (copy_endpoint_runtime_fields e s) s"
  "ep_inflight (copy_endpoint_runtime_fields e s) = 0"
  "ep_half_open_inflight (copy_endpoint_runtime_fields e s) = 0"
  "endpoint_runtime_key (copy_endpoint_runtime_fields e s) = endpoint_runtime_key e"
  by (simp_all add: copy_endpoint_runtime_fields_def same_runtime_def endpoint_runtime_key_def)

lemma committed_endpoint_runtime:
  assumes "b \<in> set old" and "endpoint_runtime_key (es_get st b) = endpoint_runtime_key (es_get st a)"
  shows "\<exists>b \<in> set old. endpoint_runtime_key (es_get st b) = endpoint_runtime_key (es_get st a) \<and>
    committed_endpoint st (old_by_key st old) a =
      copy_endpoint_runtime_fields (es_get st a) (es_get st b)"
proof -
  let ?k = "endpoint_runtime_key (es_get st a)"
  let ?b = "last (filter (\<lambda>x. endpoint_runtime_key (es_get st x) = ?k) old)"
  have "filter (\<lambda>x. endpoint_runtime_key (es_get st x) = ?k) old \<noteq> []"
    using assms by (auto simp: filter_empty_conv)
  then have "?b \<in> set (filter (\<lambda>x. endpoint_runtime_key (es_get st x) = ?k) old)"
    by (rule last_in_set)
  moreover have "?k \<in> endpoint_runtime_key ` es_get st ` set old"
    using assms by (metis imageI)
  then have "map_of (old_by_key st old) ?k = Some ?b" by (simp add: map_of_old_by_key)
  ultimately show ?thesis
    by (intro bexI [of _ ?b]) (auto simp: committed_endpoint_def Let_def)
qed

lemma committed_endpoint_fresh:
  "\<forall>b \<in> set old. endpoint_runtime_key (es_get st b) \<noteq> endpoint_runtime_key (es_get st a) \<Longrightarrow>
   committed_endpoint st (old_by_key st old) a = es_get st a"
  by (auto simp: committed_endpoint_def map_of_old_by_key Let_def split: option.splits)

end
