(* ===== verification/Metrics.thy ===== *)
theory Metrics
  imports Vllm_Types
begin

text \<open>
  \<^verbatim>\<open>class MetricsCollector\<close> of \<^verbatim>\<open>node/vllm-client/src/main.cpp\<close>: request counters and four sliding
  windows of samples. Every method takes the collector's mutex for its whole body, so each is one
  state transformer. \<open>apply_metric\<close> runs a call of the public interface, and \<open>metrics_inv\<close> is what
  every sequence of calls keeps.
\<close>

definition kMaxSamples :: nat where
  "kMaxSamples = 1024"

record MetricsCollector =
  mc_total_requests :: nat
  mc_success_requests :: nat
  mc_failed_requests :: nat
  mc_timeout_requests :: nat
  mc_degraded_requests :: nat
  mc_queue_reject_count :: nat
  mc_request_times :: "int list"
  mc_latencies :: "int list"
  mc_queue_waits :: "int list"
  mc_first_token_latencies :: "int list"

definition new_metrics :: MetricsCollector where
  "new_metrics = \<lparr>mc_total_requests = 0, mc_success_requests = 0, mc_failed_requests = 0,
     mc_timeout_requests = 0, mc_degraded_requests = 0, mc_queue_reject_count = 0,
     mc_request_times = [], mc_latencies = [], mc_queue_waits = [],
     mc_first_token_latencies = []\<rparr>"

definition push_sample_locked :: "int list \<Rightarrow> int \<Rightarrow> int list" where
  "push_sample_locked vals value =
     (if value < 0 then vals else keep_last kMaxSamples (vals @ [value]))"

definition trim_times_locked :: "int \<Rightarrow> int list \<Rightarrow> int list" where
  "trim_times_locked current_ms request_times = dropWhile (\<lambda>t. current_ms - t > 60000) request_times"

definition average_locked :: "int list \<Rightarrow> int" where
  "average_locked vals = (if vals = [] then 0 else sum_list vals sdiv int (length vals))"

definition percentile_locked :: "int list \<Rightarrow> rat \<Rightarrow> int" where
  "percentile_locked vals pct =
     (if vals = [] then 0
      else let sorted = sort vals;
               index = nat (trunc_int (rnd (pct * double_of_int (int (length sorted - 1)))));
               index = (if length sorted \<le> index then length sorted - 1 else index)
           in sorted ! index)"

definition on_request_accepted :: "int \<Rightarrow> MetricsCollector \<Rightarrow> MetricsCollector" where
  "on_request_accepted time_ms m =
     m\<lparr>mc_total_requests := Suc (mc_total_requests m),
       mc_request_times := trim_times_locked time_ms (mc_request_times m @ [time_ms])\<rparr>"

definition on_queue_reject :: "MetricsCollector \<Rightarrow> MetricsCollector" where
  "on_queue_reject m =
     m\<lparr>mc_queue_reject_count := Suc (mc_queue_reject_count m),
       mc_failed_requests := Suc (mc_failed_requests m)\<rparr>"

definition on_request_finish ::
  "bool \<Rightarrow> bool \<Rightarrow> bool \<Rightarrow> int \<Rightarrow> int \<Rightarrow> int \<Rightarrow> MetricsCollector \<Rightarrow> MetricsCollector" where
  "on_request_finish ok timeout degraded total_latency_ms queue_wait_ms first_token_latency_ms m =
     (let m = (if ok then m\<lparr>mc_success_requests := Suc (mc_success_requests m)\<rparr>
               else if timeout then
                 m\<lparr>mc_timeout_requests := Suc (mc_timeout_requests m),
                   mc_failed_requests := Suc (mc_failed_requests m)\<rparr>
               else m\<lparr>mc_failed_requests := Suc (mc_failed_requests m)\<rparr>);
          m = (if degraded then m\<lparr>mc_degraded_requests := Suc (mc_degraded_requests m)\<rparr> else m);
          m = m\<lparr>mc_latencies := push_sample_locked (mc_latencies m) total_latency_ms,
                mc_queue_waits := push_sample_locked (mc_queue_waits m) queue_wait_ms\<rparr>
      in if 0 \<le> first_token_latency_ms
         then m\<lparr>mc_first_token_latencies :=
                  push_sample_locked (mc_first_token_latencies m) first_token_latency_ms\<rparr>
         else m)"

definition p95 :: rat where
  "p95 = rnd (95 / 100)"

definition metrics_snapshot :: "int \<Rightarrow> int \<Rightarrow> int \<Rightarrow> MetricsCollector \<Rightarrow> json" where
  "metrics_snapshot current_ms queue_size max_queue_size m =
     (let recent_count = length (filter (\<lambda>t. current_ms - t \<le> 60000) (mc_request_times m))
      in JObj [
        (''total_requests'', JInt (int (mc_total_requests m))),
        (''success_requests'', JInt (int (mc_success_requests m))),
        (''failed_requests'', JInt (int (mc_failed_requests m))),
        (''timeout_requests'', JInt (int (mc_timeout_requests m))),
        (''degraded_requests'', JInt (int (mc_degraded_requests m))),
        (''queue_reject_count'', JInt (int (mc_queue_reject_count m))),
        (''qps_1m'', JFloat (rnd (double_of_int (int recent_count) / 60))),
        (''queue_size'', JInt queue_size),
        (''max_queue_size'', JInt max_queue_size),
        (''avg_latency_ms'', JInt (average_locked (mc_latencies m))),
        (''p95_latency_ms'', JInt (percentile_locked (mc_latencies m) p95)),
        (''queue_wait_avg_ms'', JInt (average_locked (mc_queue_waits m))),
        (''queue_wait_p95_ms'', JInt (percentile_locked (mc_queue_waits m) p95)),
        (''first_token_avg_ms'', JInt (average_locked (mc_first_token_latencies m))),
        (''first_token_p95_ms'', JInt (percentile_locked (mc_first_token_latencies m) p95))])"

section \<open>The collector as a machine\<close>

datatype metric_call =
    RequestAccepted int
  | QueueReject
  | RequestFinish bool bool bool int int int

fun apply_metric :: "metric_call \<Rightarrow> MetricsCollector \<Rightarrow> MetricsCollector" where
  "apply_metric (RequestAccepted t) m = on_request_accepted t m"
| "apply_metric QueueReject m = on_queue_reject m"
| "apply_metric (RequestFinish ok tmo dg lat qw ft) m = on_request_finish ok tmo dg lat qw ft m"

definition run_metrics :: "metric_call list \<Rightarrow> MetricsCollector \<Rightarrow> MetricsCollector" where
  "run_metrics calls m = fold apply_metric calls m"

fun is_accept :: "metric_call \<Rightarrow> bool" where
  "is_accept (RequestAccepted t) = True"
| "is_accept _ = False"

fun is_finish_ok :: "metric_call \<Rightarrow> bool" where
  "is_finish_ok (RequestFinish ok tmo dg lat qw ft) = ok"
| "is_finish_ok _ = False"

fun is_failure :: "metric_call \<Rightarrow> bool" where
  "is_failure QueueReject = True"
| "is_failure (RequestFinish ok tmo dg lat qw ft) = (\<not> ok)"
| "is_failure _ = False"

definition window_ok :: "int list \<Rightarrow> bool" where
  "window_ok w \<longleftrightarrow> length w \<le> kMaxSamples \<and> (\<forall>v \<in> set w. 0 \<le> v)"

definition metrics_inv :: "MetricsCollector \<Rightarrow> bool" where
  "metrics_inv m \<longleftrightarrow>
     window_ok (mc_latencies m) \<and> window_ok (mc_queue_waits m) \<and>
     window_ok (mc_first_token_latencies m) \<and>
     mc_timeout_requests m + mc_queue_reject_count m \<le> mc_failed_requests m"

section \<open>Facts\<close>

lemma window_ok_push: "window_ok w \<Longrightarrow> window_ok (push_sample_locked w v)"
  using set_keep_last [of kMaxSamples "w @ [v]"]
  by (auto simp: window_ok_def push_sample_locked_def)

lemma metrics_inv_new: "metrics_inv new_metrics"
  by (simp add: metrics_inv_def new_metrics_def window_ok_def)

lemma metrics_inv_apply [wf_intros]: "metrics_inv m \<Longrightarrow> metrics_inv (apply_metric c m)"
  by (cases c) (auto simp: metrics_inv_def on_request_accepted_def on_queue_reject_def
      on_request_finish_def Let_def window_ok_push)

lemma metrics_inv_run: "metrics_inv m \<Longrightarrow> metrics_inv (run_metrics calls m)"
  by (induction calls arbitrary: m) (auto simp: run_metrics_def metrics_inv_apply)

lemma apply_metric_counts:
  "mc_total_requests (apply_metric c m) = mc_total_requests m + (if is_accept c then 1 else 0)"
  "mc_success_requests (apply_metric c m) = mc_success_requests m + (if is_finish_ok c then 1 else 0)"
  "mc_failed_requests (apply_metric c m) = mc_failed_requests m + (if is_failure c then 1 else 0)"
  by (cases c; simp add: on_request_accepted_def on_queue_reject_def on_request_finish_def Let_def)+

lemma run_metrics_counts:
  "mc_total_requests (run_metrics calls m) = mc_total_requests m + length (filter is_accept calls)"
  "mc_success_requests (run_metrics calls m) =
     mc_success_requests m + length (filter is_finish_ok calls)"
  "mc_failed_requests (run_metrics calls m) =
     mc_failed_requests m + length (filter is_failure calls)"
  by (induction calls arbitrary: m) (simp_all add: run_metrics_def apply_metric_counts)

lemma sum_list_bounds:
  assumes "\<And>v. v \<in> set xs \<Longrightarrow> lo \<le> v \<and> v \<le> (hi::int)"
  shows "lo * int (length xs) \<le> sum_list xs \<and> sum_list xs \<le> hi * int (length xs)"
  using assms
proof (induction xs)
  case (Cons x xs)
  have x: "lo \<le> x" "x \<le> hi" using Cons.prems [of x] by simp_all
  have "lo * int (length xs) \<le> sum_list xs \<and> sum_list xs \<le> hi * int (length xs)"
    by (rule Cons.IH) (use Cons.prems in simp)
  with x show ?case by (simp add: algebra_simps add_mono)
qed simp

lemma average_between:
  assumes ne: "vals \<noteq> []" and b: "\<And>v. v \<in> set vals \<Longrightarrow> 0 \<le> lo \<and> lo \<le> v \<and> v \<le> hi"
  shows "lo \<le> average_locked vals \<and> average_locked vals \<le> hi"
proof -
  let ?n = "int (length vals)"
  have n: "0 < ?n" using ne by simp
  have s: "lo * ?n \<le> sum_list vals \<and> sum_list vals \<le> hi * ?n"
    using sum_list_bounds [of vals lo hi] b by blast
  have "0 \<le> lo" using ne b by (metis last_in_set)
  then have "0 \<le> sum_list vals"
    using s n by (meson mult_nonneg_nonneg order_less_imp_le order_trans)
  then have "average_locked vals = sum_list vals div ?n"
    using ne n by (simp add: average_locked_def sdiv_pos_div)
  moreover have "lo \<le> sum_list vals div ?n"
    using s n by (metis zdiv_mono1 nonzero_mult_div_cancel_right less_irrefl)
  moreover have "sum_list vals div ?n \<le> hi"
    using s n by (metis zdiv_mono1 nonzero_mult_div_cancel_right less_irrefl)
  ultimately show ?thesis by simp
qed

lemma sorted_nth_rank:
  assumes "sorted xs" and "i < length xs"
  shows "i < length (filter (\<lambda>v. v \<le> xs ! i) xs)"
proof -
  have "filter (\<lambda>v. v \<le> xs ! i) (take (Suc i) xs) = take (Suc i) xs"
    using assms by (auto simp: filter_id_conv in_set_conv_nth sorted_nth_mono)
  then have "length (filter (\<lambda>v. v \<le> xs ! i) (take (Suc i) xs)) = Suc i"
    using assms(2) by simp
  moreover have "length (filter (\<lambda>v. v \<le> xs ! i) xs) =
      length (filter (\<lambda>v. v \<le> xs ! i) (take (Suc i) xs)) +
      length (filter (\<lambda>v. v \<le> xs ! i) (drop (Suc i) xs))"
    by (metis append_take_drop_id filter_append length_append)
  ultimately show ?thesis by simp
qed

lemma percentile_is_ranked_sample:
  assumes "vals \<noteq> []"
  obtains i where "i < length vals" "percentile_locked vals pct = sort vals ! i"
    "i = min (nat (trunc_int (rnd (pct * double_of_int (int (length vals - 1))))))
           (length vals - 1)"
proof -
  define k where "k = nat (trunc_int (rnd (pct * double_of_int (int (length vals - 1)))))"
  have "percentile_locked vals pct = sort vals ! (if length vals \<le> k then length vals - 1 else k)"
    using assms unfolding percentile_locked_def k_def Let_def by (simp only: length_sort if_False)
  also have "(if length vals \<le> k then length vals - 1 else k) = min k (length vals - 1)"
    using assms by (auto simp: min_def Suc_le_eq)
  finally have "percentile_locked vals pct = sort vals ! min k (length vals - 1)" .
  moreover have "min k (length vals - 1) < length vals"
    using assms by (simp add: min_less_iff_disj)
  ultimately show ?thesis using that unfolding k_def by blast
qed

lemma percentile_in_window:
  assumes "vals \<noteq> []"
  shows "percentile_locked vals pct \<in> set vals"
proof -
  obtain i where "i < length vals" "percentile_locked vals pct = sort vals ! i"
    using percentile_is_ranked_sample [OF assms] by metis
  then show ?thesis by (metis length_sort nth_mem set_sort)
qed

lemma percentile_rank:
  assumes "vals \<noteq> []"
  shows "min (nat (trunc_int (rnd (pct * double_of_int (int (length vals - 1))))))
           (length vals - 1)
         < length (filter (\<lambda>v. v \<le> percentile_locked vals pct) vals)"
proof -
  obtain i where i: "i < length vals" "percentile_locked vals pct = sort vals ! i"
    "i = min (nat (trunc_int (rnd (pct * double_of_int (int (length vals - 1))))))
           (length vals - 1)"
    using percentile_is_ranked_sample [OF assms] by metis
  have "i < length (filter (\<lambda>v. v \<le> sort vals ! i) (sort vals))"
    using i(1) by (simp add: sorted_nth_rank)
  moreover have "length (filter (\<lambda>v. v \<le> sort vals ! i) (sort vals))
      = length (filter (\<lambda>v. v \<le> sort vals ! i) vals)"
    by (metis mset_filter mset_sort size_mset)
  ultimately have "i < length (filter (\<lambda>v. v \<le> percentile_locked vals pct) vals)"
    unfolding i(2) by simp
  then show ?thesis by (simp only: i(3) [symmetric])
qed

section \<open>Properties\<close>


text \<open>
  For a non-empty window of samples, \<^verbatim>\<open>percentile_locked\<close> returns one of the samples, and more
  samples than the truncated product \<^verbatim>\<open>pct * (size - 1)\<close> (clamped to the last index) are at most
  as large as it; the value it returns lies between the same bounds as the samples, and so does
  \<^verbatim>\<open>average_locked\<close> when the samples are non-negative.
\<close>
theorem percentile_and_average:
  assumes "vals \<noteq> []" and "\<forall>v \<in> set vals. 0 \<le> lo \<and> lo \<le> v \<and> v \<le> hi"
  shows "percentile_locked vals pct \<in> set vals \<and>
    min (nat (trunc_int (rnd (pct * double_of_int (int (length vals - 1)))))) (length vals - 1)
      < length (filter (\<lambda>v. v \<le> percentile_locked vals pct) vals) \<and>
    lo \<le> percentile_locked vals pct \<and> percentile_locked vals pct \<le> hi \<and>
    lo \<le> average_locked vals \<and> average_locked vals \<le> hi"
proof -
  have "percentile_locked vals pct \<in> set vals" by (rule percentile_in_window [OF assms(1)])
  moreover have "lo \<le> average_locked vals \<and> average_locked vals \<le> hi"
    by (rule average_between [OF assms(1)]) (use assms(2) in blast)
  ultimately show ?thesis using percentile_rank [OF assms(1)] assms(2) by blast
qed

theorem percentile_and_average_witness:
  "percentile_locked [7, 3, 9, 5] p95 \<in> set [7, 3, 9, 5] \<and>
   3 \<le> average_locked [7, 3, 9, 5] \<and> average_locked [7, 3, 9, 5] \<le> 9"
  using percentile_and_average [of "[7, 3, 9, 5]" 3 9 p95] by simp

end
