(* ===== verification/Observability.thy ===== *)
theory Observability
  imports Vllm_Types "HOL-Library.Char_ord" "HOL-Library.List_Lexorder"
begin

text \<open>
  \<^verbatim>\<open>edge_observability::ObservabilityMetrics\<close> (\<^verbatim>\<open>observability_metrics.h\<close> and \<^verbatim>\<open>.cpp\<close>): buffered metric
  series, their aggregation, the periodic flush to a time-series store and the query interface.

  The store \<^verbatim>\<open>minitsdb::TsdbEngine\<close> is a third-party component. Its behaviour is the parameter
  \<open>tsdb\<close>: what opening returns, and what a write or a query returns as a function of the batches
  submitted before. An open engine is the history of those batches. \<^verbatim>\<open>std::unordered_map\<close> is an
  association list with one entry per key.
\<close>

section \<open>Configuration\<close>

record ObservabilityConfig =
  oc_enabled :: bool
  oc_db_dir :: string
  oc_flush_interval_ms :: int
  oc_sync_wal :: bool
  oc_memtable_limit_bytes :: int
  oc_block_cache_bytes :: nat
  oc_max_samples_per_series :: nat

definition new_obs_config :: ObservabilityConfig where
  "new_obs_config = \<lparr>oc_enabled = False, oc_db_dir = ''runtime/observability-tsdb'',
     oc_flush_interval_ms = 1000, oc_sync_wal = False,
     oc_memtable_limit_bytes = 4 * 1024 * 1024, oc_block_cache_bytes = 512 * 1024,
     oc_max_samples_per_series = 4096\<rparr>"

definition observability_config_from_json :: "json \<Rightarrow> ObservabilityConfig" where
  "observability_config_from_json config_body =
     (let config = new_obs_config;
          raw = jget config_body ''observability'';
          config =
            (case raw of
               Some (JBool b) \<Rightarrow> config\<lparr>oc_enabled := b\<rparr>
             | Some (JInt i) \<Rightarrow> config\<lparr>oc_enabled := to_int32 i \<noteq> 0\<rparr>
             | Some (JStr s) \<Rightarrow> config\<lparr>oc_enabled := parse_bool_string s (oc_enabled config)\<rparr>
             | Some (JObj kvs) \<Rightarrow>
                 (let source = JObj kvs in
                  \<lparr>oc_enabled = json_bool_value source ''enabled'' (oc_enabled config),
                   oc_db_dir = json_string_value source ''db_dir'' (oc_db_dir config),
                   oc_flush_interval_ms =
                     max 100 (json_int_value source ''flush_interval_ms''
                       (oc_flush_interval_ms config)),
                   oc_sync_wal = json_bool_value source ''sync_wal'' (oc_sync_wal config),
                   oc_memtable_limit_bytes =
                     max (1024 * 1024) (json_int_value source ''memtable_limit_bytes''
                       (to_int32 (oc_memtable_limit_bytes config))),
                   oc_block_cache_bytes =
                     nat (max 1024 (json_int_value source ''block_cache_bytes''
                       (to_int32 (int (oc_block_cache_bytes config))))),
                   oc_max_samples_per_series =
                     nat (max 1 (json_int_value source ''max_samples_per_series''
                       (to_int32 (int (oc_max_samples_per_series config)))))\<rparr>)
             | _ \<Rightarrow> config)
      in config\<lparr>oc_enabled :=
           json_bool_value config_body ''observability_enabled'' (oc_enabled config)\<rparr>)"

section \<open>Series\<close>

datatype SeriesMode = SM_Sum | SM_Avg | SM_Max | SM_Last | SM_P95

record SeriesState =
  ss_mode :: SeriesMode
  ss_sum :: rat
  ss_count :: nat
  ss_max :: rat
  ss_last :: rat
  ss_samples :: "rat list"

definition new_series :: SeriesState where
  "new_series = \<lparr>ss_mode = SM_Last, ss_sum = 0, ss_count = 0, ss_max = 0, ss_last = 0,
     ss_samples = []\<rparr>"

definition series_reset :: "SeriesMode \<Rightarrow> SeriesState \<Rightarrow> SeriesState" where
  "series_reset mode s =
     (let s = (if ss_count s = 0 \<and> ss_samples s = [] then s\<lparr>ss_mode := mode\<rparr> else s)
      in if ss_mode s \<noteq> mode then new_series\<lparr>ss_mode := mode\<rparr> else s)"

definition series_add_sum :: "rat \<Rightarrow> SeriesState \<Rightarrow> SeriesState" where
  "series_add_sum v s =
     (let s = series_reset SM_Sum s
      in s\<lparr>ss_sum := rnd (ss_sum s + v), ss_count := Suc (ss_count s)\<rparr>)"

definition series_add_avg :: "rat \<Rightarrow> SeriesState \<Rightarrow> SeriesState" where
  "series_add_avg v s =
     (let s = series_reset SM_Avg s
      in s\<lparr>ss_sum := rnd (ss_sum s + v), ss_count := Suc (ss_count s)\<rparr>)"

definition series_add_max :: "rat \<Rightarrow> SeriesState \<Rightarrow> SeriesState" where
  "series_add_max v s =
     (let s = (if ss_count s = 0 \<and> ss_samples s = []
               then s\<lparr>ss_mode := SM_Max, ss_max := v\<rparr> else s);
          s = (if ss_mode s \<noteq> SM_Max then new_series\<lparr>ss_mode := SM_Max, ss_max := v\<rparr> else s);
          s = (if ss_count s = 0 \<or> ss_max s < v then s\<lparr>ss_max := v\<rparr> else s)
      in s\<lparr>ss_count := Suc (ss_count s)\<rparr>)"

definition series_add_last :: "rat \<Rightarrow> SeriesState \<Rightarrow> SeriesState" where
  "series_add_last v s =
     (let s = series_reset SM_Last s
      in s\<lparr>ss_last := v, ss_count := Suc (ss_count s)\<rparr>)"

definition series_add_p95 :: "nat \<Rightarrow> rat \<Rightarrow> SeriesState \<Rightarrow> SeriesState" where
  "series_add_p95 sample_limit v s =
     (let s = series_reset SM_P95 s;
          s = (if length (ss_samples s) < sample_limit
               then s\<lparr>ss_samples := ss_samples s @ [v]\<rparr> else s)
      in s\<lparr>ss_count := Suc (ss_count s)\<rparr>)"

definition series_flush_value :: "SeriesState \<Rightarrow> rat option" where
  "series_flush_value s =
     (if ss_count s = 0 \<and> ss_samples s = [] then None
      else case ss_mode s of
        SM_Sum \<Rightarrow> Some (ss_sum s)
      | SM_Avg \<Rightarrow> (if ss_count s = 0 then None
                  else Some (rnd (ss_sum s / double_of_int (int (ss_count s)))))
      | SM_Max \<Rightarrow> Some (ss_max s)
      | SM_Last \<Rightarrow> Some (ss_last s)
      | SM_P95 \<Rightarrow>
          (if ss_samples s = [] then None
           else let srt = sort (ss_samples s);
                    index = nat (trunc_int (rnd (rnd (95 / 100) *
                              double_of_int (int (length srt - 1)))));
                    index = (if length srt \<le> index then length srt - 1 else index)
                in Some (srt ! index)))"

section \<open>Text of names and values\<close>

definition segment_char :: "char \<Rightarrow> bool" where
  "segment_char ch \<longleftrightarrow>
     (CHR ''a'' \<le> ch \<and> ch \<le> CHR ''z'') \<or> (CHR ''A'' \<le> ch \<and> ch \<le> CHR ''Z'') \<or>
     (CHR ''0'' \<le> ch \<and> ch \<le> CHR ''9'') \<or> ch = CHR ''_'' \<or> ch = CHR ''-''"

definition sanitize_segment :: "string \<Rightarrow> string" where
  "sanitize_segment value =
     (let out = map (\<lambda>ch. if segment_char ch then ch else CHR ''_'') value
      in if out = [] then ''unknown'' else out)"

definition round_away :: "rat \<Rightarrow> int" where
  "round_away x = (if 0 \<le> x then \<lfloor>x + 1 / 2\<rfloor> else - \<lfloor>- x + 1 / 2\<rfloor>)"

definition pad3 :: "nat \<Rightarrow> string" where
  "pad3 n = [digit_char (n div 100 mod 10), digit_char (n div 10 mod 10), digit_char (n mod 10)]"

definition format_value :: "rat \<Rightarrow> string" where
  "format_value value =
     (let rounded = round_away value
      in if \<bar>rnd (value - of_int rounded)\<bar> < rnd (1 / 1000000) then to_string rounded
         else let m = nat (round_half_even (\<bar>value\<bar> * 1000))
              in (if value < 0 then ''-'' else []) @ string_of_nat (m div 1000) @ ''.'' @
                 pad3 (m mod 1000))"

section \<open>The store and the component's state\<close>

type_synonym write_batch = "(string \<times> int \<times> string) list"

datatype open_outcome = OpenOk | OpenThrows string | OpenThrowsUnknown

datatype Agg = kAvg | kMax | kMin | kLast

record TsdbRecord =
  tr_measurement :: string
  tr_timestamp :: int
  tr_value :: string

type_synonym query_outcome = "string option + TsdbRecord list"

record tsdb =
  tsdb_open :: "ObservabilityConfig \<Rightarrow> open_outcome"
  tsdb_write :: "write_batch list \<Rightarrow> write_batch \<Rightarrow> bool \<times> string"
  tsdb_range_query :: "write_batch list \<Rightarrow> string \<Rightarrow> int \<Rightarrow> int \<Rightarrow> query_outcome"
  tsdb_downsample :: "write_batch list \<Rightarrow> string \<Rightarrow> int \<Rightarrow> int \<Rightarrow> int \<Rightarrow> Agg \<Rightarrow> query_outcome"

record ObservabilityMetrics =
  om_enabled :: bool
  om_running :: bool
  om_max_samples_per_series :: nat
  om_config :: ObservabilityConfig
  om_last_flush_ms :: int
  om_last_flush_points :: nat
  om_total_flush_points :: nat
  om_flush_failures :: nat
  om_last_status :: string
  om_last_error :: string
  om_series :: "(string \<times> SeriesState) list"
  om_engine :: "write_batch list option"
  om_worker :: bool

definition new_observability :: ObservabilityMetrics where
  "new_observability = \<lparr>om_enabled = False, om_running = False, om_max_samples_per_series = 4096,
     om_config = new_obs_config, om_last_flush_ms = 0, om_last_flush_points = 0,
     om_total_flush_points = 0, om_flush_failures = 0, om_last_status = ''disabled'',
     om_last_error = [], om_series = [], om_engine = None, om_worker = False\<rparr>"

definition with_series ::
  "(SeriesState \<Rightarrow> SeriesState) \<Rightarrow> string \<Rightarrow> ObservabilityMetrics \<Rightarrow> ObservabilityMetrics" where
  "with_series f measurement o' =
     (let s = (case map_of (om_series o') measurement of None \<Rightarrow> new_series | Some s \<Rightarrow> s)
      in o'\<lparr>om_series := alist_put measurement (f s) (om_series o')\<rparr>)"

definition add_sum_locked :: "string \<Rightarrow> rat \<Rightarrow> ObservabilityMetrics \<Rightarrow> ObservabilityMetrics" where
  "add_sum_locked measurement v o' = with_series (series_add_sum v) measurement o'"

definition add_avg_locked :: "string \<Rightarrow> rat \<Rightarrow> ObservabilityMetrics \<Rightarrow> ObservabilityMetrics" where
  "add_avg_locked measurement v o' = with_series (series_add_avg v) measurement o'"

definition add_max_locked :: "string \<Rightarrow> rat \<Rightarrow> ObservabilityMetrics \<Rightarrow> ObservabilityMetrics" where
  "add_max_locked measurement v o' = with_series (series_add_max v) measurement o'"

definition add_last_locked :: "string \<Rightarrow> rat \<Rightarrow> ObservabilityMetrics \<Rightarrow> ObservabilityMetrics" where
  "add_last_locked measurement v o' = with_series (series_add_last v) measurement o'"

definition add_p95_locked :: "string \<Rightarrow> rat \<Rightarrow> ObservabilityMetrics \<Rightarrow> ObservabilityMetrics" where
  "add_p95_locked measurement v o' =
     with_series (series_add_p95 (om_max_samples_per_series o') v) measurement o'"

definition flush_batch :: "int \<Rightarrow> (string \<times> SeriesState) list \<Rightarrow> write_batch" where
  "flush_batch timestamp_ms snapshot =
     List.map_filter (\<lambda>(k, s). map_option (\<lambda>v. (k, timestamp_ms, format_value v))
       (series_flush_value s)) snapshot"

definition flush_once :: "tsdb \<Rightarrow> int \<Rightarrow> ObservabilityMetrics \<Rightarrow> ObservabilityMetrics" where
  "flush_once db timestamp_ms o' =
     (if om_series o' = [] then o'
      else let batch = flush_batch timestamp_ms (om_series o'); o' = o'\<lparr>om_series := []\<rparr>
        in if batch = [] then o'
        else let (ok, status, engine) =
               (case om_engine o' of
                  None \<Rightarrow> (False, ''observability store is not open'', None)
                | Some written \<Rightarrow>
                    (let (w_ok, w_status) = tsdb_write db written batch
                     in (w_ok, w_status, Some (written @ [batch]))));
             o' = o'\<lparr>om_engine := engine, om_last_flush_ms := timestamp_ms,
                     om_last_flush_points := length batch\<rparr>
          in if ok then o'\<lparr>om_total_flush_points := om_total_flush_points o' + length batch,
                          om_last_status := ''running'', om_last_error := []\<rparr>
             else o'\<lparr>om_flush_failures := Suc (om_flush_failures o'),
                     om_last_status := ''error'', om_last_error := status\<rparr>)"

definition obs_stop :: "tsdb \<Rightarrow> int \<Rightarrow> ObservabilityMetrics \<Rightarrow> ObservabilityMetrics" where
  "obs_stop db timestamp_ms o' =
     (let o' = o'\<lparr>om_enabled := False, om_running := False\<rparr>;
          \<comment> \<open>the joined worker leaves its loop through a last flush\<close>
          o' = (if om_worker o' then flush_once db timestamp_ms o' else o');
          o' = flush_once db timestamp_ms (o'\<lparr>om_worker := False\<rparr>)
      in o'\<lparr>om_engine := None,
            om_last_status := (if oc_enabled (om_config o') then ''stopped'' else ''disabled'')\<rparr>)"

definition normalize_config :: "ObservabilityConfig \<Rightarrow> ObservabilityConfig" where
  "normalize_config config =
     config\<lparr>oc_flush_interval_ms :=
              (if oc_flush_interval_ms config < 100 then 100 else oc_flush_interval_ms config),
            oc_memtable_limit_bytes :=
              (if oc_memtable_limit_bytes config \<le> 0 then 4 * 1024 * 1024
               else oc_memtable_limit_bytes config),
            oc_block_cache_bytes :=
              (if oc_block_cache_bytes config = 0 then 512 * 1024 else oc_block_cache_bytes config),
            oc_max_samples_per_series :=
              (if oc_max_samples_per_series config = 0 then 4096
               else oc_max_samples_per_series config)\<rparr>"

definition configure ::
  "tsdb \<Rightarrow> int \<Rightarrow> ObservabilityConfig \<Rightarrow> ObservabilityMetrics
     \<Rightarrow> (string + unit) \<times> ObservabilityMetrics" where
  "configure db timestamp_ms config o' =
     (let o' = obs_stop db timestamp_ms o';
          normalized = normalize_config config;
          o' = o'\<lparr>om_max_samples_per_series := oc_max_samples_per_series normalized,
                  om_config := normalized, om_last_flush_ms := 0, om_last_flush_points := 0,
                  om_total_flush_points := 0, om_flush_failures := 0, om_last_error := [],
                  om_last_status := (if oc_enabled normalized then ''starting'' else ''disabled'')\<rparr>
      in if \<not> oc_enabled normalized then (Inr (), o')
         else if oc_db_dir normalized = []
         then (Inl ''observability db_dir is empty'',
               o'\<lparr>om_last_status := ''error'', om_last_error := ''observability db_dir is empty''\<rparr>)
         else case tsdb_open db normalized of
           OpenOk \<Rightarrow>
             (Inr (), o'\<lparr>om_engine := Some [], om_enabled := True, om_running := True,
                        om_worker := True, om_last_status := ''running''\<rparr>)
         | OpenThrows e \<Rightarrow>
             (Inl e, o'\<lparr>om_enabled := False, om_running := False, om_last_status := ''error'',
                       om_last_error := e\<rparr>)
         | OpenThrowsUnknown \<Rightarrow>
             (Inl ''unknown observability initialization error'',
              o'\<lparr>om_enabled := False, om_running := False, om_last_status := ''error'',
                 om_last_error := ''unknown observability initialization error''\<rparr>))"

section \<open>Observations\<close>

definition observe_request_finish ::
  "RequestMetricsEvent \<Rightarrow> ObservabilityMetrics \<Rightarrow> ObservabilityMetrics" where
  "observe_request_finish event o' =
     (if \<not> om_enabled o' then o'
      else let action = sanitize_segment (re_action event);
               endpoint = sanitize_segment (re_endpoint event);
               o' = add_sum_locked (''llm.request.count.action.'' @ action) 1 o';
               o' = (if re_ok event
                     then add_sum_locked (''llm.request.success.count.action.'' @ action) 1 o'
                     else let o' = add_sum_locked (''llm.request.error.count.action.'' @ action @
                                ''.code.'' @ sanitize_segment (to_string (re_error_code event))) 1 o'
                          in if re_timeout event
                             then add_sum_locked (''llm.request.timeout.count.action.'' @ action) 1 o'
                             else o');
               o' = (if re_degraded event
                     then add_sum_locked (''llm.request.degraded.count.action.'' @ action) 1 o'
                     else o');
               o' = (if 0 \<le> re_total_latency_ms event
                     then let v = double_of_int (re_total_latency_ms event)
                          in add_p95_locked (''llm.request.latency.p95_ms.action.'' @ action) v
                               (add_avg_locked (''llm.request.latency.avg_ms.action.'' @ action) v o')
                     else o');
               o' = (if 0 \<le> re_queue_wait_ms event
                     then let v = double_of_int (re_queue_wait_ms event)
                          in add_p95_locked (''llm.request.queue_wait.p95_ms.action.'' @ action) v
                               (add_avg_locked (''llm.request.queue_wait.avg_ms.action.'' @ action) v o')
                     else o');
               o' = (if 0 \<le> re_first_token_latency_ms event
                     then let v = double_of_int (re_first_token_latency_ms event)
                          in add_p95_locked (''llm.request.ttft.p95_ms.action.'' @ action) v
                               (add_avg_locked (''llm.request.ttft.avg_ms.action.'' @ action) v o')
                     else o')
           in if endpoint \<noteq> ''unknown''
              then add_sum_locked (''llm.endpoint.request.'' @
                     (if re_ok event then ''success.count.'' else ''error.count.'') @ endpoint) 1
                     (add_sum_locked (''llm.endpoint.request.count.'' @ endpoint) 1 o')
              else o')"

definition observe_queue_reject ::
  "string \<Rightarrow> ObservabilityMetrics \<Rightarrow> ObservabilityMetrics" where
  "observe_queue_reject action o' =
     (if \<not> om_enabled o' then o'
      else add_sum_locked (''llm.queue.reject.count.action.'' @ sanitize_segment action) 1 o')"

definition observe_queue_snapshot ::
  "QueueMetricsEvent \<Rightarrow> ObservabilityMetrics \<Rightarrow> ObservabilityMetrics" where
  "observe_queue_snapshot event o' =
     (if \<not> om_enabled o' then o'
      else fold (\<lambda>(k, v) o'. add_last_locked k (double_of_int v) o')
        [(''llm.queue.pending'', qe_pending event), (''llm.queue.high'', qe_high event),
         (''llm.queue.normal'', qe_normal event), (''llm.queue.background'', qe_background event),
         (''llm.queue.max_size'', qe_max_queue_size event)] o')"

definition observe_endpoint ::
  "EndpointMetricsEvent \<Rightarrow> ObservabilityMetrics \<Rightarrow> ObservabilityMetrics" where
  "observe_endpoint event o' =
     (if \<not> om_enabled o' then o'
      else let endpoint = sanitize_segment (ee_endpoint event)
        in fold (\<lambda>(k, v) o'. add_last_locked (k @ endpoint) v o')
        [(''llm.endpoint.inflight.'', double_of_int (ee_inflight event)),
         (''llm.endpoint.available_capacity.'', double_of_int (ee_available_capacity event)),
         (''llm.endpoint.avg_latency_ms.'', ee_avg_latency_ms event),
         (''llm.endpoint.healthy.'', if ee_healthy event then 1 else 0),
         (''llm.endpoint.circuit_state.'', double_of_int (ee_circuit_state event)),
         (''llm.endpoint.success.total.'', double_of_int (int (ee_success_count event))),
         (''llm.endpoint.failure.total.'', double_of_int (int (ee_failure_count event))),
         (''llm.endpoint.timeout.total.'', double_of_int (int (ee_timeout_count event))),
         (''llm.endpoint.circuit_open.total.'', double_of_int (int (ee_circuit_open_count event)))] o')"

section \<open>Queries\<close>

definition obs_snapshot :: "ObservabilityMetrics \<Rightarrow> json" where
  "obs_snapshot o' =
     JObj ([(''enabled'', JBool (om_enabled o')),
            (''configured'', JBool (oc_enabled (om_config o'))),
            (''db_dir'', JStr (oc_db_dir (om_config o'))),
            (''flush_interval_ms'', JInt (oc_flush_interval_ms (om_config o'))),
            (''sync_wal'', JBool (oc_sync_wal (om_config o'))),
            (''memtable_limit_bytes'', JInt (oc_memtable_limit_bytes (om_config o'))),
            (''block_cache_bytes'', JInt (int (oc_block_cache_bytes (om_config o')))),
            (''buffered_series'', JInt (int (length (om_series o')))),
            (''last_flush_ms'', JInt (om_last_flush_ms o')),
            (''last_flush_points'', JInt (int (om_last_flush_points o'))),
            (''total_flush_points'', JInt (int (om_total_flush_points o'))),
            (''flush_failures'', JInt (int (om_flush_failures o'))),
            (''status'', JStr (om_last_status o'))] @
           (if om_last_error o' \<noteq> [] then [(''last_error'', JStr (om_last_error o'))] else []))"

definition parse_agg :: "string \<Rightarrow> Agg" where
  "parse_agg agg =
     (if agg = ''avg'' then kAvg else if agg = ''max'' then kMax else if agg = ''min'' then kMin
      else kLast)"

definition measurements_from_query :: "json \<Rightarrow> string list" where
  "measurements_from_query query_body =
     (if \<not> is_object query_body then []
      else let one = (case jget query_body ''measurement'' of Some (JStr s) \<Rightarrow> [s] | _ \<Rightarrow> []);
               many = (case jget query_body ''measurements'' of
                         Some (JArr xs) \<Rightarrow> json_strings xs | _ \<Rightarrow> [])
           in remdups_adj (sort (filter (\<lambda>v. v \<noteq> []) (one @ many))))"

definition point_json :: "TsdbRecord \<Rightarrow> json" where
  "point_json r = JObj [(''measurement'', JStr (tr_measurement r)),
     (''timestamp_ms'', JInt (tr_timestamp r)), (''value'', JStr (tr_value r))]"

fun query_points ::
  "(string \<Rightarrow> query_outcome) \<Rightarrow> string list \<Rightarrow> json list \<Rightarrow> json list \<times> string option" where
  "query_points ask [] acc = (acc, None)"
| "query_points ask (m # ms) acc =
     (case ask m of
        Inr rs \<Rightarrow> query_points ask ms (acc @ map point_json rs)
      | Inl (Some e) \<Rightarrow> (acc, Some e)
      | Inl None \<Rightarrow> (acc, Some ''unknown observability query error''))"

definition jput :: "string \<Rightarrow> json \<Rightarrow> json \<Rightarrow> json" where
  "jput k v j = (case jset j k v of Inr j' \<Rightarrow> j' | Inl _ \<Rightarrow> j)"

definition obs_query :: "tsdb \<Rightarrow> int \<Rightarrow> json \<Rightarrow> ObservabilityMetrics \<Rightarrow> json" where
  "obs_query db wall_now_ms query_body o' =
     (let out = jput ''points'' (JArr []) (obs_snapshot o');
          measurements = measurements_from_query query_body
      in if measurements = [] then jput ''error'' (JStr ''measurement is required'') out
         else let end_ms = json_int64_value query_body ''end_ms''
                    (json_int64_value query_body ''end'' wall_now_ms);
                  lookback_ms = json_int64_value query_body ''lookback_ms'' (10 * 60 * 1000);
                  start_ms = json_int64_value query_body ''start_ms''
                    (json_int64_value query_body ''start'' (end_ms - lookback_ms));
                  downsample_ms = json_int64_value query_body ''downsample_ms'' 0;
                  agg = json_string_value query_body ''agg'' ''last'';
                  out = jput ''start_ms'' (JInt start_ms) out;
                  out = jput ''end_ms'' (JInt end_ms) out;
                  out = jput ''downsample_ms'' (JInt downsample_ms) out;
                  out = jput ''agg'' (JStr agg) out;
                  out = jput ''measurements'' (JArr (map JStr measurements)) out
              in if end_ms < start_ms
                 then jput ''error'' (JStr ''end_ms must be greater than or equal to start_ms'') out
                 else case om_engine o' of
                   None \<Rightarrow> jput ''error'' (JStr ''observability store is not open'') out
                 | Some written \<Rightarrow>
                     (let ask = (\<lambda>m. if 0 < downsample_ms
                           then tsdb_downsample db written m start_ms end_ms downsample_ms (parse_agg agg)
                           else tsdb_range_query db written m start_ms end_ms);
                          (points, err) = query_points ask measurements [];
                          out = jput ''points'' (JArr points) out
                      in case err of None \<Rightarrow> out | Some e \<Rightarrow> jput ''error'' (JStr e) out))"

section \<open>Call sequences\<close>

datatype obs_call =
    OC_Request RequestMetricsEvent
  | OC_Reject string
  | OC_Queue QueueMetricsEvent
  | OC_Endpoint EndpointMetricsEvent
  | OC_Flush int
  | OC_Stop int
  | OC_Configure int ObservabilityConfig

fun apply_obs :: "tsdb \<Rightarrow> obs_call \<Rightarrow> ObservabilityMetrics \<Rightarrow> ObservabilityMetrics" where
  "apply_obs db (OC_Request e) o' = observe_request_finish e o'"
| "apply_obs db (OC_Reject a) o' = observe_queue_reject a o'"
| "apply_obs db (OC_Queue e) o' = observe_queue_snapshot e o'"
| "apply_obs db (OC_Endpoint e) o' = observe_endpoint e o'"
| "apply_obs db (OC_Flush t) o' = flush_once db t o'"
| "apply_obs db (OC_Stop t) o' = obs_stop db t o'"
| "apply_obs db (OC_Configure t c) o' = snd (configure db t c o')"

definition run_obs :: "tsdb \<Rightarrow> obs_call list \<Rightarrow> ObservabilityMetrics \<Rightarrow> ObservabilityMetrics" where
  "run_obs db calls o' = fold (apply_obs db) calls o'"

definition series_ok :: "nat \<Rightarrow> SeriesState \<Rightarrow> bool" where
  "series_ok limit s \<longleftrightarrow> 0 < ss_count s \<and> length (ss_samples s) \<le> limit \<and>
     (ss_mode s = SM_P95 \<longrightarrow> ss_samples s \<noteq> [])"

definition obs_inv :: "ObservabilityMetrics \<Rightarrow> bool" where
  "obs_inv o' \<longleftrightarrow> distinct (map fst (om_series o')) \<and>
     (\<forall>p \<in> set (om_series o'). series_ok (om_max_samples_per_series o') (snd p)) \<and>
     0 < om_max_samples_per_series o' \<and>
     (om_enabled o' \<longrightarrow> om_engine o' \<noteq> None) \<and> (om_series o' \<noteq> [] \<longrightarrow> om_enabled o')"

definition recording :: "ObservabilityMetrics \<Rightarrow> bool" where
  "recording o' \<longleftrightarrow> obs_inv o' \<and> om_enabled o'"

definition sample_tsdb :: tsdb where
  "sample_tsdb = \<lparr>tsdb_open = (\<lambda>_. OpenOk), tsdb_write = (\<lambda>_ _. (True, ''OK'')),
     tsdb_range_query = (\<lambda>_ _ _ _. Inr []), tsdb_downsample = (\<lambda>_ _ _ _ _ _. Inr [])\<rparr>"

definition sample_obs :: ObservabilityMetrics where
  "sample_obs = run_obs sample_tsdb
     [OC_Configure 5 (new_obs_config\<lparr>oc_enabled := True\<rparr>), OC_Reject ''chat''] new_observability"

section \<open>Aggregation of one series\<close>

lemma series_reset_new: "series_reset m new_series = new_series\<lparr>ss_mode := m\<rparr>"
  by (simp add: series_reset_def new_series_def)

lemma series_reset_same: "0 < ss_count s \<Longrightarrow> ss_mode s = m \<Longrightarrow> series_reset m s = s"
  by (simp add: series_reset_def)

lemma series_ok_reset:
  assumes "s = new_series \<or> series_ok limit s"
  shows "length (ss_samples (series_reset m s)) \<le> limit"
    and "ss_mode (series_reset m s) = m"
  using assms by (auto simp: series_reset_def new_series_def series_ok_def Let_def)

lemma series_ok_add:
  assumes "s = new_series \<or> series_ok limit s"
  shows "series_ok limit (series_add_sum v s)"
    and "series_ok limit (series_add_avg v s)"
    and "series_ok limit (series_add_max v s)"
    and "series_ok limit (series_add_last v s)"
    and "0 < limit \<Longrightarrow> series_ok limit (series_add_p95 limit v s)"
  subgoal using series_ok_reset [OF assms, of SM_Sum]
    by (simp add: series_add_sum_def series_ok_def Let_def)
  subgoal using series_ok_reset [OF assms, of SM_Avg]
    by (simp add: series_add_avg_def series_ok_def Let_def)
  subgoal using assms by (auto simp: series_add_max_def series_ok_def new_series_def Let_def)
  subgoal using series_ok_reset [OF assms, of SM_Last]
    by (simp add: series_add_last_def series_ok_def Let_def)
  subgoal using series_ok_reset [OF assms, of SM_P95]
    by (auto simp: series_add_p95_def series_ok_def Let_def)
  done

lemma series_ok_flushes: "series_ok limit s \<Longrightarrow> series_flush_value s \<noteq> None"
  by (auto simp: series_ok_def series_flush_value_def Let_def split: SeriesMode.splits)

lemma fold_add_max:
  assumes "0 < ss_count s" and "ss_mode s = SM_Max"
  shows "ss_mode (fold series_add_max vs s) = SM_Max \<and> 0 < ss_count (fold series_add_max vs s) \<and>
     ss_max (fold series_add_max vs s) = Max (set (ss_max s # vs))"
  using assms
proof (induction vs arbitrary: s)
  case (Cons v vs)
  have "series_add_max v s = s\<lparr>ss_max := max (ss_max s) v, ss_count := Suc (ss_count s)\<rparr>"
    using Cons.prems by (simp add: series_add_max_def Let_def max_def)
  then show ?case
    using Cons.IH [of "series_add_max v s"] Cons.prems
    by (cases "vs = []") (simp_all add: max.assoc)
qed simp

lemma flush_max_series:
  assumes "vs \<noteq> []"
  shows "series_flush_value (fold series_add_max vs new_series) = Some (Max (set vs))"
proof -
  obtain v ws where vs: "vs = v # ws" using assms by (cases vs) auto
  define s where "s = series_add_max v new_series"
  have s: "0 < ss_count s" "ss_mode s = SM_Max" "ss_max s = v"
    by (simp_all add: s_def series_add_max_def new_series_def)
  show ?thesis using fold_add_max [OF s(1,2), of ws] s(3)
    by (simp add: vs s_def series_flush_value_def)
qed

lemma fold_add_last:
  "0 < ss_count s \<Longrightarrow> ss_mode s = SM_Last \<Longrightarrow>
   ss_mode (fold series_add_last vs s) = SM_Last \<and> 0 < ss_count (fold series_add_last vs s) \<and>
   ss_last (fold series_add_last vs s) = last (ss_last s # vs)"
  by (induction vs arbitrary: s) (simp_all add: series_add_last_def series_reset_same Let_def)

lemma flush_last_series:
  assumes "vs \<noteq> []"
  shows "series_flush_value (fold series_add_last vs new_series) = Some (last vs)"
proof -
  obtain v ws where vs: "vs = v # ws" using assms by (cases vs) auto
  define s where "s = series_add_last v new_series"
  have s: "0 < ss_count s" "ss_mode s = SM_Last" "ss_last s = v"
    by (simp_all add: s_def series_add_last_def series_reset_def new_series_def)
  show ?thesis using fold_add_last [OF s(1,2), of ws] s(3)
    by (simp add: vs s_def series_flush_value_def)
qed

lemma fold_add_p95:
  "0 < ss_count s \<Longrightarrow> ss_mode s = SM_P95 \<Longrightarrow> length (ss_samples s) \<le> limit \<Longrightarrow>
   ss_mode (fold (series_add_p95 limit) vs s) = SM_P95 \<and>
   0 < ss_count (fold (series_add_p95 limit) vs s) \<and>
   ss_samples (fold (series_add_p95 limit) vs s) = take limit (ss_samples s @ vs)"
  by (induction vs arbitrary: s)
    (simp_all add: series_add_p95_def series_reset_same Let_def take_Cons')

lemma flush_p95_in_samples:
  assumes "ss_mode s = SM_P95" and "ss_samples s \<noteq> []"
  shows "\<exists>v \<in> set (ss_samples s). series_flush_value s = Some v"
proof -
  define k where "k = nat (trunc_int (rnd (rnd (95 / 100) *
    double_of_int (int (length (ss_samples s) - 1)))))"
  define i where "i = (if length (ss_samples s) \<le> k then length (ss_samples s) - 1 else k)"
  have "series_flush_value s = Some (sort (ss_samples s) ! i)"
    using assms unfolding series_flush_value_def Let_def i_def k_def
    by (simp only: length_sort simp_thms if_False SeriesMode.case)
  moreover have "i < length (sort (ss_samples s))" using assms(2) by (simp add: i_def)
  ultimately show ?thesis by (metis nth_mem set_sort)
qed

lemma flush_p95_series:
  assumes "vs \<noteq> []" and "0 < limit"
  shows "\<exists>v \<in> set (take limit vs).
    series_flush_value (fold (series_add_p95 limit) vs new_series) = Some v"
proof -
  obtain v ws where vs: "vs = v # ws" using assms by (cases vs) auto
  define s where "s = series_add_p95 limit v new_series"
  have s: "0 < ss_count s" "ss_mode s = SM_P95" "ss_samples s = [v]"
    using assms(2) by (simp_all add: s_def series_add_p95_def series_reset_def new_series_def)
  have "fold (series_add_p95 limit) vs new_series = fold (series_add_p95 limit) ws s"
    by (simp add: vs s_def)
  then show ?thesis
    using fold_add_p95 [OF s(1,2), of limit ws] s(3) assms
      flush_p95_in_samples [of "fold (series_add_p95 limit) ws s"]
    by (simp add: vs)
qed

section \<open>The buffer invariant\<close>

lemma recording_obs: "recording o' \<Longrightarrow> obs_inv o'"
  by (simp add: recording_def)

lemma with_series_frame [frame_simps]:
  "om_enabled (with_series f k o') = om_enabled o'"
  "om_engine (with_series f k o') = om_engine o'"
  "om_max_samples_per_series (with_series f k o') = om_max_samples_per_series o'"
  "om_total_flush_points (with_series f k o') = om_total_flush_points o'"
  by (simp_all add: with_series_def Let_def)

lemma recording_with_series:
  assumes "recording o'"
    and "\<And>s. s = new_series \<or> series_ok (om_max_samples_per_series o') s
           \<Longrightarrow> series_ok (om_max_samples_per_series o') (f s)"
  shows "recording (with_series f k o')"
proof -
  define s where "s = (case map_of (om_series o') k of None \<Rightarrow> new_series | Some s \<Rightarrow> s)"
  have old: "\<forall>p \<in> set (om_series o'). series_ok (om_max_samples_per_series o') (snd p)"
    using assms(1) by (simp add: recording_def obs_inv_def)
  then have "s = new_series \<or> series_ok (om_max_samples_per_series o') s"
    by (auto simp: s_def split: option.splits dest!: map_of_SomeD)
  then have "\<forall>p \<in> set (alist_put k (f s) (om_series o')).
      series_ok (om_max_samples_per_series o') (snd p)"
    using assms(2) old by (auto dest!: in_alist_put)
  moreover have "om_series (with_series f k o') = alist_put k (f s) (om_series o')"
    by (simp add: with_series_def s_def Let_def)
  ultimately show ?thesis
    using assms(1) by (simp add: recording_def obs_inv_def frame_simps distinct_alist_put)
qed

lemma recording_add [wf_intros]:
  assumes "recording o'"
  shows "recording (add_sum_locked k v o')" and "recording (add_avg_locked k v o')"
    and "recording (add_max_locked k v o')" and "recording (add_last_locked k v o')"
    and "recording (add_p95_locked k v o')"
proof -
  have "0 < om_max_samples_per_series o'" using assms by (simp add: recording_def obs_inv_def)
  then show "recording (add_p95_locked k v o')"
    unfolding add_p95_locked_def using assms by (intro recording_with_series series_ok_add)
qed (use assms in \<open>auto simp: add_sum_locked_def add_avg_locked_def add_max_locked_def
       add_last_locked_def intro!: recording_with_series series_ok_add\<close>)

lemma recording_if [wf_intros]:
  "(c \<Longrightarrow> recording a) \<Longrightarrow> (\<not> c \<Longrightarrow> recording b) \<Longrightarrow> recording (if c then a else b)"
  by simp

lemma recording_Let [wf_intros]:
  "(\<And>x. recording x \<Longrightarrow> recording (f x)) \<Longrightarrow> recording a \<Longrightarrow> recording (Let a f)"
  "(\<And>v :: rat. recording (g v)) \<Longrightarrow> recording (Let v g)"
  "(\<And>t :: string. recording (h t)) \<Longrightarrow> recording (Let t h)"
  by simp_all

lemma recording_observe [wf_intros]:
  assumes "recording o'"
  shows "recording (observe_request_finish e1 o')" and "recording (observe_queue_reject a o')"
    and "recording (observe_queue_snapshot e2 o')" and "recording (observe_endpoint e3 o')"
  subgoal unfolding observe_request_finish_def by (intro wf_intros assms)
  subgoal using assms by (simp add: observe_queue_reject_def wf_intros)
  subgoal using assms
    by (simp add: observe_queue_snapshot_def wf_intros)
  subgoal using assms
    by (simp add: observe_endpoint_def Let_def wf_intros)
  done

lemma observe_disabled:
  assumes "\<not> om_enabled o'"
  shows "observe_request_finish e1 o' = o'" and "observe_queue_reject a o' = o'"
    and "observe_queue_snapshot e2 o' = o'" and "observe_endpoint e3 o' = o'"
  using assms
  by (simp_all add: observe_request_finish_def observe_queue_reject_def observe_queue_snapshot_def
    observe_endpoint_def)

lemma flush_once_frame [frame_simps]:
  "om_series (flush_once db t o') = []"
  "om_enabled (flush_once db t o') = om_enabled o'"
  "om_max_samples_per_series (flush_once db t o') = om_max_samples_per_series o'"
  "om_config (flush_once db t o') = om_config o'"
  "om_engine (flush_once db t o') = None \<longleftrightarrow> om_engine o' = None"
  by (auto simp: flush_once_def Let_def split: prod.splits option.splits)

lemma obs_inv_flush: "obs_inv o' \<Longrightarrow> obs_inv (flush_once db t o')"
  by (simp add: obs_inv_def frame_simps)

lemma obs_stop_frame [frame_simps]:
  "om_series (obs_stop db t o') = []"
  "\<not> om_enabled (obs_stop db t o')"
  "om_max_samples_per_series (obs_stop db t o') = om_max_samples_per_series o'"
  "om_engine (obs_stop db t o') = None"
  by (simp_all add: obs_stop_def Let_def frame_simps)

lemma obs_inv_stop: "obs_inv o' \<Longrightarrow> obs_inv (obs_stop db t o')"
  by (simp add: obs_inv_def frame_simps)

lemma normalize_config_samples: "0 < oc_max_samples_per_series (normalize_config c)"
  by (simp add: normalize_config_def)

lemma obs_inv_configure: "obs_inv (snd (configure db t c o'))"
  unfolding configure_def Let_def
  by (simp add: obs_inv_def frame_simps normalize_config_samples split: open_outcome.split)

lemma obs_inv_new: "obs_inv new_observability"
  by (simp add: obs_inv_def new_observability_def)

lemma obs_inv_observe:
  assumes "obs_inv o'"
  shows "obs_inv (observe_request_finish e1 o')" and "obs_inv (observe_queue_reject a o')"
    and "obs_inv (observe_queue_snapshot e2 o')" and "obs_inv (observe_endpoint e3 o')"
proof -
  have "recording o' \<or> \<not> om_enabled o'" using assms by (auto simp: recording_def)
  then show "obs_inv (observe_request_finish e1 o')" and "obs_inv (observe_queue_reject a o')"
    and "obs_inv (observe_queue_snapshot e2 o')" and "obs_inv (observe_endpoint e3 o')"
    using assms observe_disabled [of o'] recording_obs [OF recording_observe(1)]
      recording_obs [OF recording_observe(2)] recording_obs [OF recording_observe(3)]
      recording_obs [OF recording_observe(4)] by (elim disjE; simp)+
qed

lemma obs_inv_apply: "obs_inv o' \<Longrightarrow> obs_inv (apply_obs db call o')"
  by (cases call)
    (simp_all add: obs_inv_observe obs_inv_flush obs_inv_configure obs_inv_stop)

lemma obs_inv_run: "obs_inv o' \<Longrightarrow> obs_inv (run_obs db calls o')"
  unfolding run_obs_def by (induction calls arbitrary: o') (simp_all add: obs_inv_apply)

section \<open>Flushing and queries\<close>

lemma flush_batch_names:
  "\<forall>p \<in> set ps. series_ok limit (snd p) \<Longrightarrow> map fst (flush_batch t ps) = map fst ps"
  unfolding flush_batch_def
  by (induction ps) (auto simp: map_filter_def dest: series_ok_flushes)

lemma flush_once_writes:
  assumes "obs_inv o'" and "om_series o' \<noteq> []"
  obtains written where "om_engine o' = Some written"
    and "om_engine (flush_once db t o') = Some (written @ [flush_batch t (om_series o')])"
    and "map fst (flush_batch t (om_series o')) = map fst (om_series o')"
proof -
  obtain written where w: "om_engine o' = Some written"
    using assms by (auto simp: obs_inv_def)
  have names: "map fst (flush_batch t (om_series o')) = map fst (om_series o')"
    using assms(1) by (intro flush_batch_names) (auto simp: obs_inv_def)
  then have "flush_batch t (om_series o') \<noteq> []" using assms(2) by (metis map_is_Nil_conv)
  then have "om_engine (flush_once db t o') = Some (written @ [flush_batch t (om_series o')])"
    using assms(2) w by (simp add: flush_once_def Let_def split: prod.splits)
  with w names that show ?thesis by blast
qed

lemma sanitize_segment_chars: "c \<in> set (sanitize_segment s) \<Longrightarrow> segment_char c"
proof -
  have "list_all segment_char ''unknown''" by code_simp
  moreover have "segment_char CHR ''_''" by (simp add: segment_char_def)
  moreover assume "c \<in> set (sanitize_segment s)"
  ultimately show ?thesis
    by (cases "s = []") (auto simp: sanitize_segment_def list_all_iff simp del: set_simps)
qed

lemma sanitize_segment_id: "s \<noteq> [] \<Longrightarrow> \<forall>c \<in> set s. segment_char c \<Longrightarrow> sanitize_segment s = s"
  by (simp add: sanitize_segment_def Let_def map_idI)

lemma sanitize_segment_nonempty: "sanitize_segment s \<noteq> []"
  by (simp add: sanitize_segment_def Let_def)

lemma sanitize_segment_idem: "sanitize_segment (sanitize_segment s) = sanitize_segment s"
  by (simp add: sanitize_segment_id sanitize_segment_nonempty sanitize_segment_chars)

lemma measurements_sorted: "sorted (measurements_from_query q)"
  by (simp add: measurements_from_query_def Let_def sorted_remdups_adj)

lemma distinct_remdups_adj_sorted: "sorted xs \<Longrightarrow> distinct (remdups_adj xs)"
  by (induction xs rule: remdups_adj.induct) (auto simp: order_antisym)

lemma measurements_distinct: "distinct (measurements_from_query q)"
  by (simp add: measurements_from_query_def Let_def distinct_remdups_adj_sorted)

section \<open>Properties\<close>





text \<open>
  The measurements of a query are sorted, without duplicates and without empty names, and a
  metric name segment is never empty, holds letters, digits, underscore and dash only, and is not
  changed by a second pass.
\<close>
theorem query_measurements_and_segments:
  "sorted (measurements_from_query q) \<and> distinct (measurements_from_query q) \<and>
   [] \<notin> set (measurements_from_query q) \<and>
   sanitize_segment s \<noteq> [] \<and> filter segment_char (sanitize_segment s) = sanitize_segment s \<and>
   sanitize_segment (sanitize_segment s) = sanitize_segment s"
proof -
  have "[] \<notin> set (measurements_from_query q)"
    by (simp add: measurements_from_query_def Let_def)
  moreover have "filter segment_char (sanitize_segment s) = sanitize_segment s"
    by (simp add: filter_id_conv sanitize_segment_chars)
  ultimately show ?thesis
    by (simp add: measurements_sorted measurements_distinct sanitize_segment_nonempty
        sanitize_segment_idem)
qed

end
