(* ===== verification/Sched_Config.thy ===== *)
theory Sched_Config
  imports Endpoint_Store Metrics Observability
begin

text \<open>
  The state of \<^verbatim>\<open>vllm_task\<close> and its configuration: \<^verbatim>\<open>parse_config\<close>, \<^verbatim>\<open>load_model\<close>, the builders of
  model profiles and endpoints, and \<^verbatim>\<open>reload_config\<close>, all of
  \<^verbatim>\<open>node/vllm-client/src/main.cpp\<close>.

  Every handler takes the task and returns it updated. Parameters of the definitions: \<open>getenv\<close>
  (the environment), \<open>db\<close> (the time-series store), \<open>alive\<close> (owners of endpoint objects outside
  the task) and the clock reading \<open>now\<close>. An error message of the source is \<open>Inl\<close>.
\<close>

section \<open>State\<close>

record SchedConfig =
  cf_model :: string
  cf_response_format :: string
  cf_prompt :: string
  cf_base_url :: string
  cf_api_key :: string
  cf_endpoint :: string
  cf_temperature :: string
  cf_last_error :: string
  cf_routing_strategy :: string
  cf_default_action :: string
  cf_inputs :: "string list"
  cf_fallback_chain :: "string list"
  cf_model_profiles :: "ModelProfile list"
  cf_enoutput :: bool
  cf_enstream :: bool
  cf_mock_mode :: bool
  cf_allow_model_fallback :: bool
  cf_timeout_ms :: int
  cf_deadline_ms :: int
  cf_max_retries :: int
  cf_max_tokens :: int
  cf_worker_count :: int
  cf_endpoint_wait_ms :: int
  cf_max_queue_size :: int
  cf_max_task_records :: nat
  cf_low_priority_drop_threshold :: int
  cf_high_priority_threshold :: int
  cf_default_priority :: int
  cf_health_check_interval_ms :: int
  cf_health_check_timeout_ms :: int
  cf_unhealthy_threshold :: int
  cf_recovery_threshold :: int
  cf_circuit_failure_threshold :: int
  cf_circuit_open_ms :: int

definition new_config :: SchedConfig where
  "new_config = \<lparr>
     cf_model = [], cf_response_format = [], cf_prompt = [], cf_base_url = [], cf_api_key = [],
     cf_endpoint = [], cf_temperature = [], cf_last_error = [],
     cf_routing_strategy = ''weighted_least_queue'', cf_default_action = ''chat'', cf_inputs = [],
     cf_fallback_chain = [], cf_model_profiles = [], cf_enoutput = True, cf_enstream = False,
     cf_mock_mode = True, cf_allow_model_fallback = True, cf_timeout_ms = 30000,
     cf_deadline_ms = 70000, cf_max_retries = 0, cf_max_tokens = 1024, cf_worker_count = 2,
     cf_endpoint_wait_ms = 2000, cf_max_queue_size = 64, cf_max_task_records = 1000,
     cf_low_priority_drop_threshold = 48, cf_high_priority_threshold = 7, cf_default_priority = 5,
     cf_health_check_interval_ms = 5000, cf_health_check_timeout_ms = 2000,
     cf_unhealthy_threshold = 3, cf_recovery_threshold = 2, cf_circuit_failure_threshold = 5,
     cf_circuit_open_ms = 30000\<rparr>"

text \<open>One call of the output callback.\<close>

record out_message =
  msg_request_id :: string
  msg_work_id :: string
  msg_output_url :: string
  msg_object :: string
  msg_data :: json
  msg_error_code :: int
  msg_error_message :: string

record vllm_task =
  tk_work_id :: string
  tk_cfg :: SchedConfig
  tk_config_version :: int
  tk_last_config_update_ms :: int
  tk_config_update_count :: int
  tk_status :: TaskStatus
  tk_stopping :: bool
  tk_retry_count :: int
  tk_task_id_counter :: int
  tk_queue_schedule_slot :: int
  tk_pending :: "InferenceRequest list"
  tk_endpoints :: "nat list"
  tk_store :: endpoint_store
  tk_metrics :: MetricsCollector
  tk_observability :: ObservabilityMetrics
  tk_records :: "RequestRecord list"
  tk_workers :: nat
  tk_health_worker :: bool
  tk_out_callback :: bool
  tk_out :: "out_message list"

definition new_task :: "string \<Rightarrow> endpoint_store \<Rightarrow> vllm_task" where
  "new_task work_id st = \<lparr>
     tk_work_id = work_id, tk_cfg = new_config, tk_config_version = 1,
     tk_last_config_update_ms = 0, tk_config_update_count = 0, tk_status = TS_Created,
     tk_stopping = False, tk_retry_count = 0, tk_task_id_counter = 0, tk_queue_schedule_slot = 0,
     tk_pending = [], tk_endpoints = [], tk_store = st, tk_metrics = new_metrics,
     tk_observability = new_observability, tk_records = [], tk_workers = 0,
     tk_health_worker = False, tk_out_callback = False, tk_out = []\<rparr>"

definition set_output :: "vllm_task \<Rightarrow> vllm_task" where
  "set_output t = t\<lparr>tk_out_callback := True\<rparr>"

definition tk_endpoint_values :: "vllm_task \<Rightarrow> VllmEndpoint list" where
  "tk_endpoint_values t = map (es_get (tk_store t)) (tk_endpoints t)"

section \<open>Model profiles\<close>

definition profile_from_item :: "string \<Rightarrow> json \<Rightarrow> ModelProfile" where
  "profile_from_item default_model item =
     (let primary = json_string_value item ''primary_model''
                      (json_string_value item ''model'' default_model);
          name0 = json_string_value item ''name'' [];
          name = (if name0 = [] then primary else name0);
          actions = json_string_array_value item ''actions''
      in \<lparr>mp_name = name,
          mp_actions = (if actions = [] then [name] else actions),
          mp_primary_model = (if primary = [] then default_model else primary),
          mp_fallback_models = json_string_array_value item ''fallback_models'',
          mp_max_context_len = json_int_value item ''max_context_len'' 0,
          mp_stream = json_bool_value item ''stream'' True,
          mp_tool_calling = json_bool_value item ''tool_calling'' False,
          mp_default_max_tokens = json_int_value item ''default_max_tokens'' 0,
          mp_default_timeout_ms = json_int_value item ''default_timeout_ms'' 0,
          mp_default_deadline_ms = json_int_value item ''default_deadline_ms'' 0,
          mp_default_priority = json_int_value item ''default_priority'' (-1),
          mp_allow_model_fallback = json_bool_value item ''allow_model_fallback'' True\<rparr>)"

text \<open>The result is the error or none, and the vector, which is cleared first.\<close>

definition build_model_profiles_from_config ::
  "json \<Rightarrow> string \<Rightarrow> string option \<times> ModelProfile list" where
  "build_model_profiles_from_config config_body default_model =
     (case jget config_body ''model_profiles'' of
        None \<Rightarrow> (None, [])
      | Some (JArr items) \<Rightarrow>
          (None, map (profile_from_item default_model) (filter is_object items))
      | Some _ \<Rightarrow> (Some ''model_profiles must be an array'', []))"

section \<open>Endpoints of a configuration\<close>

definition endpoint_from_item ::
  "nat \<Rightarrow> string \<Rightarrow> string \<Rightarrow> json \<Rightarrow> VllmEndpoint" where
  "endpoint_from_item index default_model default_api_key item =
     (let served = json_string_value item ''served_model''
                     (json_string_value item ''model'' default_model);
          models = json_string_array_value item ''logical_models'';
          models = (if models = [] then [default_model] else models);
          models = (if string_in_vector models served then models else models @ [served])
      in new_endpoint\<lparr>
           ep_name := json_string_value item ''name'' (''endpoint-'' @ to_string (int index)),
           ep_base_url := trim_right_slash (json_string_value item ''base_url'' []),
           ep_served_model := served,
           ep_role := json_string_value item ''role'' (if index = 0 then ''primary'' else ''fallback''),
           ep_health_path := json_string_value item ''health_path'' ''/health'',
           ep_api_key := json_string_value item ''api_key'' default_api_key,
           ep_logical_models := models,
           ep_weight := json_int_value item ''weight'' (if index = 0 then 100 else 10),
           ep_max_context_len := json_int_value item ''max_context_len'' 0,
           ep_max_concurrency := max 1 (json_int_value item ''max_concurrency'' 1)\<rparr>)"

definition default_endpoint :: "string \<Rightarrow> string \<Rightarrow> string \<Rightarrow> VllmEndpoint" where
  "default_endpoint default_model default_base_url default_api_key =
     new_endpoint\<lparr>ep_name := ''default'', ep_base_url := default_base_url,
                  ep_served_model := default_model, ep_logical_models := [default_model],
                  ep_role := ''primary'', ep_api_key := default_api_key,
                  ep_max_concurrency := 1\<rparr>"

text \<open>A new object, replaced by the shared one when \<open>share_runtime\<close> is set. The objects of the
  vector being built are owned by it.\<close>

definition place_endpoint ::
  "(nat \<Rightarrow> bool) \<Rightarrow> bool \<Rightarrow> VllmEndpoint \<Rightarrow> nat list \<Rightarrow> endpoint_store \<Rightarrow> nat list \<times> endpoint_store" where
  "place_endpoint alive share_runtime ep out st =
     (let (a, st) = es_alloc ep st
      in if share_runtime
         then let (b, st) = share_endpoint_runtime (\<lambda>x. alive x \<or> x \<in> set out) a st
              in (out @ [b], st)
         else (out @ [a], st))"

fun build_items ::
  "(nat \<Rightarrow> bool) \<Rightarrow> string \<Rightarrow> string \<Rightarrow> bool \<Rightarrow> bool \<Rightarrow> bool \<Rightarrow> json list \<Rightarrow> nat \<Rightarrow> nat list
     \<Rightarrow> endpoint_store \<Rightarrow> (string + nat list) \<times> endpoint_store" where
  "build_items alive default_model default_api_key mock_mode share strict [] index out st =
     (Inr out, st)"
| "build_items alive default_model default_api_key mock_mode share strict (item # items) index out st =
     (if \<not> is_object item
      then if strict then (Inl ''endpoint item must be an object'', st)
           else build_items alive default_model default_api_key mock_mode share strict items index
                  out st
      else let ep = endpoint_from_item index default_model default_api_key item
           in if ep_base_url ep = [] \<and> \<not> mock_mode
              then (Inl (''endpoint missing base_url: '' @ ep_name ep), st)
              else if ep_served_model ep = []
              then (Inl (''endpoint missing served_model: '' @ ep_name ep), st)
              else let (out, st) = place_endpoint alive share ep out st
                   in build_items alive default_model default_api_key mock_mode share strict items
                        (Suc index) out st)"

definition endpoint_array :: "json \<Rightarrow> string + json list" where
  "endpoint_array config_body =
     (case jget config_body ''endpoints'' of
        Some (JArr items) \<Rightarrow> Inr items
      | Some _ \<Rightarrow> Inl ''endpoints must be an array''
      | None \<Rightarrow>
          (case jget config_body ''vllm_endpoints'' of
             Some (JArr items) \<Rightarrow> Inr items
           | Some _ \<Rightarrow> Inl ''vllm_endpoints must be an array''
           | None \<Rightarrow> Inr []))"

definition build_endpoints_from_config ::
  "(nat \<Rightarrow> bool) \<Rightarrow> json \<Rightarrow> string \<Rightarrow> string \<Rightarrow> string \<Rightarrow> bool \<Rightarrow> bool \<Rightarrow> bool \<Rightarrow> endpoint_store
     \<Rightarrow> (string + nat list) \<times> endpoint_store" where
  "build_endpoints_from_config alive config_body default_model default_base_url default_api_key
     mock_mode share_runtime strict_items st =
     (case endpoint_array config_body of
        Inl e \<Rightarrow> (Inl e, st)
      | Inr items \<Rightarrow>
          (case build_items alive default_model default_api_key mock_mode share_runtime strict_items
                  items 0 [] st of
             (Inl e, st) \<Rightarrow> (Inl e, st)
           | (Inr out, st) \<Rightarrow>
               (let (out, st) =
                      (if out = []
                       then place_endpoint alive share_runtime
                              (default_endpoint default_model default_base_url default_api_key) [] st
                       else (out, st))
                in if \<not> mock_mode \<and> (\<exists>a \<in> set out. ep_base_url (es_get st a) = [])
                   then (Inl ''missing vllm_base_url, VLLM_BASE_URL, or endpoints[].base_url'', st)
                   else (Inr out, st))))"

definition fill_default_fallback_chain ::
  "string list \<Rightarrow> string \<Rightarrow> VllmEndpoint list \<Rightarrow> string list" where
  "fill_default_fallback_chain fallback_chain default_model endpoints =
     (if fallback_chain \<noteq> [] then fallback_chain
      else fold (\<lambda>ep chain. push_unique chain (ep_served_model ep)) endpoints [default_model])"

section \<open>Loading\<close>

definition degrade_policy_of :: "json \<Rightarrow> json" where
  "degrade_policy_of config_body =
     (case jget config_body ''degrade_policy'' of Some (JObj kvs) \<Rightarrow> JObj kvs | _ \<Rightarrow> config_body)"

definition parse_config_values ::
  "(string \<Rightarrow> string) \<Rightarrow> json \<Rightarrow> SchedConfig \<Rightarrow> SchedConfig" where
  "parse_config_values getenv config_body c =
     (let response_format = json_string_value config_body ''response_format'' ''llm.utf-8'';
          timeout_ms = json_int_value config_body ''timeout_ms'' 30000;
          base_url = json_string_value config_body ''vllm_base_url'' (getenv ''VLLM_BASE_URL'');
          max_queue_size = json_int_value config_body ''max_queue_size'' 64;
          policy = degrade_policy_of config_body;
          default_mock = (base_url = [] \<and>
            \<not> (contains config_body ''endpoints'' \<or> contains config_body ''vllm_endpoints''));
          env_mock = getenv ''VLLM_MOCK'';
          default_mock = (if env_mock \<noteq> [] then parse_bool_string env_mock default_mock
                          else default_mock)
      in c\<lparr>cf_model := json_string_value config_body ''model'' [],
           cf_response_format := response_format,
           cf_enoutput := json_bool_value config_body ''enoutput'' True,
           cf_enstream := str_contains ''stream'' response_format,
           cf_prompt := json_string_value config_body ''prompt'' [],
           cf_timeout_ms := timeout_ms,
           cf_deadline_ms := json_int_value config_body ''deadline_ms'' (timeout_ms + 10000),
           cf_max_retries := json_int_value config_body ''max_retries''
             (json_int_value config_body ''retry_count'' 0),
           cf_max_tokens := json_int_value config_body ''max_token_len''
             (json_int_value config_body ''max_tokens'' 1024),
           cf_temperature := json_string_value config_body ''temperature'' ''0.7'',
           cf_base_url := base_url,
           cf_api_key := json_string_value config_body ''api_key'' (getenv ''VLLM_API_KEY''),
           cf_endpoint := json_string_value config_body ''endpoint'' ''/v1/chat/completions'',
           cf_routing_strategy :=
             json_string_value config_body ''routing_strategy'' ''weighted_least_queue'',
           cf_default_action := json_string_value config_body ''default_action'' ''chat'',
           cf_worker_count := max 1 (json_int_value config_body ''worker_count'' 2),
           cf_endpoint_wait_ms := max 0 (json_int_value config_body ''endpoint_wait_ms'' 2000),
           cf_max_queue_size := max_queue_size,
           cf_max_task_records := nat (max 1 (json_int_value config_body ''max_task_records'' 1000)),
           cf_low_priority_drop_threshold := json_int_value config_body
             ''low_priority_drop_threshold'' (max 0 (max_queue_size - 16)),
           cf_high_priority_threshold := json_int_value config_body ''high_priority_threshold'' 7,
           cf_default_priority := json_int_value config_body ''priority'' 5,
           cf_health_check_interval_ms :=
             json_int_value config_body ''health_check_interval_ms'' 5000,
           cf_health_check_timeout_ms :=
             json_int_value config_body ''health_check_timeout_ms'' 2000,
           cf_unhealthy_threshold := json_int_value config_body ''unhealthy_threshold'' 3,
           cf_recovery_threshold := json_int_value config_body ''recovery_threshold'' 2,
           cf_circuit_failure_threshold :=
             json_int_value config_body ''circuit_failure_threshold'' 5,
           cf_circuit_open_ms := json_int_value config_body ''circuit_open_ms'' 30000,
           cf_allow_model_fallback := json_bool_value policy ''allow_model_fallback'' True,
           cf_fallback_chain := json_string_array_value policy ''fallback_chain'',
           cf_mock_mode := json_bool_value config_body ''mock'' default_mock,
           cf_inputs := json_string_array_value config_body ''input''\<rparr>)"

definition with_leading_slash :: "string \<Rightarrow> string" where
  "with_leading_slash s =
     (case s of [] \<Rightarrow> [] | c # _ \<Rightarrow> if c \<noteq> CHR ''/'' then CHR ''/'' # s else s)"

text \<open>The result is True on failure, as in the source; the message is left in \<open>cf_last_error\<close>.\<close>

definition parse_config ::
  "tsdb \<Rightarrow> (string \<Rightarrow> string) \<Rightarrow> (nat \<Rightarrow> bool) \<Rightarrow> int \<Rightarrow> json \<Rightarrow> vllm_task \<Rightarrow> bool \<times> vllm_task" where
  "parse_config db getenv alive now config_body t =
     (let c = parse_config_values getenv config_body (tk_cfg t);
          t = t\<lparr>tk_cfg := c, tk_observability := snd (configure db now
                  (observability_config_from_json config_body) (tk_observability t))\<rparr>
      in if cf_model c = [] then (True, t\<lparr>tk_cfg := c\<lparr>cf_last_error := ''missing model''\<rparr>\<rparr>)
      else let c = c\<lparr>cf_endpoint := with_leading_slash (cf_endpoint c),
                     cf_base_url := trim_right_slash (cf_base_url c)\<rparr>;
               (err, profiles) = build_model_profiles_from_config config_body (cf_model c);
               c = c\<lparr>cf_model_profiles := profiles\<rparr>
      in case err of
           Some e \<Rightarrow> (True, t\<lparr>tk_cfg := c\<lparr>cf_last_error := e\<rparr>\<rparr>)
         | None \<Rightarrow>
             (case build_endpoints_from_config (\<lambda>a. alive a \<or> a \<in> set (tk_endpoints t)) config_body
                     (cf_model c) (cf_base_url c) (cf_api_key c) (cf_mock_mode c) True False
                     (tk_store t) of
                (Inl e, st) \<Rightarrow> (True, t\<lparr>tk_cfg := c\<lparr>cf_last_error := e\<rparr>, tk_store := st\<rparr>)
              | (Inr out, st) \<Rightarrow>
                  (False, t\<lparr>tk_store := st, tk_endpoints := out,
                            tk_cfg := c\<lparr>cf_fallback_chain := fill_default_fallback_chain
                              (cf_fallback_chain c) (cf_model c) (map (es_get st) out)\<rparr>\<rparr>)))"

definition load_model ::
  "tsdb \<Rightarrow> (string \<Rightarrow> string) \<Rightarrow> (nat \<Rightarrow> bool) \<Rightarrow> int \<Rightarrow> json \<Rightarrow> vllm_task \<Rightarrow> int \<times> vllm_task" where
  "load_model db getenv alive now config_body t =
     (let (failed, t) = parse_config db getenv alive now config_body (t\<lparr>tk_status := TS_Starting\<rparr>)
      in if failed then (-1, t\<lparr>tk_status := TS_Failed\<rparr>) else (0, t\<lparr>tk_status := TS_Ready\<rparr>))"

definition task_start :: "vllm_task \<Rightarrow> bool \<times> vllm_task" where
  "task_start t =
     (if tk_workers t \<noteq> 0 then (True, t)
      else (True, t\<lparr>tk_stopping := False, tk_workers := nat (cf_worker_count (tk_cfg t)),
                    tk_health_worker := tk_health_worker t \<or>
                      (\<not> cf_mock_mode (tk_cfg t) \<and> tk_endpoints t \<noteq> [])\<rparr>))"

section \<open>Reloading\<close>

definition has_endpoint_reload_config :: "json \<Rightarrow> bool" where
  "has_endpoint_reload_config config_body \<longleftrightarrow>
     contains config_body ''endpoints'' \<or> contains config_body ''vllm_endpoints'' \<or>
     contains config_body ''vllm_base_url''"

definition validate_static_reload_fields :: "json \<Rightarrow> SchedConfig \<Rightarrow> string option" where
  "validate_static_reload_fields config_body c =
     (if contains config_body ''model'' \<and>
         json_string_value config_body ''model'' (cf_model c) \<noteq> cf_model c
      then Some ''model cannot be changed by reload_config; create a new scheduler instead''
      else if contains config_body ''response_format'' \<and>
         json_string_value config_body ''response_format'' (cf_response_format c)
           \<noteq> cf_response_format c
      then Some ''response_format cannot be changed by reload_config''
      else if contains config_body ''endpoint'' \<and>
         json_string_value config_body ''endpoint'' (cf_endpoint c) \<noteq> cf_endpoint c
      then Some ''endpoint path cannot be changed by reload_config''
      else if contains config_body ''worker_count'' \<and>
         json_int_value config_body ''worker_count'' (cf_worker_count c) \<noteq> cf_worker_count c
      then Some ''worker_count cannot be changed by reload_config''
      else if contains config_body ''mock'' \<and>
         json_bool_value config_body ''mock'' (cf_mock_mode c) \<noteq> cf_mock_mode c
      then Some ''mock mode cannot be changed by reload_config''
      else None)"

definition reload_values :: "json \<Rightarrow> SchedConfig \<Rightarrow> SchedConfig" where
  "reload_values config_body c =
     (let policy = degrade_policy_of config_body
      in c\<lparr>cf_routing_strategy :=
             json_string_value config_body ''routing_strategy'' (cf_routing_strategy c),
           cf_endpoint_wait_ms :=
             max 0 (json_int_value config_body ''endpoint_wait_ms'' (cf_endpoint_wait_ms c)),
           cf_max_queue_size :=
             max 0 (json_int_value config_body ''max_queue_size'' (cf_max_queue_size c)),
           cf_low_priority_drop_threshold := max 0 (json_int_value config_body
             ''low_priority_drop_threshold'' (cf_low_priority_drop_threshold c)),
           cf_high_priority_threshold := max 0 (json_int_value config_body
             ''high_priority_threshold'' (cf_high_priority_threshold c)),
           cf_health_check_interval_ms := max 1 (json_int_value config_body
             ''health_check_interval_ms'' (cf_health_check_interval_ms c)),
           cf_health_check_timeout_ms := max 1 (json_int_value config_body
             ''health_check_timeout_ms'' (cf_health_check_timeout_ms c)),
           cf_unhealthy_threshold := max 1 (json_int_value config_body
             ''unhealthy_threshold'' (cf_unhealthy_threshold c)),
           cf_recovery_threshold := max 1 (json_int_value config_body
             ''recovery_threshold'' (cf_recovery_threshold c)),
           cf_circuit_failure_threshold := max 1 (json_int_value config_body
             ''circuit_failure_threshold'' (cf_circuit_failure_threshold c)),
           cf_circuit_open_ms := max 1 (json_int_value config_body
             ''circuit_open_ms'' (cf_circuit_open_ms c)),
           cf_allow_model_fallback :=
             json_bool_value policy ''allow_model_fallback'' (cf_allow_model_fallback c),
           cf_fallback_chain :=
             (if contains policy ''fallback_chain''
              then json_string_array_value policy ''fallback_chain''
              else cf_fallback_chain c)\<rparr>)"

text \<open>The endpoints of the new configuration: objects of their own, not yet published.\<close>

definition reload_endpoints ::
  "json \<Rightarrow> SchedConfig \<Rightarrow> vllm_task \<Rightarrow> (string + string \<times> nat list) \<times> endpoint_store" where
  "reload_endpoints config_body c t =
     (if has_endpoint_reload_config config_body
      then let base_url = trim_right_slash
                 (json_string_value config_body ''vllm_base_url'' (cf_base_url c))
           in case build_endpoints_from_config (\<lambda>_. False) config_body (cf_model c) base_url
                     (cf_api_key c) (cf_mock_mode c) False True (tk_store t) of
                (Inl e, st) \<Rightarrow> (Inl e, st)
              | (Inr out, st) \<Rightarrow> (Inr (base_url, out), st)
      else (Inr (cf_base_url c, tk_endpoints t), tk_store t))"

definition reload_observability ::
  "tsdb \<Rightarrow> int \<Rightarrow> json \<Rightarrow> ObservabilityMetrics \<Rightarrow> ObservabilityMetrics" where
  "reload_observability db now config_body o' =
     (if contains config_body ''observability'' \<or> contains config_body ''observability_enabled''
      then snd (configure db now (observability_config_from_json config_body) o')
      else o')"

definition reload_config ::
  "tsdb \<Rightarrow> int \<Rightarrow> json \<Rightarrow> vllm_task \<Rightarrow> (string + unit) \<times> vllm_task" where
  "reload_config db now config_body t =
     (if \<not> is_object config_body then (Inl ''reload_config data must be a json object'', t)
      else case validate_static_reload_fields config_body (tk_cfg t) of
        Some e \<Rightarrow> (Inl e, t)
      | None \<Rightarrow>
          (let c = reload_values config_body (tk_cfg t);
               (err, profiles) =
                 (if contains config_body ''model_profiles''
                  then build_model_profiles_from_config config_body (cf_model c)
                  else (None, cf_model_profiles c))
           in case err of
                Some e \<Rightarrow> (Inl e, t)
              | None \<Rightarrow>
                  (case reload_endpoints config_body c t of
                     (Inl e, st) \<Rightarrow> (Inl e, t\<lparr>tk_store := st\<rparr>)
                   | (Inr (base_url, next_endpoints), st) \<Rightarrow>
                       (let chain = fill_default_fallback_chain (cf_fallback_chain c) (cf_model c)
                              (map (es_get st) next_endpoints);
                            (endpoints, st) =
                              (if has_endpoint_reload_config config_body
                               then commit_reloaded_endpoints_locked (tk_endpoints t) next_endpoints st
                               else (tk_endpoints t, st))
                        in (Inr (), t\<lparr>
                              tk_cfg := c\<lparr>cf_base_url := base_url, cf_fallback_chain := chain,
                                          cf_model_profiles := profiles\<rparr>,
                              tk_endpoints := endpoints, tk_store := st,
                              tk_config_version := to_int32 (tk_config_version t + 1),
                              tk_config_update_count := to_int32 (tk_config_update_count t + 1),
                              tk_last_config_update_ms := now,
                              tk_observability := reload_observability db now config_body
                                (tk_observability t)\<rparr>)))))"

section \<open>Invariants of a built endpoint list\<close>

definition built_inv :: "nat list \<Rightarrow> endpoint_store \<Rightarrow> bool" where
  "built_inv out st \<longleftrightarrow> store_ok st \<and> addrs_ok st out \<and>
     (\<forall>a \<in> set out. 1 \<le> ep_max_concurrency (es_get st a) \<and>
        map_of (es_global st) (endpoint_runtime_key (es_get st a)) = Some a)"

definition new_out_ok :: "nat list \<Rightarrow> endpoint_store \<Rightarrow> bool" where
  "new_out_ok out st \<longleftrightarrow> addrs_ok st out \<and>
     (\<forall>a \<in> set out. 1 \<le> ep_max_concurrency (es_get st a) \<and>
        ep_inflight (es_get st a) = 0 \<and> ep_half_open_inflight (es_get st a) = 0)"

definition extends_heap :: "endpoint_store \<Rightarrow> endpoint_store \<Rightarrow> bool" where
  "extends_heap st st' \<longleftrightarrow> es_global st' = es_global st \<and>
     length (es_heap st) \<le> length (es_heap st') \<and>
     (\<forall>a < length (es_heap st). es_get st' a = es_get st a)"

section \<open>A sample scheduler\<close>

definition sample_config :: json where
  "sample_config = JObj [(''model'', JStr ''qwen''), (''max_queue_size'', JInt 10),
     (''worker_count'', JInt 2), (''circuit_failure_threshold'', JInt 2),
     (''endpoints'', JArr
        [JObj [(''name'', JStr ''a''), (''base_url'', JStr ''http://a/''),
               (''served_model'', JStr ''qwen''), (''max_concurrency'', JInt 2)],
         JObj [(''name'', JStr ''b''), (''base_url'', JStr ''http://b''),
               (''served_model'', JStr ''qwen-small''), (''weight'', JStr ''20'')]])]"

definition sample_task :: vllm_task where
  "sample_task = set_output (snd (load_model sample_tsdb (\<lambda>_. []) (\<lambda>_. False) 0 sample_config
     (new_task ''vllm.1000'' empty_store)))"

definition sample_reload :: json where
  "sample_reload = JObj [(''max_queue_size'', JInt 20), (''endpoints'', JArr
     [JObj [(''name'', JStr ''a2''), (''base_url'', JStr ''http://a''),
            (''served_model'', JStr ''qwen''), (''max_concurrency'', JInt 4)]])]"

section \<open>Building endpoints\<close>

lemma endpoint_from_item_ok:
  "1 \<le> ep_max_concurrency (endpoint_from_item i m k item)"
  "ep_served_model (endpoint_from_item i m k item) \<in> set (ep_logical_models (endpoint_from_item i m k item))"
  "ep_inflight (endpoint_from_item i m k item) = 0"
  "ep_half_open_inflight (endpoint_from_item i m k item) = 0"
  by (simp_all add: endpoint_from_item_def Let_def new_endpoint_def string_in_vector_def)

lemma share_concurrency:
  assumes "store_ok st" and "a < length (es_heap st)"
  shows "ep_max_concurrency (es_get (snd (share_endpoint_runtime alive a st))
      (fst (share_endpoint_runtime alive a st))) = ep_max_concurrency (es_get st a)"
  using assms
  by (auto simp: share_endpoint_runtime_def store_ok_def take_configured_fields_def Let_def
      split: option.splits)

lemma share_other:
  "b \<noteq> fst (share_endpoint_runtime alive a st) \<Longrightarrow>
   es_get (snd (share_endpoint_runtime alive a st)) b = es_get st b"
  by (auto simp: share_endpoint_runtime_def Let_def split: option.splits)

lemma share_built_inv:
  assumes inv: "built_inv out st" and a: "a < length (es_heap st)"
    and conc: "1 \<le> ep_max_concurrency (es_get st a)" and alive: "\<And>x. x \<in> set out \<Longrightarrow> alive x"
  shows "built_inv (out @ [fst (share_endpoint_runtime alive a st)])
    (snd (share_endpoint_runtime alive a st))"
proof -
  define b where "b = fst (share_endpoint_runtime alive a st)"
  define st' where "st' = snd (share_endpoint_runtime alive a st)"
  have ok: "store_ok st" using inv by (simp add: built_inv_def)
  have b: "b < length (es_heap st)" "endpoint_runtime_key (es_get st' b) = endpoint_runtime_key (es_get st a)"
    "map_of (es_global st') (endpoint_runtime_key (es_get st a)) = Some b"
    "1 \<le> ep_max_concurrency (es_get st' b)"
    unfolding b_def st'_def using ok a conc
    by (simp_all add: share_addr share_result_key share_published share_concurrency)
  have "1 \<le> ep_max_concurrency (es_get st' x) \<and>
      map_of (es_global st') (endpoint_runtime_key (es_get st' x)) = Some x" if x: "x \<in> set out" for x
  proof (cases "x = b")
    case True then show ?thesis using b by simp
  next
    case False
    have old: "map_of (es_global st) (endpoint_runtime_key (es_get st x)) = Some x"
      using inv x by (simp add: built_inv_def)
    have same: "es_get st' x = es_get st x"
      unfolding st'_def by (rule share_other) (use False in \<open>simp add: b_def\<close>)
    have "endpoint_runtime_key (es_get st x) \<noteq> endpoint_runtime_key (es_get st a)"
      using share_existing [of st a x alive] old alive [OF x] False by (auto simp: b_def)
    then show ?thesis
      using inv x old same share_table_other [of _ st a alive] by (simp add: built_inv_def st'_def)
  qed
  then show ?thesis
    using inv b ok a
    by (auto simp: built_inv_def addrs_ok_def store_ok_share simp flip: b_def st'_def)
      (simp_all add: st'_def store_ok_share)
qed

lemma built_inv_alloc:
  "built_inv out st \<Longrightarrow> built_inv out (snd (es_alloc ep st))"
  by (auto simp: built_inv_def addrs_ok_def store_ok_alloc es_get_alloc [of ep st]
      intro: less_SucI)

lemma place_shared_built_inv:
  assumes "built_inv out st" and "1 \<le> ep_max_concurrency ep"
  shows "built_inv (fst (place_endpoint alive True ep out st)) (snd (place_endpoint alive True ep out st))"
proof -
  define st1 where "st1 = snd (es_alloc ep st)"
  have eq: "place_endpoint alive True ep out st =
      (out @ [fst (share_endpoint_runtime (\<lambda>x. alive x \<or> x \<in> set out) (length (es_heap st)) st1)],
       snd (share_endpoint_runtime (\<lambda>x. alive x \<or> x \<in> set out) (length (es_heap st)) st1))"
    by (simp add: place_endpoint_def es_alloc_def st1_def split: prod.splits)
  have "es_get st1 (length (es_heap st)) = ep" by (simp add: st1_def es_get_def)
  then show ?thesis unfolding eq fst_conv snd_conv
    by (intro share_built_inv) (simp_all add: assms built_inv_alloc st1_def)
qed

lemma place_length: "length (fst (place_endpoint alive share ep out st)) = Suc (length out)"
  by (simp add: place_endpoint_def split: prod.splits)

lemma build_items_shared:
  assumes "built_inv out st"
    and "build_items alive m k mock True strict items index out st = (Inr out', st')"
  shows "built_inv out' st' \<and> length out \<le> length out'"
  using assms
proof (induction alive m k mock True strict items index out st rule: build_items.induct)
  case (2 alive m k mock strict item items index out st)
  show ?case
  proof (cases "is_object item")
    case True
    define ep where "ep = endpoint_from_item index m k item"
    obtain o1 s1 where pl: "place_endpoint alive True ep out st = (o1, s1)" by (cases "place_endpoint alive True ep out st")
    have "1 \<le> ep_max_concurrency ep" by (simp add: ep_def endpoint_from_item_ok)
    then have inv1: "built_inv o1 s1" and len: "length o1 = Suc (length out)"
      using place_shared_built_inv [OF 2(3), of ep alive] place_length [of alive True ep out st]
      by (simp_all add: pl)
    have "build_items alive m k mock True strict items (Suc index) o1 s1 = (Inr out', st')"
      and nb: "\<not> (ep_base_url ep = [] \<and> \<not> mock)" and ns: "ep_served_model ep \<noteq> []"
      using 2(4) True pl by (auto simp: ep_def [symmetric] Let_def split: if_splits)
    then show ?thesis using 2(2) [OF _ ep_def nb ns pl [symmetric] _ inv1] True len by force
  next
    case False
    then show ?thesis using 2(1,3,4) by (auto split: if_splits)
  qed
qed auto

lemma build_endpoints_shared:
  assumes "store_ok st"
    and "build_endpoints_from_config alive body m url k mock True strict st = (Inr out, st')"
  shows "built_inv out st' \<and> out \<noteq> [] \<and> (mock \<or> (\<forall>a \<in> set out. ep_base_url (es_get st' a) \<noteq> []))"
proof -
  obtain items where items: "endpoint_array body = Inr items"
    using assms(2) by (auto simp: build_endpoints_from_config_def split: sum.splits)
  obtain o1 s1 where b: "build_items alive m k mock True strict items 0 [] st = (Inr o1, s1)"
    using assms(2) items
    by (auto simp: build_endpoints_from_config_def split: sum.splits prod.splits)
  have "built_inv [] st" using assms(1) by (simp add: built_inv_def addrs_ok_def)
  from build_items_shared [OF this b] have o1: "built_inv o1 s1" by simp
  obtain o2 s2 where pl: "place_endpoint alive True (default_endpoint m url k) [] s1 = (o2, s2)"
    by (cases "place_endpoint alive True (default_endpoint m url k) [] s1")
  have "built_inv [] s1" using o1 by (simp add: built_inv_def addrs_ok_def)
  moreover have "1 \<le> ep_max_concurrency (default_endpoint m url k)"
    by (simp add: default_endpoint_def)
  ultimately have o2: "built_inv o2 s2"
    using place_shared_built_inv [of "[]" s1 "default_endpoint m url k" alive] by (simp add: pl)
  have "o2 \<noteq> []" using place_length [of alive True "default_endpoint m url k" "[]" s1] pl by auto
  then show ?thesis
    using assms(2) items b pl o1 o2
    by (auto simp: build_endpoints_from_config_def split: if_splits)
qed

lemma extends_heap_refl [simp]: "extends_heap st st"
  by (simp add: extends_heap_def)

lemma extends_heap_trans: "extends_heap st s1 \<Longrightarrow> extends_heap s1 s2 \<Longrightarrow> extends_heap st s2"
  by (auto simp: extends_heap_def)

lemma place_new_extends: "extends_heap st (snd (place_endpoint alive False ep out st))"
  by (simp add: place_endpoint_def es_alloc_def extends_heap_def es_get_def nth_append)

lemma build_items_new_extends:
  "extends_heap st (snd (build_items alive m k mock False strict items index out st))"
proof (induction alive m k mock False strict items index out st rule: build_items.induct)
  case (2 alive m k mock strict item items index out st)
  define ep where "ep = endpoint_from_item index m k item"
  obtain o1 s1 where pl: "place_endpoint alive False ep out st = (o1, s1)"
    by (cases "place_endpoint alive False ep out st")
  have "extends_heap st s1" using place_new_extends [of st alive ep out] pl by simp
  moreover have "is_object item \<Longrightarrow> \<not> (ep_base_url ep = [] \<and> \<not> mock) \<Longrightarrow> ep_served_model ep \<noteq> [] \<Longrightarrow>
      extends_heap s1 (snd (build_items alive m k mock False strict items (Suc index) o1 s1))"
    using 2(2) [OF _ ep_def _ _ pl [symmetric]] by simp
  ultimately show ?case
    using 2(1) pl by (auto simp: ep_def [symmetric] Let_def intro: extends_heap_trans)
qed simp

lemma build_endpoints_new_extends:
  "extends_heap st (snd (build_endpoints_from_config alive body m url k mock False strict st))"
proof (cases "endpoint_array body")
  case (Inr items)
  obtain r s1 where b: "build_items alive m k mock False strict items 0 [] st = (r, s1)"
    by (cases "build_items alive m k mock False strict items 0 [] st")
  have e1: "extends_heap st s1"
    using build_items_new_extends [of st alive m k mock strict items 0 "[]"] b by simp
  have "extends_heap st (snd (place_endpoint alive False ep out s1))" for ep out
    by (rule extends_heap_trans [OF e1 place_new_extends])
  then show ?thesis
    using Inr b e1
    by (auto simp: build_endpoints_from_config_def split: sum.splits prod.splits if_splits)
      (metis snd_conv)+
qed (simp add: build_endpoints_from_config_def)

lemma reload_endpoints_extends: "extends_heap (tk_store t) (snd (reload_endpoints body c t))"
  using build_endpoints_new_extends [of "tk_store t"]
  by (auto simp: reload_endpoints_def Let_def split: sum.splits prod.splits) (metis snd_conv)+

lemma place_new_out_ok:
  assumes "new_out_ok out st" and "1 \<le> ep_max_concurrency ep" and "ep_inflight ep = 0"
    and "ep_half_open_inflight ep = 0"
  shows "new_out_ok (fst (place_endpoint alive False ep out st)) (snd (place_endpoint alive False ep out st))"
  using assms
  by (auto simp: place_endpoint_def es_alloc_def new_out_ok_def addrs_ok_def es_get_def nth_append
      intro: less_SucI)

lemma build_items_new_out_ok:
  assumes "new_out_ok out st"
    and "build_items alive m k mock False strict items index out st = (Inr out', st')"
  shows "new_out_ok out' st'"
  using assms
proof (induction alive m k mock False strict items index out st rule: build_items.induct)
  case (2 alive m k mock strict item items index out st)
  show ?case
  proof (cases "is_object item")
    case True
    define ep where "ep = endpoint_from_item index m k item"
    obtain o1 s1 where pl: "place_endpoint alive False ep out st = (o1, s1)"
      by (cases "place_endpoint alive False ep out st")
    have "1 \<le> ep_max_concurrency ep" "ep_inflight ep = 0" "ep_half_open_inflight ep = 0"
      by (simp_all add: ep_def endpoint_from_item_ok)
    then have inv1: "new_out_ok o1 s1"
      using place_new_out_ok [OF 2(3), of ep alive] by (simp add: pl)
    have "build_items alive m k mock False strict items (Suc index) o1 s1 = (Inr out', st')"
      and nb: "\<not> (ep_base_url ep = [] \<and> \<not> mock)" and ns: "ep_served_model ep \<noteq> []"
      using 2(4) True pl by (auto simp: ep_def [symmetric] Let_def split: if_splits)
    then show ?thesis using 2(2) [OF _ ep_def nb ns pl [symmetric] _ inv1] True by force
  next
    case False
    then show ?thesis using 2(1,3,4) by (auto split: if_splits)
  qed
qed auto

lemma build_endpoints_new_out_ok:
  assumes "build_endpoints_from_config alive body m url k mock False strict st = (Inr out, st')"
  shows "new_out_ok out st' \<and> out \<noteq> []"
proof -
  obtain items where items: "endpoint_array body = Inr items"
    using assms by (auto simp: build_endpoints_from_config_def split: sum.splits)
  obtain o1 s1 where b: "build_items alive m k mock False strict items 0 [] st = (Inr o1, s1)"
    using assms items
    by (auto simp: build_endpoints_from_config_def split: sum.splits prod.splits)
  have empty: "new_out_ok [] s" for s by (simp add: new_out_ok_def addrs_ok_def)
  have o1: "new_out_ok o1 s1" by (rule build_items_new_out_ok [OF empty b])
  let ?d = "default_endpoint m url k"
  obtain o2 s2 where pl: "place_endpoint alive False ?d [] s1 = (o2, s2)"
    by (cases "place_endpoint alive False ?d [] s1")
  have "new_out_ok o2 s2" and "o2 \<noteq> []"
    using place_new_out_ok [OF empty, of ?d alive s1] place_length [of alive False ?d "[]" s1] pl
    by (auto simp: default_endpoint_def new_endpoint_def)
  with o1 show ?thesis
    using assms items b pl by (auto simp: build_endpoints_from_config_def split: if_splits)
qed

lemma fill_chain_nonempty: "fill_default_fallback_chain chain m eps \<noteq> []"
proof -
  have "m \<in> set (fold (\<lambda>ep c. push_unique c (ep_served_model ep)) eps acc)" if "m \<in> set acc" for acc
    using that by (induction eps arbitrary: acc) simp_all
  from this [of "[m]"] show ?thesis by (auto simp: fill_default_fallback_chain_def)
qed

section \<open>Facts on a reload\<close>

lemma reload_config_cases:
  assumes "reload_config db now body t = (r, t')"
  obtains (fail) e st where "r = Inl e" "t' = t\<lparr>tk_store := st\<rparr>" "extends_heap (tk_store t) st"
  | (committed) base_url out st profiles where "r = Inr ()"
      "validate_static_reload_fields body (tk_cfg t) = None"
      "reload_endpoints body (reload_values body (tk_cfg t)) t = (Inr (base_url, out), st)"
      "t' = t\<lparr>tk_cfg := (reload_values body (tk_cfg t))\<lparr>cf_base_url := base_url,
                cf_fallback_chain := fill_default_fallback_chain
                  (cf_fallback_chain (reload_values body (tk_cfg t)))
                  (cf_model (reload_values body (tk_cfg t))) (map (es_get st) out),
                cf_model_profiles := profiles\<rparr>,
              tk_endpoints := (if has_endpoint_reload_config body
                then fst (commit_reloaded_endpoints_locked (tk_endpoints t) out st)
                else tk_endpoints t),
              tk_store := (if has_endpoint_reload_config body
                then snd (commit_reloaded_endpoints_locked (tk_endpoints t) out st) else st),
              tk_config_version := to_int32 (tk_config_version t + 1),
              tk_config_update_count := to_int32 (tk_config_update_count t + 1),
              tk_last_config_update_ms := now,
              tk_observability := reload_observability db now body (tk_observability t)\<rparr>"
proof -
  let ?c = "reload_values body (tk_cfg t)"
  let ?p = "if contains body ''model_profiles''
    then build_model_profiles_from_config body (cf_model ?c) else (None, cf_model_profiles ?c)"
  obtain err profiles where p: "?p = (err, profiles)" by (cases ?p)
  obtain re st where e: "reload_endpoints body ?c t = (re, st)" by (cases "reload_endpoints body ?c t")
  have ext: "extends_heap (tk_store t) st"
    using reload_endpoints_extends [of t body ?c] by (simp add: e)
  have same: "t = t\<lparr>tk_store := tk_store t\<rparr>" by simp
  show ?thesis
  proof (cases "is_object body \<and> validate_static_reload_fields body (tk_cfg t) = None \<and> err = None \<and> \<not> isl re")
    case True
    then obtain base_url out where re: "re = Inr (base_url, out)" by (cases re) auto
    show ?thesis
      using assms True p e re unfolding reload_config_def Let_def
      by (intro committed [of base_url out st profiles];
          cases "has_endpoint_reload_config body"; clarsimp simp: case_prod_beta)
  next
    case False
    then consider "\<not> is_object body" | e where "validate_static_reload_fields body (tk_cfg t) = Some e"
      | e where "err = Some e" | e where "re = Inl e" by (cases re) auto
    then have "(\<exists>e. r = Inl e) \<and> (t' = t \<or> t' = t\<lparr>tk_store := st\<rparr>)"
      using assms p e unfolding reload_config_def Let_def
      by cases (auto split: if_split_asm option.split_asm sum.split_asm)
    then show ?thesis using ext same extends_heap_refl fail by metis
  qed
qed

lemma reload_values_static:
  "cf_model (reload_values body c) = cf_model c"
  "cf_response_format (reload_values body c) = cf_response_format c"
  "cf_endpoint (reload_values body c) = cf_endpoint c"
  "cf_worker_count (reload_values body c) = cf_worker_count c"
  "cf_mock_mode (reload_values body c) = cf_mock_mode c"
  "cf_max_task_records (reload_values body c) = cf_max_task_records c"
  by (simp_all add: reload_values_def Let_def)

lemma reload_values_ranges:
  "0 \<le> cf_max_queue_size (reload_values body c)"
  "1 \<le> cf_unhealthy_threshold (reload_values body c)"
  "1 \<le> cf_recovery_threshold (reload_values body c)"
  "1 \<le> cf_circuit_failure_threshold (reload_values body c)"
  "1 \<le> cf_circuit_open_ms (reload_values body c)"
  by (simp_all add: reload_values_def Let_def)

lemma reload_endpoints_out_ok:
  assumes "reload_endpoints body c t = (Inr (url, out), st)" and "has_endpoint_reload_config body"
  shows "new_out_ok out st \<and> out \<noteq> []"
  using assms build_endpoints_new_out_ok
  by (auto simp: reload_endpoints_def Let_def split: sum.splits prod.splits)

lemma committed_values:
  assumes "addrs_ok st old" and "new_out_ok out st"
    and "a \<in> set (fst (commit_reloaded_endpoints_locked old out st))"
  obtains c where "c \<in> set out" "es_get (snd (commit_reloaded_endpoints_locked old out st)) a =
    committed_endpoint st (old_by_key st old) c"
proof -
  note heap = commit_heap [of st out old]
  have ok: "addrs_ok st out" using assms(2) by (simp add: new_out_ok_def)
  obtain i where i: "i < length out" "a = length (es_heap st) + i"
    using assms(3) heap(1) [OF ok assms(1)] by (auto simp: less_diff_conv2 dest!: le_Suc_ex)
  then have "es_get (snd (commit_reloaded_endpoints_locked old out st)) a =
      committed_endpoint st (old_by_key st old) (out ! i)"
    by (simp add: es_get_def heap(2) [OF ok assms(1)] nth_append)
  then show ?thesis using that i(1) nth_mem by blast
qed

lemma committed_endpoint_zero:
  assumes "new_out_ok out st" and "c \<in> set out"
  shows "ep_inflight (committed_endpoint st olds c) = 0"
    and "ep_half_open_inflight (committed_endpoint st olds c) = 0"
    and "1 \<le> ep_max_concurrency (committed_endpoint st olds c)"
    and "endpoint_runtime_key (committed_endpoint st olds c) = endpoint_runtime_key (es_get st c)"
  using assms
  by (auto simp: committed_endpoint_def new_out_ok_def copy_runtime_same Let_def
      copy_endpoint_runtime_fields_def endpoint_runtime_key_def split: option.splits)

lemma commit_old_values:
  assumes "addrs_ok st old" and "new_out_ok out st" and "a < length (es_heap st)"
  shows "es_get (snd (commit_reloaded_endpoints_locked old out st)) a = es_get st a"
  using assms commit_heap(2) [of st out old] by (simp add: new_out_ok_def es_get_def nth_append)

lemma committed_runtime_of_old:
  assumes ext: "extends_heap s0 st" and ok: "addrs_ok s0 old"
    and k: "endpoint_runtime_key (es_get st c) \<in> endpoint_runtime_key ` es_get s0 ` set old"
  shows "\<exists>b \<in> set old. endpoint_runtime_key (es_get s0 b) = endpoint_runtime_key (es_get st c) \<and>
    same_runtime (committed_endpoint st (old_by_key st old) c) (es_get s0 b)"
proof -
  have eq: "es_get st b = es_get s0 b" if "b \<in> set old" for b
    using that ext ok by (simp add: extends_heap_def addrs_ok_def)
  obtain b0 where "b0 \<in> set old"
    "endpoint_runtime_key (es_get st b0) = endpoint_runtime_key (es_get st c)"
    using k eq by (metis (no_types, lifting) imageE)
  from committed_endpoint_runtime [OF this] obtain b where "b \<in> set old"
    "endpoint_runtime_key (es_get st b) = endpoint_runtime_key (es_get st c)"
    "committed_endpoint st (old_by_key st old) c = copy_endpoint_runtime_fields (es_get st c) (es_get st b)"
    by blast
  then show ?thesis using eq copy_runtime_same(1) by metis
qed

lemma reload_commits:
  assumes "reload_config db now body t = (Inr (), t')" and "has_endpoint_reload_config body"
    and "addrs_ok (tk_store t) (tk_endpoints t)"
  obtains out st where "extends_heap (tk_store t) st" "addrs_ok st (tk_endpoints t)"
    "new_out_ok out st" "out \<noteq> []"
    "tk_endpoints t' = fst (commit_reloaded_endpoints_locked (tk_endpoints t) out st)"
    "tk_store t' = snd (commit_reloaded_endpoints_locked (tk_endpoints t) out st)"
  using assms(1)
proof (cases rule: reload_config_cases)
  case (committed url out st profiles)
  have ext: "extends_heap (tk_store t) st"
    using reload_endpoints_extends [of t body] committed(3) by (metis snd_conv)
  then have "addrs_ok st (tk_endpoints t)"
    using assms(3) by (auto simp: addrs_ok_def extends_heap_def)
  moreover have "new_out_ok out st" "out \<noteq> []"
    using reload_endpoints_out_ok [OF committed(3) assms(2)] by simp_all
  ultimately show ?thesis using that [OF ext] committed(4) assms(2) by simp
qed simp

lemma built_inv_inj:
  "built_inv out st \<Longrightarrow> \<forall>a \<in> set out. \<forall>b \<in> set out.
     endpoint_runtime_key (es_get st a) = endpoint_runtime_key (es_get st b) \<longrightarrow> a = b"
  unfolding built_inv_def by (metis option.inject)

lemma load_model_builds:
  assumes "load_model db getenv alive now body t = (r, t')" and "store_ok (tk_store t)" and "r \<noteq> -1"
  shows "r = 0 \<and> tk_status t' = TS_Ready \<and> cf_model (tk_cfg t') \<noteq> [] \<and>
    cf_fallback_chain (tk_cfg t') \<noteq> [] \<and> built_inv (tk_endpoints t') (tk_store t') \<and>
    tk_endpoints t' \<noteq> [] \<and>
    (cf_mock_mode (tk_cfg t') \<or> (\<forall>a \<in> set (tk_endpoints t'). ep_base_url (es_get (tk_store t') a) \<noteq> []))"
proof -
  define t0 where "t0 = t\<lparr>tk_status := TS_Starting\<rparr>"
  obtain failed t1 where p: "parse_config db getenv alive now body t0 = (failed, t1)"
    by (cases "parse_config db getenv alive now body t0")
  have l: "\<not> failed" "r = 0" "t' = t1\<lparr>tk_status := TS_Ready\<rparr>"
    using assms(1,3) p by (auto simp: load_model_def Let_def t0_def split: if_splits)
  define c where "c = (let c = parse_config_values getenv body (tk_cfg t0) in
    c\<lparr>cf_endpoint := with_leading_slash (cf_endpoint c), cf_base_url := trim_right_slash (cf_base_url c),
      cf_model_profiles := snd (build_model_profiles_from_config body (cf_model c))\<rparr>)"
  obtain out st where b: "build_endpoints_from_config (\<lambda>a. alive a \<or> a \<in> set (tk_endpoints t0)) body
      (cf_model c) (cf_base_url c) (cf_api_key c) (cf_mock_mode c) True False (tk_store t0) = (Inr out, st)"
    and t1: "tk_endpoints t1 = out" "tk_store t1 = st" "cf_model (tk_cfg t1) = cf_model c"
      "cf_mock_mode (tk_cfg t1) = cf_mock_mode c" "cf_model c \<noteq> []" "cf_fallback_chain (tk_cfg t1) \<noteq> []"
    using p l(1) unfolding parse_config_def Let_def c_def
    by (auto simp: fill_chain_nonempty split: if_splits prod.splits option.splits sum.splits)
  from build_endpoints_shared [OF _ b] assms(2) show ?thesis
    using l t1 by (simp add: t0_def)
qed

section \<open>Properties\<close>

text \<open>
  C13. A rejected \<^verbatim>\<open>reload_config\<close> changes nothing a request can observe: the task is the same
  except that unreferenced endpoint objects may have been allocated; every existing endpoint
  object and the table of shared endpoints are as before.
\<close>
theorem reload_rejected_unchanged:
  assumes "reload_config db now body t = (Inl e, t')"
  shows "t' = t\<lparr>tk_store := tk_store t'\<rparr> \<and> es_global (tk_store t') = es_global (tk_store t) \<and>
    (\<forall>a < length (es_heap (tk_store t)). es_get (tk_store t') a = es_get (tk_store t) a)"
  using assms by (cases rule: reload_config_cases) (auto simp: extends_heap_def)

theorem reload_rejected_unchanged_witness:
  "fst (reload_config sample_tsdb 7 (JObj [(''mock'', JBool True)]) sample_task) =
     Inl ''mock mode cannot be changed by reload_config'' \<and>
   es_global (tk_store (snd (reload_config sample_tsdb 7 (JObj [(''mock'', JBool True)]) sample_task)))
     = es_global (tk_store sample_task)"
proof -
  let ?r = "reload_config sample_tsdb 7 (JObj [(''mock'', JBool True)]) sample_task"
  have f: "fst ?r = Inl ''mock mode cannot be changed by reload_config''" by code_simp
  then have "?r = (Inl ''mock mode cannot be changed by reload_config'', snd ?r)"
    by (metis prod.collapse)
  from reload_rejected_unchanged [OF this] f show ?thesis by blast
qed

text \<open>
  C24. An accepted \<^verbatim>\<open>reload_config\<close> raises the configuration version and the update count by one
  (modulo the width of the counters), keeps model, response format, request path, worker count,
  mock mode, the queue, the records and the metrics, and leaves thresholds that are positive and
  a queue limit that is not negative.
\<close>
theorem reload_accepted_effect:
  assumes "reload_config db now body t = (Inr (), t')"
  shows "tk_config_version t' = to_int32 (tk_config_version t + 1) \<and>
    tk_config_update_count t' = to_int32 (tk_config_update_count t + 1) \<and>
    cf_model (tk_cfg t') = cf_model (tk_cfg t) \<and>
    cf_response_format (tk_cfg t') = cf_response_format (tk_cfg t) \<and>
    cf_endpoint (tk_cfg t') = cf_endpoint (tk_cfg t) \<and>
    cf_worker_count (tk_cfg t') = cf_worker_count (tk_cfg t) \<and>
    cf_mock_mode (tk_cfg t') = cf_mock_mode (tk_cfg t) \<and>
    tk_pending t' = tk_pending t \<and> tk_records t' = tk_records t \<and> tk_metrics t' = tk_metrics t \<and>
    cf_fallback_chain (tk_cfg t') \<noteq> [] \<and> 0 \<le> cf_max_queue_size (tk_cfg t') \<and>
    1 \<le> cf_unhealthy_threshold (tk_cfg t') \<and> 1 \<le> cf_recovery_threshold (tk_cfg t') \<and>
    1 \<le> cf_circuit_failure_threshold (tk_cfg t') \<and> 1 \<le> cf_circuit_open_ms (tk_cfg t')"
  using assms
  by (cases rule: reload_config_cases)
    (simp_all add: reload_values_static reload_values_ranges fill_chain_nonempty)

theorem reload_accepted_effect_witness:
  "tk_config_version (snd (reload_config sample_tsdb 7 sample_reload sample_task)) =
     to_int32 (tk_config_version sample_task + 1)"
proof -
  let ?r = "reload_config sample_tsdb 7 sample_reload sample_task"
  have "fst ?r = Inr ()" by code_simp
  then have "?r = (Inr (), snd ?r)" by (metis prod.collapse)
  from reload_accepted_effect [OF this] show ?thesis by blast
qed

text \<open>
  C25. A reload that replaces the endpoints publishes new objects and never touches the old ones,
  on which calls may be in flight. A new endpoint with the backend key of an old one starts with
  that endpoint's health, circuit state, latency average and counters; it starts with no call in
  flight.
\<close>
theorem reload_keeps_runtime:
  assumes "reload_config db now body t = (Inr (), t')" and "has_endpoint_reload_config body"
    and "addrs_ok (tk_store t) (tk_endpoints t)"
  shows "tk_endpoints t' \<noteq> [] \<and>
    (\<forall>a < length (es_heap (tk_store t)). es_get (tk_store t') a = es_get (tk_store t) a) \<and>
    (\<forall>a \<in> set (tk_endpoints t'). a \<notin> set (tk_endpoints t) \<and>
       ep_inflight (es_get (tk_store t') a) = 0 \<and> ep_half_open_inflight (es_get (tk_store t') a) = 0 \<and>
       1 \<le> ep_max_concurrency (es_get (tk_store t') a) \<and>
       (endpoint_runtime_key (es_get (tk_store t') a)
          \<in> endpoint_runtime_key ` es_get (tk_store t) ` set (tk_endpoints t) \<longrightarrow>
        (\<exists>b \<in> set (tk_endpoints t).
           endpoint_runtime_key (es_get (tk_store t) b) = endpoint_runtime_key (es_get (tk_store t') a) \<and>
           same_runtime (es_get (tk_store t') a) (es_get (tk_store t) b))))"
proof -
  let ?old = "tk_endpoints t"
  obtain out st where ext: "extends_heap (tk_store t) st" and aok: "addrs_ok st ?old"
    and out: "new_out_ok out st" "out \<noteq> []"
    and eps: "tk_endpoints t' = fst (commit_reloaded_endpoints_locked ?old out st)"
    and sto: "tk_store t' = snd (commit_reloaded_endpoints_locked ?old out st)"
    by (rule reload_commits [OF assms])
  have fresh: "tk_endpoints t' = [length (es_heap st) ..< length (es_heap st) + length out]"
    using commit_heap(1) [OF _ aok] out(1) by (simp add: eps new_out_ok_def)
  have "a \<notin> set ?old" if "a \<in> set (tk_endpoints t')" for a
    using that fresh aok by (auto simp: addrs_ok_def)
  moreover have "\<exists>c \<in> set out. es_get (tk_store t') a = committed_endpoint st (old_by_key st ?old) c"
    if "a \<in> set (tk_endpoints t')" for a
    using committed_values [OF aok out(1), of a] that by (metis eps sto)
  moreover have "tk_endpoints t' \<noteq> []" using fresh out(2) by simp
  moreover have "es_get (tk_store t') a = es_get (tk_store t) a" if "a < length (es_heap (tk_store t))" for a
    using commit_old_values [OF aok out(1), of a] that ext by (simp add: sto extends_heap_def)
  ultimately show ?thesis
    using committed_runtime_of_old [OF ext assms(3)] committed_endpoint_zero [OF out(1)]
    by (metis (no_types, lifting))
qed

theorem reload_keeps_runtime_witness:
  "tk_endpoints (snd (reload_config sample_tsdb 7 sample_reload sample_task)) \<noteq> []"
proof -
  let ?r = "reload_config sample_tsdb 7 sample_reload sample_task"
  have "fst ?r = Inr ()" by code_simp
  then have "?r = (Inr (), snd ?r)" by (metis prod.collapse)
  moreover have "has_endpoint_reload_config sample_reload" by code_simp
  moreover have "addrs_ok (tk_store sample_task) (tk_endpoints sample_task)" by code_simp
  ultimately show ?thesis using reload_keeps_runtime by blast
qed

text \<open>
  C26. A model that loads is ready to serve: the status is ready, the endpoint list and the
  fallback chain are not empty, every endpoint admits at least one call, outside mock mode every
  endpoint has a base URL, and endpoints with the same backend key are one shared object, the one
  the table of shared endpoints names. A load that fails returns -1 with the status failed.
\<close>
theorem load_model_ready:
  assumes "load_model db getenv alive now body t = (r, t')" and "store_ok (tk_store t)"
  shows "(r = 0 \<and> tk_status t' = TS_Ready \<and> cf_model (tk_cfg t') \<noteq> [] \<and>
      tk_endpoints t' \<noteq> [] \<and> cf_fallback_chain (tk_cfg t') \<noteq> [] \<and>
      store_ok (tk_store t') \<and> addrs_ok (tk_store t') (tk_endpoints t') \<and>
      (\<forall>a \<in> set (tk_endpoints t'). 1 \<le> ep_max_concurrency (es_get (tk_store t') a)) \<and>
      (cf_mock_mode (tk_cfg t') \<or> (\<forall>a \<in> set (tk_endpoints t'). ep_base_url (es_get (tk_store t') a) \<noteq> [])) \<and>
      (\<forall>a \<in> set (tk_endpoints t'). \<forall>b \<in> set (tk_endpoints t').
         endpoint_runtime_key (es_get (tk_store t') a) = endpoint_runtime_key (es_get (tk_store t') b)
         \<longrightarrow> a = b)) \<or>
    (r = -1 \<and> tk_status t' = TS_Failed)"
proof (cases "r = -1")
  case True
  then show ?thesis using assms(1) by (auto simp: load_model_def Let_def split: prod.splits if_splits)
next
  case False
  note b = load_model_builds [OF assms False]
  then have "built_inv (tk_endpoints t') (tk_store t')" by simp
  from b built_inv_inj [OF this] this show ?thesis by (simp add: built_inv_def)
qed

theorem load_model_ready_witness:
  "fst (load_model sample_tsdb (\<lambda>_. []) (\<lambda>_. False) 0 sample_config (new_task ''vllm.1000'' empty_store)) = 0 \<and>
   tk_status (snd (load_model sample_tsdb (\<lambda>_. []) (\<lambda>_. False) 0 sample_config
     (new_task ''vllm.1000'' empty_store))) = TS_Ready"
proof -
  let ?r = "load_model sample_tsdb (\<lambda>_. []) (\<lambda>_. False) 0 sample_config (new_task ''vllm.1000'' empty_store)"
  have "fst ?r = 0" by code_simp
  moreover have "store_ok (tk_store (new_task ''vllm.1000'' empty_store))"
    by (simp add: new_task_def store_ok_empty)
  ultimately show ?thesis
    using load_model_ready [of sample_tsdb "\<lambda>_. []" "\<lambda>_. False" 0 sample_config
      "new_task ''vllm.1000'' empty_store" 0 "snd ?r"] by (metis prod.collapse zero_neq_neg_one)
qed

end
