(* ===== verification/Request_Queue.thy ===== *)
theory Request_Queue
  imports Sched_Config
begin

text \<open>
  The request queue of \<^verbatim>\<open>vllm_task\<close> in \<^verbatim>\<open>node/vllm-client/src/main.cpp\<close>: how a request is built from
  a message and its model profile, the admission policy of \<^verbatim>\<open>inference\<close>, the priority classes and
  the 5/3/1 schedule of \<^verbatim>\<open>pop_next_request\<close>, the request records and the emitted messages.

  A section the source runs under one mutex is one function. An iterator into the queue is an
  index. \<^verbatim>\<open>pop_next_request\<close> blocks on its condition variable while the queue is empty and the task
  is not stopping; that outcome is \<open>PopBlocked\<close>. The counter of task ids and the configuration
  counters are atomics of 32 bits and wrap; other signed arithmetic of the source is exact here
  (its overflow is undefined in C++).
\<close>

section \<open>Emitted messages\<close>

definition emit :: "out_message \<Rightarrow> vllm_task \<Rightarrow> vllm_task" where
  "emit m t = t\<lparr>tk_out := tk_out t @ [m]\<rparr>"

definition emit_text :: "InferenceRequest \<Rightarrow> string \<Rightarrow> vllm_task \<Rightarrow> vllm_task" where
  "emit_text req txt t =
     (if \<not> rq_enoutput req \<or> \<not> tk_out_callback t then t
      else emit \<lparr>msg_request_id = rq_request_id req, msg_work_id = rq_work_id req,
                 msg_output_url = rq_output_url req, msg_object = rq_response_format req,
                 msg_data = JStr txt, msg_error_code = 0, msg_error_message = []\<rparr> t)"

definition delta_body :: "InferenceRequest \<Rightarrow> string \<Rightarrow> bool \<Rightarrow> int \<Rightarrow> json" where
  "delta_body req delta finish index =
     JObj ([(''index'', JInt index), (''delta'', JStr (if finish then [] else delta)),
            (''finish'', JBool finish), (''action'', JStr (rq_action req)),
            (''profile_name'', JStr (rq_profile_name req)),
            (''model'', JStr (rq_logical_model req)),
            (''served_model'', JStr (if rq_served_model req = [] then rq_logical_model req
                                    else rq_served_model req)),
            (''endpoint'', JStr (rq_endpoint_name req)), (''degraded'', JBool (rq_degraded req))] @
           (if finish then
              [(''queue_wait_ms'', JInt (rq_queue_wait_ms req)),
               (''first_token_latency_ms'', JInt (rq_first_token_latency_ms req)),
               (''total_latency_ms'', JInt (rq_total_latency_ms req)),
               (''retry_count'', JInt (rq_retry_count req))] else []) @
           (if rq_degrade_reason req \<noteq> [] then [(''degrade_reason'', JStr (rq_degrade_reason req))]
            else []))"

definition emit_delta :: "InferenceRequest \<Rightarrow> string \<Rightarrow> bool \<Rightarrow> int \<Rightarrow> vllm_task \<Rightarrow> vllm_task" where
  "emit_delta req delta finish index t =
     (if \<not> rq_enoutput req \<or> \<not> tk_out_callback t then t
      else emit \<lparr>msg_request_id = rq_request_id req, msg_work_id = rq_work_id req,
                 msg_output_url = rq_output_url req, msg_object = rq_response_format req,
                 msg_data = delta_body req delta finish index, msg_error_code = 0,
                 msg_error_message = []\<rparr> t)"

definition error_message :: "InferenceRequest \<Rightarrow> int \<Rightarrow> string \<Rightarrow> out_message" where
  "error_message req code message =
     \<lparr>msg_request_id = rq_request_id req, msg_work_id = rq_work_id req,
      msg_output_url = rq_output_url req, msg_object = ''None'', msg_data = JStr ''None'',
      msg_error_code = code, msg_error_message = message\<rparr>"

definition emit_error :: "InferenceRequest \<Rightarrow> int \<Rightarrow> string \<Rightarrow> vllm_task \<Rightarrow> vllm_task" where
  "emit_error req code message t =
     (if \<not> tk_out_callback t then t else emit (error_message req code message) t)"

section \<open>Building a request\<close>

definition request_action :: "SchedConfig \<Rightarrow> string \<Rightarrow> json \<Rightarrow> string \<Rightarrow> string" where
  "request_action c object meta fallback_action =
     (let action = json_string_value meta ''action'' []
      in if action \<noteq> [] then action
         else if str_contains ''summary'' object then ''summary''
         else if str_contains ''rewrite'' object then ''rewrite''
         else if str_contains ''code'' object \<or> str_contains ''debug'' object then ''code''
         else if str_contains ''qa'' object then ''qa''
         else if fallback_action = [] then cf_default_action c else fallback_action)"

definition find_profile_for_action :: "SchedConfig \<Rightarrow> string \<Rightarrow> ModelProfile option" where
  "find_profile_for_action c action =
     (if action = [] then None
      else List.find (\<lambda>p. mp_name p = action \<or> string_in_vector (mp_actions p) action)
             (cf_model_profiles c))"

definition apply_profile_to_request ::
  "SchedConfig \<Rightarrow> json \<Rightarrow> InferenceRequest \<Rightarrow> InferenceRequest" where
  "apply_profile_to_request c meta req =
     (let requested_model = json_string_value meta ''model'' [];
          pick = (\<lambda>f bad d. case find_profile_for_action c (rq_action req) of
                    None \<Rightarrow> d | Some p \<Rightarrow> if bad (f p) then d else f p);
          logical = (case find_profile_for_action c (rq_action req) of
                       None \<Rightarrow> if requested_model = [] then cf_model c else requested_model
                     | Some p \<Rightarrow> mp_primary_model p);
          chain = (case find_profile_for_action c (rq_action req) of
                     Some p \<Rightarrow> fold (\<lambda>m ch. push_unique ch m) (mp_fallback_models p)
                                 [mp_primary_model p]
                   | None \<Rightarrow>
                       if requested_model \<noteq> [] \<and> \<not> string_in_vector (cf_fallback_chain c) requested_model
                       then requested_model # cf_fallback_chain c else cf_fallback_chain c);
          chain = (if chain = [] then [logical] else chain);
          allow = (cf_allow_model_fallback c \<and>
                   (case find_profile_for_action c (rq_action req) of
                      None \<Rightarrow> True | Some p \<Rightarrow> mp_allow_model_fallback p))
      in req\<lparr>rq_profile_name := (case find_profile_for_action c (rq_action req) of
                None \<Rightarrow> ''default'' | Some p \<Rightarrow> mp_name p),
             rq_logical_model := logical,
             rq_fallback_chain := chain,
             rq_priority := json_int_value meta ''priority''
               (pick mp_default_priority (\<lambda>v. v < 0) (cf_default_priority c)),
             rq_timeout_ms := json_int_value meta ''timeout_ms''
               (pick mp_default_timeout_ms (\<lambda>v. v \<le> 0) (cf_timeout_ms c)),
             rq_deadline_ms := json_int_value meta ''deadline_ms''
               (pick mp_default_deadline_ms (\<lambda>v. v \<le> 0) (cf_deadline_ms c)),
             rq_max_retries := json_int_value meta ''max_retries'' (cf_max_retries c),
             rq_max_tokens := json_int_value meta ''max_tokens''
               (json_int_value meta ''max_token_len''
                 (pick mp_default_max_tokens (\<lambda>v. v \<le> 0) (cf_max_tokens c))),
             rq_allow_degrade := json_bool_value meta ''allow_model_fallback''
               (json_bool_value meta ''allow_degrade'' allow)\<rparr>)"

definition make_request ::
  "vllm_task \<Rightarrow> int \<Rightarrow> string \<Rightarrow> string \<Rightarrow> string \<Rightarrow> string \<Rightarrow> string \<Rightarrow> json \<Rightarrow> RequestOptions
     \<Rightarrow> InferenceRequest" where
  "make_request t now request_id work_id output_url object prompt meta options =
     (let c = tk_cfg t;
          response_format = json_string_value meta ''response_format''
            (if ro_response_format options = [] then cf_response_format c
             else ro_response_format options);
          default_action = json_string_value meta ''default_action''
            (if ro_default_action options = [] then cf_default_action c
             else ro_default_action options);
          req = new_request\<lparr>
            rq_task_id := to_int32 (tk_task_id_counter t + 1),
            rq_request_id := request_id, rq_work_id := work_id, rq_output_url := output_url,
            rq_object := object, rq_prompt := prompt,
            rq_system_prompt := json_string_value meta ''prompt''
              (if ro_system_prompt options = [] then cf_prompt c else ro_system_prompt options),
            rq_response_format := response_format,
            rq_session_default_action := default_action,
            rq_enoutput := json_bool_value meta ''enoutput'' (ro_enoutput options),
            rq_enstream := json_bool_value meta ''stream''
              (json_bool_value meta ''enstream'' (str_contains ''stream'' response_format)),
            rq_action := request_action c object meta default_action\<rparr>;
          req = apply_profile_to_request c meta req
      in req\<lparr>rq_created_ms := now, rq_deadline_at_ms := now + rq_deadline_ms req\<rparr>)"

section \<open>Records\<close>

definition record_of_request :: "InferenceRequest \<Rightarrow> RequestRecord" where
  "record_of_request req =
     new_record\<lparr>rr_task_id := rq_task_id req, rr_request_id := rq_request_id req,
                rr_work_id := rq_work_id req, rr_action := rq_action req,
                rr_profile_name := rq_profile_name req, rr_logical_model := rq_logical_model req,
                rr_priority := rq_priority req, rr_status := RS_Pending,
                rr_created_ms := rq_created_ms req\<rparr>"

definition record_pending :: "InferenceRequest \<Rightarrow> vllm_task \<Rightarrow> vllm_task" where
  "record_pending req t =
     t\<lparr>tk_records := keep_last (cf_max_task_records (tk_cfg t))
         (tk_records t @ [record_of_request req])\<rparr>"

definition fill_record :: "InferenceRequest \<Rightarrow> RequestStatus \<Rightarrow> string \<Rightarrow> RequestRecord \<Rightarrow> RequestRecord" where
  "fill_record req status err r =
     r\<lparr>rr_action := rq_action req, rr_profile_name := rq_profile_name req,
       rr_logical_model := rq_logical_model req, rr_served_model := rq_served_model req,
       rr_endpoint_name := rq_endpoint_name req, rr_status := status,
       rr_priority := rq_priority req, rr_retry_count := rq_retry_count req,
       rr_degraded := rq_degraded req, rr_error_message := err,
       rr_started_ms := rq_started_ms req, rr_finished_ms := rq_finished_ms req,
       rr_queue_wait_ms := rq_queue_wait_ms req,
       rr_first_token_latency_ms := rq_first_token_latency_ms req,
       rr_total_latency_ms := rq_total_latency_ms req\<rparr>"

text \<open>The search runs from the newest record and stops at the first match.\<close>

definition update_record ::
  "InferenceRequest \<Rightarrow> RequestStatus \<Rightarrow> string \<Rightarrow> vllm_task \<Rightarrow> vllm_task" where
  "update_record req status err t =
     t\<lparr>tk_records := rev (update_first (\<lambda>r. rr_task_id r = rq_task_id req)
         (fill_record req status err) (rev (tk_records t)))\<rparr>"

definition observe_request_metrics ::
  "InferenceRequest \<Rightarrow> bool \<Rightarrow> bool \<Rightarrow> int \<Rightarrow> vllm_task \<Rightarrow> vllm_task" where
  "observe_request_metrics req ok timeout error_code t =
     t\<lparr>tk_observability := observe_request_finish
         \<lparr>re_action = rq_action req, re_endpoint = rq_endpoint_name req, re_ok = ok,
          re_timeout = timeout, re_degraded = rq_degraded req, re_error_code = error_code,
          re_total_latency_ms = rq_total_latency_ms req,
          re_queue_wait_ms = rq_queue_wait_ms req,
          re_first_token_latency_ms = rq_first_token_latency_ms req\<rparr> (tk_observability t)\<rparr>"

section \<open>Admission\<close>

definition priority_class :: "int \<Rightarrow> int \<Rightarrow> nat" where
  "priority_class priority high_priority_threshold =
     (if high_priority_threshold \<le> priority then 0 else if 4 \<le> priority then 1 else 2)"

definition class_count :: "nat \<Rightarrow> int \<Rightarrow> InferenceRequest list \<Rightarrow> nat" where
  "class_count k high pending = length (filter (\<lambda>r. priority_class (rq_priority r) high = k) pending)"

definition queue_metrics_locked :: "int \<Rightarrow> int \<Rightarrow> InferenceRequest list \<Rightarrow> QueueMetricsEvent" where
  "queue_metrics_locked max_queue_size high pending =
     \<lparr>qe_pending = int (class_count 0 high pending) + int (class_count 1 high pending)
        + int (class_count 2 high pending),
      qe_high = int (class_count 0 high pending), qe_normal = int (class_count 1 high pending),
      qe_background = int (class_count 2 high pending), qe_max_queue_size = max_queue_size\<rparr>"

definition overload_threshold :: "SchedConfig \<Rightarrow> int" where
  "overload_threshold c =
     (if 0 < cf_max_queue_size c then cf_max_queue_size c * 9 sdiv 10 else 0)"

text \<open>The decision of \<^verbatim>\<open>inference\<close> under the queue lock: none to admit, or the error.\<close>

definition admission :: "SchedConfig \<Rightarrow> int \<Rightarrow> int \<Rightarrow> (int \<times> string) option" where
  "admission c queue_size priority =
     (if 0 < cf_max_queue_size c \<and> cf_max_queue_size c \<le> queue_size
      then Some (-40, ''task queue full'')
      else if 0 < overload_threshold c \<and> overload_threshold c \<le> queue_size \<and>
              priority < cf_high_priority_threshold c
      then Some (-43, ''task queue is overloaded'')
      else if 0 < cf_low_priority_drop_threshold c \<and>
              cf_low_priority_drop_threshold c \<le> queue_size \<and> priority < 4
      then Some (-43, ''background task rejected under queue pressure'')
      else None)"

definition observe_queue :: "vllm_task \<Rightarrow> vllm_task" where
  "observe_queue t =
     t\<lparr>tk_observability := observe_queue_snapshot
         (queue_metrics_locked (cf_max_queue_size (tk_cfg t)) (cf_high_priority_threshold (tk_cfg t))
            (tk_pending t)) (tk_observability t)\<rparr>"

definition enqueue_request :: "InferenceRequest \<Rightarrow> vllm_task \<Rightarrow> vllm_task" where
  "enqueue_request req t =
     (case admission (tk_cfg t) (int (length (tk_pending t))) (rq_priority req) of
        Some (code, msg) \<Rightarrow>
          (let t = t\<lparr>tk_metrics := on_queue_reject (tk_metrics t),
                     tk_observability := observe_queue_reject (rq_action req) (tk_observability t)\<rparr>
           in emit_error req code msg (observe_queue t))
      | None \<Rightarrow>
          (let t = t\<lparr>tk_pending := tk_pending t @ [req]\<rparr>;
               t = t\<lparr>tk_metrics := on_request_accepted (rq_created_ms req) (tk_metrics t)\<rparr>
           in observe_queue (record_pending req t)))"

definition inference ::
  "int \<Rightarrow> string \<Rightarrow> string \<Rightarrow> string \<Rightarrow> string \<Rightarrow> string \<Rightarrow> json \<Rightarrow> RequestOptions \<Rightarrow> vllm_task
     \<Rightarrow> vllm_task" where
  "inference now request_id work_id output_url object prompt meta options t =
     enqueue_request (make_request t now request_id work_id output_url object prompt meta options)
       (t\<lparr>tk_task_id_counter := to_int32 (tk_task_id_counter t + 1)\<rparr>)"

section \<open>Scheduling\<close>

definition better_request :: "InferenceRequest \<Rightarrow> InferenceRequest \<Rightarrow> bool" where
  "better_request r b \<longleftrightarrow> rq_priority b < rq_priority r \<or>
     (rq_priority r = rq_priority b \<and> rq_task_id r < rq_task_id b)"

fun find_best_loop ::
  "nat \<Rightarrow> int \<Rightarrow> (nat \<times> InferenceRequest) option \<Rightarrow> nat \<Rightarrow> InferenceRequest list
     \<Rightarrow> (nat \<times> InferenceRequest) option" where
  "find_best_loop target_class high best i [] = best"
| "find_best_loop target_class high best i (r # rs) =
     find_best_loop target_class high
       (if priority_class (rq_priority r) high \<noteq> target_class then best
        else case best of
               None \<Rightarrow> Some (i, r)
             | Some (j, b) \<Rightarrow> if better_request r b then Some (i, r) else best)
       (Suc i) rs"

definition find_best_request_in_class_locked ::
  "nat \<Rightarrow> int \<Rightarrow> InferenceRequest list \<Rightarrow> nat option" where
  "find_best_request_in_class_locked target_class high pending =
     map_option fst (find_best_loop target_class high None 0 pending)"

definition kSchedule :: "nat list" where
  "kSchedule = [0, 0, 0, 0, 0, 1, 1, 1, 2]"

fun schedule_loop :: "nat \<Rightarrow> int \<Rightarrow> int \<Rightarrow> InferenceRequest list \<Rightarrow> nat option \<times> int" where
  "schedule_loop 0 high slot pending = (None, slot)"
| "schedule_loop (Suc n) high slot pending =
     (let target_class = kSchedule ! nat (slot mod 9); slot = (slot + 1) mod 9
      in case find_best_request_in_class_locked target_class high pending of
           Some i \<Rightarrow> (Some i, slot)
         | None \<Rightarrow> schedule_loop n high slot pending)"

definition schedule_pick :: "int \<Rightarrow> int \<Rightarrow> InferenceRequest list \<Rightarrow> nat \<times> int" where
  "schedule_pick high slot pending =
     (case schedule_loop 9 high slot pending of
        (Some i, slot) \<Rightarrow> (i, slot)
      | (None, slot) \<Rightarrow> (0, slot))"

datatype pop_result = PopBlocked | PopStopped | PopRequest InferenceRequest

definition pop_next_request :: "vllm_task \<Rightarrow> pop_result \<times> vllm_task" where
  "pop_next_request t =
     (if tk_pending t = [] then (if tk_stopping t then PopStopped else PopBlocked, t)
      else let (i, slot) = schedule_pick (cf_high_priority_threshold (tk_cfg t))
                 (tk_queue_schedule_slot t) (tk_pending t);
               req = tk_pending t ! i;
               t = t\<lparr>tk_queue_schedule_slot := slot, tk_pending := remove_nth i (tk_pending t)\<rparr>
           in (PopRequest req, observe_queue t))"

definition queue_stats :: "vllm_task \<Rightarrow> json" where
  "queue_stats t =
     (let high = class_count 0 (cf_high_priority_threshold (tk_cfg t)) (tk_pending t);
          normal = class_count 1 (cf_high_priority_threshold (tk_cfg t)) (tk_pending t);
          background = class_count 2 (cf_high_priority_threshold (tk_cfg t)) (tk_pending t);
          total' = int high + int normal + int background;
          max_queue_size = cf_max_queue_size (tk_cfg t);
          pressure = (if max_queue_size \<le> 0 \<or> total' < max_queue_size * 6 sdiv 10 then ''normal''
                      else if total' < max_queue_size * 9 sdiv 10 then ''pressure''
                      else if total' < max_queue_size then ''overload'' else ''full'')
      in JObj [(''high'', JInt (int high)), (''normal'', JInt (int normal)),
               (''background'', JInt (int background)), (''total'', JInt total'),
               (''pressure'', JStr pressure)])"

definition pending_count :: "vllm_task \<Rightarrow> int" where
  "pending_count t = int (length (tk_pending t))"

section \<open>Runs of the queue\<close>

datatype queue_op =
    QSubmit int string string string string string json RequestOptions
  | QPop

fun queue_op_step :: "queue_op \<Rightarrow> vllm_task \<Rightarrow> vllm_task" where
  "queue_op_step (QSubmit now rid wid url obj prompt meta opts) t =
     inference now rid wid url obj prompt meta opts t"
| "queue_op_step QPop t = snd (pop_next_request t)"

definition queue_run :: "queue_op list \<Rightarrow> vllm_task \<Rightarrow> vllm_task" where
  "queue_run ops t = fold queue_op_step ops t"

text \<open>The classes of the requests the pops of a run return, and the condition that a request of
  class \<open>k\<close> is pending at each of them.\<close>

fun served_class :: "vllm_task \<Rightarrow> nat list" where
  "served_class t =
     (case fst (pop_next_request t) of
        PopRequest r \<Rightarrow> [priority_class (rq_priority r) (cf_high_priority_threshold (tk_cfg t))]
      | _ \<Rightarrow> [])"

fun served_classes :: "queue_op list \<Rightarrow> vllm_task \<Rightarrow> nat list" where
  "served_classes [] t = []"
| "served_classes (QPop # ops) t =
     served_class t @ served_classes ops (queue_op_step QPop t)"
| "served_classes (op # ops) t = served_classes ops (queue_op_step op t)"

fun always_pending :: "nat \<Rightarrow> queue_op list \<Rightarrow> vllm_task \<Rightarrow> bool" where
  "always_pending k [] t = True"
| "always_pending k (op # ops) t =
     ((op = QPop \<longrightarrow> 0 < class_count k (cf_high_priority_threshold (tk_cfg t)) (tk_pending t)) \<and>
      always_pending k ops (queue_op_step op t))"

definition class_share :: "nat \<Rightarrow> nat" where
  "class_share k = [5, 3, 1] ! k"

definition pending_ok :: "SchedConfig \<Rightarrow> InferenceRequest list \<Rightarrow> bool" where
  "pending_ok c p \<longleftrightarrow>
     (0 < cf_max_queue_size c \<longrightarrow> int (length p) \<le> cf_max_queue_size c) \<and>
     (0 < overload_threshold c \<longrightarrow>
        int (length (filter (\<lambda>r. rq_priority r < cf_high_priority_threshold c) p))
          \<le> overload_threshold c) \<and>
     (0 < cf_low_priority_drop_threshold c \<longrightarrow>
        int (length (filter (\<lambda>r. rq_priority r < 4) p)) \<le> cf_low_priority_drop_threshold c)"

definition queue_inv :: "vllm_task \<Rightarrow> bool" where
  "queue_inv t \<longleftrightarrow> pending_ok (tk_cfg t) (tk_pending t) \<and>
     0 \<le> tk_queue_schedule_slot t \<and> tk_queue_schedule_slot t < 9"

definition sclass :: "nat \<Rightarrow> nat" where
  "sclass pos = kSchedule ! (pos mod 9)"

definition class_slots :: "nat \<Rightarrow> nat \<Rightarrow> nat \<Rightarrow> nat" where
  "class_slots k pos n = length (filter (\<lambda>q. sclass q = k) [pos..<pos + n])"

definition sample_options :: RequestOptions where
  "sample_options = \<lparr>ro_response_format = [], ro_system_prompt = [], ro_default_action = [],
     ro_enoutput = True, ro_enstream = False\<rparr>"

definition sample_submit :: "int \<Rightarrow> queue_op" where
  "sample_submit priority = QSubmit 5 ''r1'' ''vllm.1001'' ''ipc://out'' ''llm.utf-8'' ''hello''
     (JObj [(''priority'', JInt priority)]) sample_options"

section \<open>The best request of a class\<close>

interpretation rq_best: scan_best "\<lambda>x y. better_request (snd x) (snd y)"
  by unfold_locales (auto simp: better_request_def)

lemma find_best_loop_scan:
  "find_best_loop k high b i rs =
     rq_best.scan b (filter (\<lambda>x. priority_class (rq_priority (snd x)) high = k) (enumerate i rs))"
  by (induction rs arbitrary: b i) (auto split: option.splits prod.splits)

lemma find_best_None:
  "find_best_request_in_class_locked k high p = None \<longleftrightarrow> class_count k high p = 0"
proof -
  have "filter (\<lambda>x. priority_class (rq_priority (snd x)) high = k) (enumerate i rs) = [] \<longleftrightarrow>
      filter (\<lambda>r. priority_class (rq_priority r) high = k) rs = []" for i rs
    by (induction rs arbitrary: i) auto
  then show ?thesis
    by (simp add: find_best_request_in_class_locked_def find_best_loop_scan rq_best.scan_Some_iff
        class_count_def)
qed

lemma find_best_Some:
  assumes "find_best_request_in_class_locked k high p = Some i"
  shows "i < length p \<and> priority_class (rq_priority (p ! i)) high = k \<and>
    (\<forall>j < length p. priority_class (rq_priority (p ! j)) high = k \<longrightarrow>
       \<not> better_request (p ! j) (p ! i))"
proof -
  let ?c = "filter (\<lambda>x. priority_class (rq_priority (snd x)) high = k) (enumerate 0 p)"
  obtain r where sc: "rq_best.scan None ?c = Some (i, r)"
    using assms by (auto simp: find_best_request_in_class_locked_def find_best_loop_scan)
  have "(i, r) \<in> set ?c" using rq_best.scan_in [OF sc] by simp
  then have i: "i < length p" "r = p ! i" "priority_class (rq_priority r) high = k"
    by (auto simp: in_set_enumerate_eq)
  have "\<not> better_request (p ! j) r" if "j < length p" "priority_class (rq_priority (p ! j)) high = k" for j
    using rq_best.scan_best [OF sc, of "(j, p ! j)"] that by (simp add: in_set_enumerate_eq)
  with i show ?thesis by simp
qed

section \<open>The schedule\<close>

lemma priority_class_less: "priority_class p high < 3"
  by (simp add: priority_class_def)

lemma schedule_window_facts:
  assumes "k < 3"
  shows "\<exists>d < 9. sclass (pos + d) = k"
    and "length (filter (\<lambda>d. sclass (pos + d) = k) [0..<9]) = class_share k"
proof -
  have all: "list_all (\<lambda>m. list_all (\<lambda>k. list_ex (\<lambda>d. kSchedule ! ((m + d) mod 9) = k) [0..<9] \<and>
      length (filter (\<lambda>d. kSchedule ! ((m + d) mod 9) = k) [0..<9]) = class_share k) [0..<3]) [0..<9]"
    by code_simp
  have m: "pos mod 9 \<in> set [0..<9]" and k: "k \<in> set [0..<3]" using assms by simp_all
  have eq: "sclass (pos + d) = kSchedule ! ((pos mod 9 + d) mod 9)" for d
    by (simp add: sclass_def mod_add_left_eq)
  have "list_ex (\<lambda>d. kSchedule ! ((pos mod 9 + d) mod 9) = k) [0..<9] \<and>
      length (filter (\<lambda>d. kSchedule ! ((pos mod 9 + d) mod 9) = k) [0..<9]) = class_share k"
    using all m k unfolding list_all_iff by blast
  then show "\<exists>d < 9. sclass (pos + d) = k"
    and "length (filter (\<lambda>d. sclass (pos + d) = k) [0..<9]) = class_share k"
    by (auto simp: list_ex_iff eq)
qed

lemma schedule_loop_spec:
  "(\<exists>d < n. schedule_loop n high (int (pos mod 9)) p =
      (find_best_request_in_class_locked (sclass (pos + d)) high p, int ((pos + d + 1) mod 9)) \<and>
     class_count (sclass (pos + d)) high p \<noteq> 0 \<and>
     (\<forall>e < d. class_count (sclass (pos + e)) high p = 0)) \<or>
   (\<forall>d < n. class_count (sclass (pos + d)) high p = 0)"
proof (induction n arbitrary: pos)
  case (Suc n)
  have slot: "(int (pos mod 9) + 1) mod 9 = int (Suc pos mod 9)"
    by (simp add: zmod_int mod_simps add.commute)
  have cls: "kSchedule ! nat (int (pos mod 9) mod 9) = sclass pos" by (simp add: sclass_def)
  show ?case
  proof (cases "class_count (sclass pos) high p = 0")
    case False
    then obtain i where "find_best_request_in_class_locked (sclass pos) high p = Some i"
      using find_best_None by fastforce
    then show ?thesis using False slot cls by (auto simp: Let_def intro!: exI [of _ 0])
  next
    case True
    then have step: "schedule_loop (Suc n) high (int (pos mod 9)) p =
        schedule_loop n high (int (Suc pos mod 9)) p"
      using find_best_None [of "sclass pos" high p] slot cls by (simp add: Let_def)
    from Suc.IH [of "Suc pos"] show ?thesis
    proof (elim disjE exE conjE)
      fix d assume d: "d < n" "schedule_loop n high (int (Suc pos mod 9)) p =
          (find_best_request_in_class_locked (sclass (Suc pos + d)) high p, int ((Suc pos + d + 1) mod 9))"
        "class_count (sclass (Suc pos + d)) high p \<noteq> 0"
        "\<forall>e < d. class_count (sclass (Suc pos + e)) high p = 0"
      have "\<forall>e < Suc d. class_count (sclass (pos + e)) high p = 0"
        using d(4) True by (auto simp: less_Suc_eq_0_disj)
      then show ?thesis using d step by (intro disjI1 exI [of _ "Suc d"]) simp
    next
      assume "\<forall>d < n. class_count (sclass (Suc pos + d)) high p = 0"
      then have "\<forall>d < Suc n. class_count (sclass (pos + d)) high p = 0"
        using True by (auto simp: less_Suc_eq_0_disj)
      then show ?thesis by blast
    qed
  qed
qed simp

text \<open>A non-empty queue always yields a request of the first class of the schedule, from the
  current slot on, that has one; the fallback to the front of the queue is never needed.\<close>

lemma schedule_pick_spec:
  assumes "p \<noteq> []"
  obtains d i where "d < 9" "schedule_pick high (int (pos mod 9)) p = (i, int ((pos + d + 1) mod 9))"
    "find_best_request_in_class_locked (sclass (pos + d)) high p = Some i"
    "\<forall>e < d. class_count (sclass (pos + e)) high p = 0"
proof -
  obtain r where r: "r \<in> set p" using assms by (cases p) auto
  obtain d0 where "d0 < 9" "sclass (pos + d0) = priority_class (rq_priority r) high"
    using schedule_window_facts(1) [OF priority_class_less] by blast
  moreover have "class_count (priority_class (rq_priority r) high) high p \<noteq> 0"
    using r by (auto simp: class_count_def filter_empty_conv)
  ultimately obtain d where d: "d < 9" "schedule_loop 9 high (int (pos mod 9)) p =
      (find_best_request_in_class_locked (sclass (pos + d)) high p, int ((pos + d + 1) mod 9))"
    "class_count (sclass (pos + d)) high p \<noteq> 0" "\<forall>e < d. class_count (sclass (pos + e)) high p = 0"
    using schedule_loop_spec [of 9 high pos p] by metis
  then obtain i where "find_best_request_in_class_locked (sclass (pos + d)) high p = Some i"
    using find_best_None by fastforce
  then show ?thesis using that d by (simp add: schedule_pick_def)
qed

section \<open>Frames\<close>

lemma observe_queue_frame [frame_simps]:
  "tk_pending (observe_queue t) = tk_pending t" "tk_cfg (observe_queue t) = tk_cfg t"
  "tk_queue_schedule_slot (observe_queue t) = tk_queue_schedule_slot t"
  "tk_out (observe_queue t) = tk_out t" "tk_records (observe_queue t) = tk_records t"
  "tk_metrics (observe_queue t) = tk_metrics t" "tk_out_callback (observe_queue t) = tk_out_callback t"
  "tk_store (observe_queue t) = tk_store t" "tk_endpoints (observe_queue t) = tk_endpoints t"
  "tk_stopping (observe_queue t) = tk_stopping t" "tk_status (observe_queue t) = tk_status t"
  "tk_task_id_counter (observe_queue t) = tk_task_id_counter t"
  by (simp_all add: observe_queue_def)

lemma emit_frame [frame_simps]:
  "tk_pending (emit_error req code msg t) = tk_pending t"
  "tk_cfg (emit_error req code msg t) = tk_cfg t"
  "tk_queue_schedule_slot (emit_error req code msg t) = tk_queue_schedule_slot t"
  "tk_records (emit_error req code msg t) = tk_records t"
  "tk_metrics (emit_error req code msg t) = tk_metrics t"
  "tk_store (emit_error req code msg t) = tk_store t"
  "tk_endpoints (emit_error req code msg t) = tk_endpoints t"
  "tk_task_id_counter (emit_error req code msg t) = tk_task_id_counter t"
  "tk_out (emit_error req code msg t) =
     tk_out t @ (if tk_out_callback t then [error_message req code msg] else [])"
  by (simp_all add: emit_error_def emit_def)

lemma enqueue_frame [frame_simps]:
  "tk_cfg (enqueue_request req t) = tk_cfg t"
  "tk_queue_schedule_slot (enqueue_request req t) = tk_queue_schedule_slot t"
  "tk_task_id_counter (enqueue_request req t) = tk_task_id_counter t"
  "tk_store (enqueue_request req t) = tk_store t"
  "tk_endpoints (enqueue_request req t) = tk_endpoints t"
  by (auto simp: enqueue_request_def record_pending_def frame_simps Let_def split: option.splits)

lemma inference_frame [frame_simps]:
  "tk_cfg (inference now rid wid url obj prompt meta opts t) = tk_cfg t"
  "tk_queue_schedule_slot (inference now rid wid url obj prompt meta opts t) = tk_queue_schedule_slot t"
  by (simp_all add: inference_def frame_simps)

lemma pop_frame [frame_simps]:
  "tk_cfg (snd (pop_next_request t)) = tk_cfg t"
  "tk_records (snd (pop_next_request t)) = tk_records t"
  "tk_out (snd (pop_next_request t)) = tk_out t"
  "tk_store (snd (pop_next_request t)) = tk_store t"
  "tk_endpoints (snd (pop_next_request t)) = tk_endpoints t"
  by (simp_all add: pop_next_request_def Let_def frame_simps split: prod.splits)

section \<open>Pops\<close>

lemma pop_spec:
  assumes "tk_pending t \<noteq> []" and "tk_queue_schedule_slot t = int (pos mod 9)"
  obtains d i where "d < 9" "i < length (tk_pending t)"
    "find_best_request_in_class_locked (sclass (pos + d)) (cf_high_priority_threshold (tk_cfg t))
       (tk_pending t) = Some i"
    "\<forall>e < d. class_count (sclass (pos + e)) (cf_high_priority_threshold (tk_cfg t)) (tk_pending t) = 0"
    "pop_next_request t = (PopRequest (tk_pending t ! i),
       observe_queue (t\<lparr>tk_queue_schedule_slot := int ((pos + d + 1) mod 9),
                        tk_pending := remove_nth i (tk_pending t)\<rparr>))"
proof -
  obtain d i where d: "d < 9" "schedule_pick (cf_high_priority_threshold (tk_cfg t)) (int (pos mod 9))
      (tk_pending t) = (i, int ((pos + d + 1) mod 9))"
    "find_best_request_in_class_locked (sclass (pos + d)) (cf_high_priority_threshold (tk_cfg t))
       (tk_pending t) = Some i"
    "\<forall>e < d. class_count (sclass (pos + e)) (cf_high_priority_threshold (tk_cfg t)) (tk_pending t) = 0"
    by (rule schedule_pick_spec [OF assms(1)])
  then show ?thesis
    using that [OF d(1) _ d(3,4)] find_best_Some [OF d(3)] assms by (simp add: pop_next_request_def)
qed

lemma slot_pos:
  assumes "0 \<le> tk_queue_schedule_slot t" and "tk_queue_schedule_slot t < 9"
  obtains pos where "tk_queue_schedule_slot t = int (pos mod 9)"
proof -
  have "tk_queue_schedule_slot t = int (nat (tk_queue_schedule_slot t) mod 9)"
    using assms by (simp add: nat_less_iff)
  with that show ?thesis .
qed

lemma filter_remove_nth_le: "length (filter P (remove_nth i xs)) \<le> length (filter P xs)"
proof -
  have "xs = take i xs @ drop i xs" by simp
  moreover have "length (filter P (drop (Suc i) xs)) \<le> length (filter P (drop i xs))"
  proof (cases "i < length xs")
    case True
    then show ?thesis by (simp add: Cons_nth_drop_Suc [symmetric])
  qed simp
  ultimately have "length (filter P (take i xs)) + length (filter P (drop (Suc i) xs)) \<le>
      length (filter P xs)" by (metis add_left_mono filter_append length_append)
  then show ?thesis by (simp add: remove_nth_def)
qed

lemma pending_ok_mono:
  assumes "pending_ok c p" and "\<And>P. length (filter P q) \<le> length (filter P p)"
  shows "pending_ok c q"
proof -
  have le: "int (length (filter P q)) \<le> b" if "int (length (filter P p)) \<le> b" for P b
    using that assms(2) [of P] by linarith
  have len: "int (length q) \<le> b" if "int (length p) \<le> b" for b
    using le [of "\<lambda>_. True" b] that by simp
  show ?thesis unfolding pending_ok_def
    by (intro conjI impI len le) (use assms(1) in \<open>simp_all add: pending_ok_def\<close>)
qed

lemma pending_ok_snoc:
  assumes "pending_ok c p" and "admission c (int (length p)) (rq_priority r) = None"
  shows "pending_ok c (p @ [r])"
proof -
  have a: "0 < cf_max_queue_size c \<Longrightarrow> int (length p) < cf_max_queue_size c"
    "0 < overload_threshold c \<Longrightarrow> rq_priority r < cf_high_priority_threshold c \<Longrightarrow>
       int (length p) < overload_threshold c"
    "0 < cf_low_priority_drop_threshold c \<Longrightarrow> rq_priority r < 4 \<Longrightarrow>
       int (length p) < cf_low_priority_drop_threshold c"
    using assms(2) by (auto simp: admission_def split: if_split_asm)
  have bound: "int (length (filter P (p @ [r]))) \<le> b"
    if "int (length (filter P p)) \<le> b" and "P r \<Longrightarrow> int (length p) < b" for P b
  proof (cases "P r")
    case True
    have "int (length (filter P p)) \<le> int (length p)" by simp
    then have "int (length (filter P p)) + 1 \<le> b" using that(2) [OF True] by linarith
    then show ?thesis using True by simp
  qed (use that(1) in simp)
  show ?thesis unfolding pending_ok_def
    by (intro conjI impI bound; (erule a)?)
      (use a(1) assms(1) in \<open>simp_all add: pending_ok_def\<close>)
qed

lemma queue_inv_pop [wf_intros]:
  assumes "queue_inv t" shows "queue_inv (snd (pop_next_request t))"
proof (cases "tk_pending t = []")
  case True
  then show ?thesis using assms by (simp add: pop_next_request_def)
next
  case False
  obtain pos where pos: "tk_queue_schedule_slot t = int (pos mod 9)"
    using slot_pos assms by (auto simp: queue_inv_def)
  obtain d i where "pop_next_request t = (PopRequest (tk_pending t ! i),
      observe_queue (t\<lparr>tk_queue_schedule_slot := int ((pos + d + 1) mod 9),
                       tk_pending := remove_nth i (tk_pending t)\<rparr>))"
    by (rule pop_spec [OF False pos])
  moreover have "pending_ok (tk_cfg t) (remove_nth i (tk_pending t))"
    using assms filter_remove_nth_le by (auto simp: queue_inv_def intro: pending_ok_mono)
  ultimately show ?thesis by (simp add: queue_inv_def frame_simps)
qed

lemma enqueue_pending:
  "tk_pending (enqueue_request req t) =
     (if admission (tk_cfg t) (int (length (tk_pending t))) (rq_priority req) = None
      then tk_pending t @ [req] else tk_pending t)"
  by (auto simp: enqueue_request_def record_pending_def frame_simps Let_def split: option.splits)

lemma queue_inv_inference [wf_intros]:
  "queue_inv t \<Longrightarrow> queue_inv (inference now rid wid url obj prompt meta opts t)"
  by (auto simp: inference_def queue_inv_def enqueue_pending frame_simps pending_ok_snoc)

lemma queue_inv_step: "queue_inv t \<Longrightarrow> queue_inv (queue_op_step op t)"
  by (cases op) (simp_all add: wf_intros)

interpretation queue_ops: invariant_of queue_op_step queue_inv
  by unfold_locales (rule queue_inv_step)

lemma queue_inv_run: "queue_inv t \<Longrightarrow> queue_inv (queue_run ops t)"
  unfolding queue_run_def by (rule queue_ops.run)

lemma queue_step_cfg [simp]: "tk_cfg (queue_op_step op t) = tk_cfg t"
  by (cases op) (simp_all add: frame_simps)

section \<open>Fair shares\<close>

lemma class_slots_split: "class_slots k pos (m + n) = class_slots k pos m + class_slots k (pos + m) n"
proof -
  have "[pos..<pos + (m + n)] = [pos..<pos + m] @ [pos + m..<pos + m + n]"
    by (metis add.assoc le_add1 upt_add_eq_append)
  then show ?thesis by (simp add: class_slots_def)
qed

lemma class_slots_9: "k < 3 \<Longrightarrow> class_slots k pos 9 = class_share k"
proof -
  assume "k < 3"
  have "[pos..<pos + 9] = map ((+) pos) [0..<9]"
    unfolding add.commute [of pos 9] map_add_upt [symmetric] by (rule map_cong) simp_all
  then show ?thesis
    using schedule_window_facts(2) [OF \<open>k < 3\<close>, of pos]
    by (simp only: class_slots_def filter_map comp_def length_map)
qed

lemma served_slots:
  assumes "tk_queue_schedule_slot t = int (pos mod 9)" and "always_pending k ops t"
  shows "\<exists>n \<ge> length (filter (\<lambda>q. q = QPop) ops).
    length (filter (\<lambda>c. c = k) (served_classes ops t)) = class_slots k pos n"
  using assms
proof (induction k ops t arbitrary: pos rule: always_pending.induct)
  case (1 k t)
  then show ?case by (intro exI [of _ 0]) (simp add: class_slots_def)
next
  case (2 k op ops t)
  show ?case
  proof (cases "op = QPop")
    case False
    have "tk_queue_schedule_slot (queue_op_step op t) = int (pos mod 9)"
      using 2(2) False by (cases op) (simp_all add: frame_simps)
    moreover have "served_classes (op # ops) t = served_classes ops (queue_op_step op t)"
      using False by (cases op) simp_all
    ultimately show ?thesis using 2(1) [of pos] 2(3) False by simp
  next
    case True
    let ?high = "cf_high_priority_threshold (tk_cfg t)"
    have cnt: "class_count k ?high (tk_pending t) \<noteq> 0" using 2(3) True by simp
    then have ne: "tk_pending t \<noteq> []" by (auto simp: class_count_def)
    obtain d i where d: "find_best_request_in_class_locked (sclass (pos + d)) ?high (tk_pending t) = Some i"
      "\<forall>e < d. class_count (sclass (pos + e)) ?high (tk_pending t) = 0"
      "pop_next_request t = (PopRequest (tk_pending t ! i),
         observe_queue (t\<lparr>tk_queue_schedule_slot := int ((pos + d + 1) mod 9),
                          tk_pending := remove_nth i (tk_pending t)\<rparr>))"
      by (rule pop_spec [OF ne 2(2)])
    have cls: "served_class t = [sclass (pos + d)]" using find_best_Some [OF d(1)] d(3) by simp
    have zero: "class_slots k pos d = 0"
      using d(2) cnt by (auto simp: class_slots_def filter_empty_conv dest!: le_Suc_ex)
    have one: "class_slots k (pos + d) 1 = (if sclass (pos + d) = k then 1 else 0)"
      by (simp add: class_slots_def)
    have "tk_queue_schedule_slot (queue_op_step QPop t) = int ((pos + d + 1) mod 9)"
      using d(3) by (simp add: frame_simps)
    from 2(1) [of "pos + d + 1"] this 2(3) True obtain n where n:
      "length (filter (\<lambda>q. q = QPop) ops) \<le> n"
      "length (filter (\<lambda>c. c = k) (served_classes ops (queue_op_step QPop t))) = class_slots k (pos + d + 1) n"
      by auto
    have "class_slots k pos (d + (1 + n)) =
        (if sclass (pos + d) = k then 1 else 0) + class_slots k (pos + d + 1) n"
      using zero one class_slots_split [of k pos d "1 + n"] class_slots_split [of k "pos + d" 1 n] by simp
    then show ?thesis using n cls True by (intro exI [of _ "d + (1 + n)"]) simp
  qed
qed

section \<open>Properties\<close>



text \<open>
  C5. Whatever sequence of submissions and pops runs, starting from an empty queue, the queue
  never exceeds \<^verbatim>\<open>max_queue_size\<close>; requests below the high priority threshold never occupy more
  than nine tenths of it, so the rest stays free for high priority requests; and background
  requests (priority below 4) never exceed \<^verbatim>\<open>low_priority_drop_threshold\<close>. A limit that is not
  positive is switched off.
\<close>
theorem queue_bounded_with_headroom:
  assumes "tk_pending t = []" and "tk_queue_schedule_slot t = 0" and "t' = queue_run ops t"
  shows "(0 < cf_max_queue_size (tk_cfg t') \<longrightarrow> int (length (tk_pending t')) \<le> cf_max_queue_size (tk_cfg t')) \<and>
    (0 < overload_threshold (tk_cfg t') \<longrightarrow>
       int (length (filter (\<lambda>r. rq_priority r < cf_high_priority_threshold (tk_cfg t')) (tk_pending t')))
         \<le> overload_threshold (tk_cfg t')) \<and>
    (0 < cf_low_priority_drop_threshold (tk_cfg t') \<longrightarrow>
       int (length (filter (\<lambda>r. rq_priority r < 4) (tk_pending t')))
         \<le> cf_low_priority_drop_threshold (tk_cfg t'))"
proof -
  have "queue_inv t" using assms(1,2) by (auto simp: queue_inv_def pending_ok_def)
  then have "queue_inv t'" unfolding assms(3) by (rule queue_inv_run)
  then show ?thesis by (simp add: queue_inv_def pending_ok_def)
qed

theorem queue_bounded_with_headroom_witness:
  "int (length (tk_pending (queue_run (replicate 12 (sample_submit 5)) sample_task))) \<le> 10"
proof -
  let ?t' = "queue_run (replicate 12 (sample_submit 5)) sample_task"
  have "tk_pending sample_task = []" and "tk_queue_schedule_slot sample_task = 0"
    and "cf_max_queue_size (tk_cfg ?t') = 10" by code_simp+
  then show ?thesis
    using queue_bounded_with_headroom [of sample_task ?t' "replicate 12 (sample_submit 5)"] by simp
qed

text \<open>
  C28. A pop of a non-empty queue always returns a request: one of a class of the schedule, and
  within that class every pending request has a lower priority, or the same priority and a task id
  that is not smaller. Nothing else leaves or enters the queue.
\<close>
theorem pop_returns_best_of_class:
  assumes "tk_pending t \<noteq> []" and "0 \<le> tk_queue_schedule_slot t" and "tk_queue_schedule_slot t < 9"
  shows "\<exists>req. fst (pop_next_request t) = PopRequest req \<and>
    mset (tk_pending t) = add_mset req (mset (tk_pending (snd (pop_next_request t)))) \<and>
    (\<forall>r \<in> set (tk_pending t).
       priority_class (rq_priority r) (cf_high_priority_threshold (tk_cfg t)) =
         priority_class (rq_priority req) (cf_high_priority_threshold (tk_cfg t)) \<longrightarrow>
       rq_priority r < rq_priority req \<or> rq_priority r = rq_priority req \<and> rq_task_id req \<le> rq_task_id r)"
proof -
  obtain pos where pos: "tk_queue_schedule_slot t = int (pos mod 9)"
    using slot_pos assms(2,3) by blast
  obtain d i where i: "i < length (tk_pending t)"
    "find_best_request_in_class_locked (sclass (pos + d)) (cf_high_priority_threshold (tk_cfg t))
       (tk_pending t) = Some i"
    "pop_next_request t = (PopRequest (tk_pending t ! i),
       observe_queue (t\<lparr>tk_queue_schedule_slot := int ((pos + d + 1) mod 9),
                        tk_pending := remove_nth i (tk_pending t)\<rparr>))"
    by (rule pop_spec [OF assms(1) pos])
  have ord: "rq_priority r < rq_priority b \<or> rq_priority r = rq_priority b \<and> rq_task_id b \<le> rq_task_id r"
    if "\<not> better_request r b" for r b
    using that by (auto simp: better_request_def)
  have best: "\<forall>r \<in> set (tk_pending t). priority_class (rq_priority r) (cf_high_priority_threshold (tk_cfg t)) =
      priority_class (rq_priority (tk_pending t ! i)) (cf_high_priority_threshold (tk_cfg t)) \<longrightarrow>
      rq_priority r < rq_priority (tk_pending t ! i) \<or>
      rq_priority r = rq_priority (tk_pending t ! i) \<and> rq_task_id (tk_pending t ! i) \<le> rq_task_id r"
    using find_best_Some [OF i(2)] ord by (metis in_set_conv_nth)
  show ?thesis
    by (intro exI [of _ "tk_pending t ! i"] conjI best) (simp_all add: i frame_simps mset_remove_nth)
qed

theorem pop_returns_best_of_class_witness:
  "\<exists>req. fst (pop_next_request (queue_run [sample_submit 5, sample_submit 8] sample_task)) = PopRequest req"
proof -
  let ?t = "queue_run [sample_submit 5, sample_submit 8] sample_task"
  have "tk_pending ?t \<noteq> []" and "0 \<le> tk_queue_schedule_slot ?t" and "tk_queue_schedule_slot ?t < 9"
    by code_simp+
  from pop_returns_best_of_class [OF this] show ?thesis by blast
qed

text \<open>
  C14. Weighted fairness: over nine pops, with any submissions in between, a class that has a
  request pending at each of these pops is served at least 5 times (high), 3 times (normal) or
  once (background). No class starves.
\<close>
theorem pop_fair_share:
  assumes "k < 3" and "0 \<le> tk_queue_schedule_slot t" and "tk_queue_schedule_slot t < 9"
    and "length (filter (\<lambda>q. q = QPop) ops) = 9" and "always_pending k ops t"
  shows "class_share k \<le> length (filter (\<lambda>c. c = k) (served_classes ops t))"
proof -
  obtain pos where pos: "tk_queue_schedule_slot t = int (pos mod 9)"
    using slot_pos assms(2,3) by blast
  obtain n where n: "9 \<le> n" "length (filter (\<lambda>c. c = k) (served_classes ops t)) = class_slots k pos n"
    using served_slots [OF pos assms(5)] assms(4) by auto
  have "class_slots k pos n = class_slots k pos 9 + class_slots k (pos + 9) (n - 9)"
    using class_slots_split [of k pos 9 "n - 9"] n(1) by simp
  then show ?thesis using n(2) class_slots_9 [OF assms(1)] by simp
qed

theorem pop_fair_share_witness:
  "5 \<le> length (filter (\<lambda>c. c = 0)
     (served_classes (replicate 9 (sample_submit 9) @ replicate 9 QPop) sample_task))"
proof -
  let ?ops = "replicate 9 (sample_submit 9) @ replicate 9 QPop"
  have "0 \<le> tk_queue_schedule_slot sample_task" and "tk_queue_schedule_slot sample_task < 9"
    and "length (filter (\<lambda>q. q = QPop) ?ops) = 9" and "always_pending 0 ?ops sample_task"
    by code_simp+
  from pop_fair_share [OF _ this] show ?thesis by (simp add: class_share_def)
qed

end
