(* ===== verification/Endpoint_Router.thy ===== *)
theory Endpoint_Router
  imports Request_Queue
begin

text \<open>
  Endpoint selection, the circuit breaker and health tracking of \<^verbatim>\<open>vllm_task\<close> in
  \<^verbatim>\<open>node/vllm-client/src/main.cpp\<close>.

  Decisions that look at one endpoint are functions on its value; \<open>select_endpoint\<close>,
  \<open>update_endpoint_result\<close> and \<open>update_endpoint_health\<close> act on the object at an address, under
  \<^verbatim>\<open>endpoints_mtx_\<close>, as one step. Clock readings are arguments. HTTP and the JSON parser are
  parameters of the health check. \<^verbatim>\<open>wait_for_endpoint\<close> releases its lock between rounds, so each round
  carries the effect \<open>wr_env\<close> of the other threads.
\<close>

section \<open>Models and capabilities\<close>

definition deadline_exceeded :: "int \<Rightarrow> InferenceRequest \<Rightarrow> bool" where
  "deadline_exceeded now req \<longleftrightarrow> 0 < rq_deadline_ms req \<and> rq_deadline_at_ms req \<le> now"

definition estimate_prompt_tokens :: "InferenceRequest \<Rightarrow> int" where
  "estimate_prompt_tokens req = to_int32 (int (length (rq_prompt req) div 4)) + rq_max_tokens req"

definition fallback_allows :: "string \<Rightarrow> string \<Rightarrow> string list \<Rightarrow> bool" where
  "fallback_allows requested_model served_model fallback_chain \<longleftrightarrow>
     served_model = requested_model \<or>
     (case (find_index_of (\<lambda>m. m = requested_model) fallback_chain,
            find_index_of (\<lambda>m. m = served_model) fallback_chain) of
        (Some requested, Some served) \<Rightarrow> requested \<le> served
      | _ \<Rightarrow> False)"

definition is_degraded_endpoint :: "VllmEndpoint \<Rightarrow> InferenceRequest \<Rightarrow> bool" where
  "is_degraded_endpoint ep req \<longleftrightarrow>
     \<not> (ep_served_model ep = rq_logical_model req) \<and>
     \<not> (rq_fallback_chain req \<noteq> [] \<and> ep_served_model ep = hd (rq_fallback_chain req)) \<and>
     \<not> (ep_role ep = ''primary'' \<and> string_in_vector (ep_logical_models ep) (rq_logical_model req))"

definition endpoint_supports_request :: "VllmEndpoint \<Rightarrow> InferenceRequest \<Rightarrow> bool" where
  "endpoint_supports_request ep req \<longleftrightarrow>
     ep_served_model ep = rq_logical_model req \<or>
     string_in_vector (ep_logical_models ep) (rq_logical_model req) \<or>
     (rq_allow_degrade req \<and>
      fallback_allows (rq_logical_model req) (ep_served_model ep) (rq_fallback_chain req))"

definition model_preference_rank :: "VllmEndpoint \<Rightarrow> InferenceRequest \<Rightarrow> int" where
  "model_preference_rank ep req =
     (case find_index_of (\<lambda>m. m = ep_served_model ep) (rq_fallback_chain req) of
        Some i \<Rightarrow> int i
      | None \<Rightarrow>
          if ep_served_model ep = rq_logical_model req \<or>
             string_in_vector (ep_logical_models ep) (rq_logical_model req)
          then 0 else INT_MAX)"

section \<open>Availability and selection\<close>

definition endpoint_available_locked :: "VllmEndpoint \<Rightarrow> int \<Rightarrow> bool \<times> VllmEndpoint" where
  "endpoint_available_locked ep current_ms =
     (if ep_circuit_state ep = Open \<and> current_ms < ep_circuit_open_until_ms ep then (False, ep)
      else let ep = (if ep_circuit_state ep = Open
                     then ep\<lparr>ep_circuit_state := HalfOpen, ep_half_open_inflight := 0\<rparr> else ep)
           in if ep_circuit_state ep = HalfOpen \<and> 0 < ep_half_open_inflight ep then (False, ep)
              else if \<not> ep_healthy ep \<and> ep_circuit_state ep \<noteq> HalfOpen then (False, ep)
              else if ep_max_concurrency ep \<le> ep_inflight ep then (False, ep)
              else (True, ep))"

definition endpoint_score :: "int \<Rightarrow> InferenceRequest \<Rightarrow> VllmEndpoint \<Rightarrow> int" where
  "endpoint_score high_priority_threshold req ep =
     ep_weight ep * 10
     - (ep_inflight ep * 500) sdiv max 1 (ep_max_concurrency ep)
     - trunc_int (rnd (ep_avg_latency_ms ep / 20))
     - ep_consecutive_failures ep * 250
     - (if is_degraded_endpoint ep req then 2000 else 0)
     - (if ep_role ep = ''fallback'' \<and> high_priority_threshold \<le> rq_priority req then 500 else 0)
     - (if ep_role ep = ''overflow'' then 50 else 0)
     - (if ep_circuit_state ep = HalfOpen then 300 else 0)"

definition context_fits :: "InferenceRequest \<Rightarrow> VllmEndpoint \<Rightarrow> bool" where
  "context_fits req ep \<longleftrightarrow>
     \<not> (0 < ep_max_context_len ep \<and> ep_max_context_len ep < estimate_prompt_tokens req)"

type_synonym choice = "nat option \<times> int \<times> int"

text \<open>The effect of one loop round on \<open>best\<close>, \<open>best_rank\<close> and \<open>best_score\<close> for an endpoint that passed
  the availability and context tests.\<close>

definition consider_endpoint ::
  "int \<Rightarrow> InferenceRequest \<Rightarrow> nat \<Rightarrow> VllmEndpoint \<Rightarrow> choice \<Rightarrow> choice" where
  "consider_endpoint high req a ep ch =
     (let (best, best_rank, best_score) = ch; rank = model_preference_rank ep req
      in if rank = INT_MAX then ch
         else if best \<noteq> None \<and> best_rank < rank then ch
         else let (best, best_rank, best_score) =
                    (if best = None \<or> rank < best_rank then (None, rank, INT_MIN)
                     else (best, best_rank, best_score))
              in if is_degraded_endpoint ep req \<and> \<not> rq_allow_degrade req
                 then (best, best_rank, best_score)
                 else let score = endpoint_score high req ep
                      in if best = None \<or> best_score < score then (Some a, best_rank, score)
                         else (best, best_rank, best_score))"

fun select_loop ::
  "int \<Rightarrow> int \<Rightarrow> InferenceRequest \<Rightarrow> nat list \<Rightarrow> endpoint_store \<Rightarrow> choice \<Rightarrow> endpoint_store \<times> choice" where
  "select_loop high now req [] st ch = (st, ch)"
| "select_loop high now req (a # as) st ch =
     (if \<not> endpoint_supports_request (es_get st a) req then select_loop high now req as st ch
      else let (ok, ep) = endpoint_available_locked (es_get st a) now;
               st = es_update a (\<lambda>_. ep) st
           in if ok \<and> context_fits req ep
              then select_loop high now req as st (consider_endpoint high req a ep ch)
              else select_loop high now req as st ch)"

definition acquire_endpoint :: "VllmEndpoint \<Rightarrow> VllmEndpoint" where
  "acquire_endpoint ep =
     ep\<lparr>ep_inflight := ep_inflight ep + 1,
        ep_half_open_inflight := (if ep_circuit_state ep = HalfOpen
                                  then ep_half_open_inflight ep + 1
                                  else ep_half_open_inflight ep)\<rparr>"

definition observe_endpoint_at :: "nat \<Rightarrow> vllm_task \<Rightarrow> vllm_task" where
  "observe_endpoint_at a t =
     t\<lparr>tk_observability := observe_endpoint (endpoint_metrics_event (es_get (tk_store t) a))
         (tk_observability t)\<rparr>"

definition select_endpoint :: "int \<Rightarrow> InferenceRequest \<Rightarrow> vllm_task \<Rightarrow> nat option \<times> vllm_task" where
  "select_endpoint now req t =
     (let (st, best, _, _) = select_loop (cf_high_priority_threshold (tk_cfg t)) now req
            (tk_endpoints t) (tk_store t) (None, INT_MAX, INT_MIN)
      in case best of
           None \<Rightarrow> (None, t\<lparr>tk_store := st\<rparr>)
         | Some a \<Rightarrow>
             (Some a, observe_endpoint_at a (t\<lparr>tk_store := es_update a acquire_endpoint st\<rparr>)))"

section \<open>Waiting for capacity\<close>

record wait_round =
  wr_stopping :: bool
  wr_now :: int
  wr_env :: "vllm_task \<Rightarrow> vllm_task"
  wr_select_now :: int
  wr_deadline_now :: int

fun wait_loop ::
  "nat \<Rightarrow> (nat \<Rightarrow> wait_round) \<Rightarrow> nat \<Rightarrow> int \<Rightarrow> InferenceRequest \<Rightarrow> vllm_task
     \<Rightarrow> (nat option \<times> vllm_task) option" where
  "wait_loop 0 rounds i wait_until_ms req t = None"
| "wait_loop (Suc fuel) rounds i wait_until_ms req t =
     (let w = rounds i
      in if wr_stopping w \<or> wait_until_ms \<le> wr_now w then Some (None, t)
         else case select_endpoint (wr_select_now w) req (wr_env w t) of
                (Some a, t) \<Rightarrow> Some (Some a, t)
              | (None, t) \<Rightarrow>
                  if deadline_exceeded (wr_deadline_now w) req then Some (None, t)
                  else wait_loop fuel rounds (Suc i) wait_until_ms req t)"

definition wait_for_endpoint ::
  "nat \<Rightarrow> (nat \<Rightarrow> wait_round) \<Rightarrow> int \<Rightarrow> int \<Rightarrow> InferenceRequest \<Rightarrow> vllm_task
     \<Rightarrow> (nat option \<times> vllm_task) option" where
  "wait_for_endpoint fuel rounds now now' req t =
     (case select_endpoint now req t of
        (Some a, t) \<Rightarrow> Some (Some a, t)
      | (None, t) \<Rightarrow>
          if cf_endpoint_wait_ms (tk_cfg t) \<le> 0 then Some (None, t)
          else wait_loop fuel rounds 0
                 (min (rq_deadline_at_ms req) (now' + cf_endpoint_wait_ms (tk_cfg t))) req t)"

definition prepare_request_for_endpoint :: "VllmEndpoint \<Rightarrow> InferenceRequest \<Rightarrow> InferenceRequest" where
  "prepare_request_for_endpoint ep req =
     (let req = req\<lparr>rq_endpoint_name := ep_name ep, rq_served_model := ep_served_model ep,
                    rq_degraded := is_degraded_endpoint ep req\<rparr>
      in if rq_degraded req
         then req\<lparr>rq_degrade_reason :=
                (if ep_role ep = ''fallback'' then ''fallback_endpoint'' else ''model_fallback'')\<rparr>
         else req)"

section \<open>Results and health\<close>

definition ewma :: "rat \<Rightarrow> rat \<Rightarrow> rat \<Rightarrow> int \<Rightarrow> rat" where
  "ewma old_share new_share avg latency_ms =
     (if avg \<le> 0 then double_of_int latency_ms
      else rnd (rnd (avg * rnd old_share) + rnd (double_of_int latency_ms * rnd new_share)))"

definition count_failure :: "SchedConfig \<Rightarrow> int \<Rightarrow> VllmEndpoint \<Rightarrow> VllmEndpoint" where
  "count_failure c now ep =
     (let n = ep_consecutive_failures ep + 1;
          ep = ep\<lparr>ep_consecutive_failures := n, ep_consecutive_successes := 0,
                  ep_healthy := (if cf_unhealthy_threshold c \<le> n then False else ep_healthy ep)\<rparr>
      in if cf_circuit_failure_threshold c \<le> n
         then ep\<lparr>ep_circuit_open_count := (if ep_circuit_state ep \<noteq> Open
                    then Suc (ep_circuit_open_count ep) else ep_circuit_open_count ep),
                 ep_circuit_state := Open,
                 ep_circuit_open_until_ms := now + cf_circuit_open_ms c\<rparr>
         else ep)"

definition endpoint_result :: "SchedConfig \<Rightarrow> int \<Rightarrow> bool \<Rightarrow> int \<Rightarrow> VllmEndpoint \<Rightarrow> VllmEndpoint" where
  "endpoint_result c now ok latency_ms ep =
     (let ep = ep\<lparr>ep_inflight := (if 0 < ep_inflight ep then ep_inflight ep - 1 else ep_inflight ep),
                  ep_half_open_inflight := (if 0 < ep_half_open_inflight ep
                    then ep_half_open_inflight ep - 1 else ep_half_open_inflight ep),
                  ep_last_latency_ms := latency_ms,
                  ep_avg_latency_ms := (if 0 < latency_ms
                    then ewma (8 / 10) (2 / 10) (ep_avg_latency_ms ep) latency_ms
                    else ep_avg_latency_ms ep)\<rparr>
      in if ok
         then let n = ep_consecutive_successes ep + 1;
                  ep = ep\<lparr>ep_success_count := Suc (ep_success_count ep),
                          ep_consecutive_successes := n, ep_consecutive_failures := 0\<rparr>
              in if cf_recovery_threshold c \<le> n
                 then ep\<lparr>ep_healthy := True, ep_circuit_state := Closed\<rparr> else ep
         else count_failure c now (ep\<lparr>ep_failure_count := Suc (ep_failure_count ep)\<rparr>))"

definition update_endpoint_result ::
  "nat \<Rightarrow> bool \<Rightarrow> int \<Rightarrow> int \<Rightarrow> vllm_task \<Rightarrow> vllm_task" where
  "update_endpoint_result a ok latency_ms now t =
     observe_endpoint_at a
       (t\<lparr>tk_store := es_update a (endpoint_result (tk_cfg t) now ok latency_ms) (tk_store t)\<rparr>)"

text \<open>The outcome of one HTTP GET: whether curl succeeded, the status code, the body.\<close>

type_synonym http = "string \<Rightarrow> string \<Rightarrow> int \<Rightarrow> bool \<times> int \<times> string"

definition http_ok :: "bool \<times> int \<times> string \<Rightarrow> bool" where
  "http_ok r = (let (ok, code, _) = r in ok \<and> 200 \<le> code \<and> code < 300)"

definition lists_model :: "json option \<Rightarrow> string \<Rightarrow> bool" where
  "lists_model parsed model =
     (case parsed of
        None \<Rightarrow> False
      | Some j \<Rightarrow>
          (case jget j ''data'' of
             Some (JArr items) \<Rightarrow> list_ex (\<lambda>i. jget i ''id'' = Some (JStr model)) items
           | _ \<Rightarrow> False))"

definition check_endpoint_health ::
  "http \<Rightarrow> http \<Rightarrow> (string \<Rightarrow> json option) \<Rightarrow> int \<Rightarrow> int \<Rightarrow> SchedConfig \<Rightarrow> VllmEndpoint \<Rightarrow> bool \<times> int" where
  "check_endpoint_health get1 get2 parse begin_ms end_ms c ep =
     (let path = with_leading_slash (if ep_health_path ep = [] then ''/health'' else ep_health_path ep);
          r1 = get1 (ep_base_url ep @ path) (ep_api_key ep) (cf_health_check_timeout_ms c)
      in if http_ok r1 then (True, end_ms - begin_ms)
         else let r2 = get2 (ep_base_url ep @ ''/v1/models'') (ep_api_key ep)
                         (cf_health_check_timeout_ms c)
              in if \<not> http_ok r2 then (False, end_ms - begin_ms)
                 else if ep_served_model ep = [] then (True, end_ms - begin_ms)
                 else (lists_model (parse (snd (snd r2))) (ep_served_model ep), end_ms - begin_ms))"

definition endpoint_health :: "SchedConfig \<Rightarrow> int \<Rightarrow> bool \<Rightarrow> int \<Rightarrow> VllmEndpoint \<Rightarrow> VllmEndpoint" where
  "endpoint_health c now ok latency_ms ep =
     (let ep = ep\<lparr>ep_last_health_check_ms := now,
                  ep_last_latency_ms := (if 0 < latency_ms then latency_ms else ep_last_latency_ms ep),
                  ep_avg_latency_ms := (if 0 < latency_ms
                    then ewma (9 / 10) (1 / 10) (ep_avg_latency_ms ep) latency_ms
                    else ep_avg_latency_ms ep)\<rparr>
      in if ok
         then let n = ep_consecutive_successes ep + 1;
                  ep = ep\<lparr>ep_consecutive_successes := n, ep_consecutive_failures := 0\<rparr>
              in if cf_recovery_threshold c \<le> n
                 then ep\<lparr>ep_healthy := True,
                         ep_circuit_state := (if ep_circuit_state ep \<in> {HalfOpen, Open}
                           then Closed else ep_circuit_state ep)\<rparr> else ep
         else count_failure c now ep)"

definition update_endpoint_health ::
  "nat \<Rightarrow> bool \<Rightarrow> int \<Rightarrow> int \<Rightarrow> vllm_task \<Rightarrow> vllm_task" where
  "update_endpoint_health a ok latency_ms now t =
     observe_endpoint_at a
       (t\<lparr>tk_store := es_update a (endpoint_health (tk_cfg t) now ok latency_ms) (tk_store t)\<rparr>)"

text \<open>One round of \<^verbatim>\<open>health_loop\<close> over the snapshot of the endpoint list. Each entry of \<open>checks\<close> holds the
  stopping flag read before the check, the clock before, after and at the update, and the answers
  of the two requests.\<close>

record health_probe =
  hp_stopping :: bool
  hp_begin :: int
  hp_end :: int
  hp_update_now :: int
  hp_get1 :: http
  hp_get2 :: http

fun health_round :: "(string \<Rightarrow> json option) \<Rightarrow> (nat \<times> health_probe) list \<Rightarrow> vllm_task \<Rightarrow> vllm_task" where
  "health_round parse [] t = t"
| "health_round parse ((a, h) # checks) t =
     (if hp_stopping h then t
      else let (ok, latency) = check_endpoint_health (hp_get1 h) (hp_get2 h) parse (hp_begin h)
                 (hp_end h) (tk_cfg t) (es_get (tk_store t) a)
           in health_round parse checks (update_endpoint_health a ok latency (hp_update_now h) t))"

section \<open>Eligibility and the specification of the choice\<close>

definition available :: "int \<Rightarrow> VllmEndpoint \<Rightarrow> bool" where
  "available now ep = fst (endpoint_available_locked ep now)"

definition opened :: "int \<Rightarrow> VllmEndpoint \<Rightarrow> VllmEndpoint" where
  "opened now ep = snd (endpoint_available_locked ep now)"

definition usable :: "int \<Rightarrow> InferenceRequest \<Rightarrow> VllmEndpoint \<Rightarrow> bool" where
  "usable now req ep \<longleftrightarrow> endpoint_supports_request ep req \<and> available now ep \<and> context_fits req ep \<and>
     model_preference_rank ep req \<noteq> INT_MAX"

definition eligible :: "int \<Rightarrow> InferenceRequest \<Rightarrow> VllmEndpoint \<Rightarrow> bool" where
  "eligible now req ep \<longleftrightarrow> usable now req ep \<and> (is_degraded_endpoint ep req \<longrightarrow> rq_allow_degrade req)"

definition better_endpoint :: "int \<Rightarrow> int \<Rightarrow> InferenceRequest \<Rightarrow> VllmEndpoint \<Rightarrow> VllmEndpoint \<Rightarrow> bool" where
  "better_endpoint high now req e f \<longleftrightarrow>
     model_preference_rank e req < model_preference_rank f req \<or>
     (model_preference_rank e req = model_preference_rank f req \<and>
      endpoint_score high req (opened now f) < endpoint_score high req (opened now e))"

fun choose_loop ::
  "int \<Rightarrow> int \<Rightarrow> InferenceRequest \<Rightarrow> endpoint_store \<Rightarrow> nat list \<Rightarrow> choice \<Rightarrow> choice" where
  "choose_loop high now req st [] ch = ch"
| "choose_loop high now req st (a # as) ch =
     choose_loop high now req st as
       (if usable now req (es_get st a)
        then consider_endpoint high req a (opened now (es_get st a)) ch else ch)"

definition selection :: "int \<Rightarrow> InferenceRequest \<Rightarrow> vllm_task \<Rightarrow> nat option" where
  "selection now req t = fst (choose_loop (cf_high_priority_threshold (tk_cfg t)) now req (tk_store t)
     (tk_endpoints t) (None, INT_MAX, INT_MIN))"

definition half_opened :: "int \<Rightarrow> endpoint_store \<Rightarrow> endpoint_store \<Rightarrow> bool" where
  "half_opened now st st' \<longleftrightarrow> es_global st' = es_global st \<and>
     length (es_heap st') = length (es_heap st) \<and>
     (\<forall>x. es_get st' x = es_get st x \<or> es_get st' x = opened now (es_get st x))"

definition ep_wf :: "VllmEndpoint \<Rightarrow> bool" where
  "ep_wf ep \<longleftrightarrow> 0 \<le> ep_half_open_inflight ep \<and> ep_half_open_inflight ep \<le> 1 \<and>
     0 \<le> ep_inflight ep \<and> ep_inflight ep \<le> ep_max_concurrency ep \<and>
     0 \<le> ep_consecutive_failures ep \<and> 0 \<le> ep_consecutive_successes ep"

definition store_wf :: "endpoint_store \<Rightarrow> bool" where
  "store_wf st \<longleftrightarrow> (\<forall>ep \<in> set (es_heap st). ep_wf ep)"

definition choice_of ::
  "int \<Rightarrow> int \<Rightarrow> InferenceRequest \<Rightarrow> endpoint_store \<Rightarrow> nat option \<Rightarrow> choice \<Rightarrow> bool" where
  "choice_of high now req st b ch \<longleftrightarrow> fst ch = b \<and>
     (\<forall>a. b = Some a \<longrightarrow> ch = (Some a, model_preference_rank (es_get st a) req,
        endpoint_score high req (opened now (es_get st a))))"

inductive circuit_step :: "CircuitState \<Rightarrow> CircuitState \<Rightarrow> bool" where
  stay: "circuit_step s s"
| trip: "circuit_step s Open"
| probe: "circuit_step Open HalfOpen"
| recover: "circuit_step s Closed"

inductive_simps circuit_step_simps: "circuit_step Closed s" "circuit_step Open s" "circuit_step HalfOpen s"

datatype router_event =
    RSelect int InferenceRequest
  | RResult nat bool int int
  | RHealth nat bool int int

fun router_step :: "router_event \<Rightarrow> vllm_task \<Rightarrow> vllm_task" where
  "router_step (RSelect now req) t = snd (select_endpoint now req t)"
| "router_step (RResult a ok latency now) t = update_endpoint_result a ok latency now t"
| "router_step (RHealth a ok latency now) t = update_endpoint_health a ok latency now t"

definition router_run :: "router_event list \<Rightarrow> vllm_task \<Rightarrow> vllm_task" where
  "router_run evs t = fold router_step evs t"

definition sample_request :: InferenceRequest where
  "sample_request = make_request sample_task 5 ''r1'' ''vllm.1001'' ''ipc://out'' ''llm.utf-8'' ''hello''
     JNull sample_options"

definition lost_request :: InferenceRequest where
  "lost_request = new_request\<lparr>rq_logical_model := ''c'', rq_fallback_chain := [''a'', ''b'', ''c''],
     rq_allow_degrade := False\<rparr>"

definition lost_task :: vllm_task where
  "lost_task = (new_task ''vllm.1000'' \<lparr>es_heap =
     [new_endpoint\<lparr>ep_name := ''e1'', ep_served_model := ''c'', ep_logical_models := [''c'']\<rparr>,
      new_endpoint\<lparr>ep_name := ''e2'', ep_served_model := ''b'', ep_role := ''fallback'',
                   ep_logical_models := [''c'', ''b'']\<rparr>], es_global = []\<rparr>)\<lparr>tk_endpoints := [0, 1]\<rparr>"

section \<open>Opening a circuit half\<close>

lemma opened_cases:
  "opened now ep = (if ep_circuit_state ep = Open \<and> ep_circuit_open_until_ms ep \<le> now
     then ep\<lparr>ep_circuit_state := HalfOpen, ep_half_open_inflight := 0\<rparr> else ep)"
  by (auto simp: opened_def endpoint_available_locked_def Let_def)

lemma opened_fields [simp]:
  "ep_inflight (opened now ep) = ep_inflight ep"
  "ep_max_concurrency (opened now ep) = ep_max_concurrency ep"
  "ep_served_model (opened now ep) = ep_served_model ep"
  "ep_logical_models (opened now ep) = ep_logical_models ep"
  "ep_role (opened now ep) = ep_role ep" "ep_max_context_len (opened now ep) = ep_max_context_len ep"
  "ep_healthy (opened now ep) = ep_healthy ep" "ep_base_url (opened now ep) = ep_base_url ep"
  "ep_consecutive_failures (opened now ep) = ep_consecutive_failures ep"
  "ep_consecutive_successes (opened now ep) = ep_consecutive_successes ep"
  by (simp_all add: opened_cases)

lemma opened_requests [simp]:
  "endpoint_supports_request (opened now ep) req = endpoint_supports_request ep req"
  "is_degraded_endpoint (opened now ep) req = is_degraded_endpoint ep req"
  "model_preference_rank (opened now ep) req = model_preference_rank ep req"
  "context_fits req (opened now ep) = context_fits req ep"
  "endpoint_runtime_key (opened now ep) = endpoint_runtime_key ep"
  by (simp_all add: endpoint_supports_request_def is_degraded_endpoint_def model_preference_rank_def
      context_fits_def endpoint_runtime_key_def)

lemma opened_idem [simp]: "opened now (opened now ep) = opened now ep"
  by (simp add: opened_cases)

lemma available_iff:
  "available now ep \<longleftrightarrow>
     \<not> (ep_circuit_state ep = Open \<and> now < ep_circuit_open_until_ms ep) \<and>
     (ep_circuit_state ep = HalfOpen \<longrightarrow> ep_half_open_inflight ep \<le> 0) \<and>
     (ep_circuit_state ep = Closed \<longrightarrow> ep_healthy ep) \<and> ep_inflight ep < ep_max_concurrency ep"
  by (cases "ep_circuit_state ep") (auto simp: available_def endpoint_available_locked_def Let_def)

lemma available_opened [simp]: "available now (opened now ep) = available now ep"
  by (auto simp: available_iff opened_cases)

lemma usable_opened [simp]: "usable now req (opened now ep) = usable now req ep"
  by (simp add: usable_def)

lemma available_locked_pair: "endpoint_available_locked ep now = (available now ep, opened now ep)"
  by (simp add: available_def opened_def)

lemma half_opened_update:
  assumes "half_opened now st s1" and "a < length (es_heap st)"
  shows "half_opened now st (es_update a (\<lambda>_. opened now (es_get s1 a)) s1)"
    and "es_get (es_update a (\<lambda>_. opened now (es_get s1 a)) s1) a = opened now (es_get st a)"
proof -
  have a: "a < length (es_heap s1)" using assms by (simp add: half_opened_def)
  have eq: "opened now (es_get s1 a) = opened now (es_get st a)"
    using assms(1) by (metis half_opened_def opened_idem)
  then show "es_get (es_update a (\<lambda>_. opened now (es_get s1 a)) s1) a = opened now (es_get st a)"
    using a by simp
  then show "half_opened now st (es_update a (\<lambda>_. opened now (es_get s1 a)) s1)"
    using assms(1) unfolding half_opened_def by (metis es_update_simps(1,2,4))
qed

section \<open>The loop implements the choice\<close>

lemma consider_endpoint_fst:
  "fst (consider_endpoint high req a ep ch) = fst ch \<or> fst (consider_endpoint high req a ep ch) = None \<or>
   (fst (consider_endpoint high req a ep ch) = Some a \<and>
    (is_degraded_endpoint ep req \<longrightarrow> rq_allow_degrade req))"
  by (auto simp: consider_endpoint_def Let_def split: prod.splits if_splits)

lemma consider_endpoint_unranked:
  "model_preference_rank ep req = INT_MAX \<Longrightarrow> consider_endpoint high req a ep ch = ch"
  by (simp add: consider_endpoint_def Let_def split: prod.splits)

lemma select_loop_choose:
  assumes "half_opened now st s1" and "addrs_ok st as"
    and "\<And>b. fst ch = Some b \<Longrightarrow> es_get s1 b = opened now (es_get st b)"
  shows "snd (select_loop high now req as s1 ch) = choose_loop high now req st as ch \<and>
    half_opened now st (fst (select_loop high now req as s1 ch)) \<and>
    (\<forall>b. fst (choose_loop high now req st as ch) = Some b \<longrightarrow>
       es_get (fst (select_loop high now req as s1 ch)) b = opened now (es_get st b))"
  using assms
proof (induction as arbitrary: s1 ch)
  case (Cons a as)
  let ?e = "es_get s1 a"
  have a: "a < length (es_heap st)" and as: "addrs_ok st as" using Cons.prems(2) by (simp_all add: addrs_ok_def)
  have same: "?e = es_get st a \<or> ?e = opened now (es_get st a)" using Cons.prems(1) by (simp add: half_opened_def)
  then have eqs: "endpoint_supports_request ?e req = endpoint_supports_request (es_get st a) req"
    "available now ?e = available now (es_get st a)" "opened now ?e = opened now (es_get st a)"
    by auto
  define s2 where "s2 = es_update a (\<lambda>_. opened now ?e) s1"
  have s2: "half_opened now st s2" "es_get s2 a = opened now (es_get st a)"
    unfolding s2_def using half_opened_update [OF Cons.prems(1) a] by simp_all
  have keep: "es_get s2 b = opened now (es_get st b)" if "fst ch = Some b" for b
    using Cons.prems(3) [OF that] s2(2) by (cases "b = a") (simp_all add: s2_def)
  let ?ch = "if usable now req (es_get st a)
    then consider_endpoint high req a (opened now (es_get st a)) ch else ch"
  have keep': "es_get s2 b = opened now (es_get st b)" if "fst ?ch = Some b" for b
    using that keep s2(2) consider_endpoint_fst [of high req a "opened now (es_get st a)" ch]
    by (auto split: if_splits)
  show ?case
  proof (cases "endpoint_supports_request (es_get st a) req")
    case True
    have "select_loop high now req (a # as) s1 ch = select_loop high now req as s2 ?ch"
      using True eqs consider_endpoint_unranked [of "opened now (es_get st a)" req high a ch]
      by (auto simp: available_locked_pair s2_def usable_def Let_def)
    then show ?thesis using Cons.IH [OF s2(1) as keep'] by simp
  next
    case False
    then show ?thesis using Cons.IH [OF Cons.prems(1) as Cons.prems(3)] eqs by (simp add: usable_def)
  qed
qed simp

lemma choose_eligible:
  assumes "fst (choose_loop high now req st as ch) = Some a"
  shows "fst ch = Some a \<or> (a \<in> set as \<and> eligible now req (es_get st a))"
  using assms
proof (induction as arbitrary: ch)
  case (Cons b as)
  show ?case
    using Cons.IH [of "if usable now req (es_get st b)
        then consider_endpoint high req b (opened now (es_get st b)) ch else ch"] Cons.prems
      consider_endpoint_fst [of high req b "opened now (es_get st b)" ch]
    by (auto simp: eligible_def split: if_splits)
qed simp

interpretation ep_best: scan_best
  "\<lambda>a b. better_endpoint high now req (es_get st a) (es_get st b)" for high now req st
  by unfold_locales (auto simp: better_endpoint_def)

lemma choose_scan:
  assumes "rq_allow_degrade req" and "choice_of high now req st b ch"
  shows "choice_of high now req st
    (ep_best.scan high now req st b (filter (\<lambda>a. usable now req (es_get st a)) as))
    (choose_loop high now req st as ch)"
  using assms(2)
proof (induction as arbitrary: b ch)
  case (Cons a as)
  show ?case
  proof (cases "usable now req (es_get st a)")
    case True
    let ?b = "case b of None \<Rightarrow> Some a | Some y \<Rightarrow>
      if better_endpoint high now req (es_get st a) (es_get st y) then Some a else b"
    have "choice_of high now req st ?b (consider_endpoint high req a (opened now (es_get st a)) ch)"
      using Cons.prems True assms(1)
      by (cases b) (auto simp: choice_of_def consider_endpoint_def better_endpoint_def usable_def Let_def
          split: prod.splits)
    from Cons.IH [OF this] show ?thesis using True by simp
  next
    case False
    then show ?thesis using Cons.IH [OF Cons.prems] by simp
  qed
qed simp

text \<open>What \<open>select_endpoint\<close> returns and leaves behind.\<close>

lemma select_endpoint_spec:
  assumes "addrs_ok (tk_store t) (tk_endpoints t)"
  shows "\<exists>st. half_opened now (tk_store t) st \<and>
    (\<forall>a. selection now req t = Some a \<longrightarrow> es_get st a = opened now (es_get (tk_store t) a)) \<and>
    select_endpoint now req t =
      (case selection now req t of None \<Rightarrow> (None, t\<lparr>tk_store := st\<rparr>)
       | Some a \<Rightarrow> (Some a, observe_endpoint_at a (t\<lparr>tk_store := es_update a acquire_endpoint st\<rparr>)))"
proof -
  let ?l = "select_loop (cf_high_priority_threshold (tk_cfg t)) now req (tk_endpoints t) (tk_store t)
    (None, INT_MAX, INT_MIN)"
  have ho: "half_opened now (tk_store t) (tk_store t)" by (simp add: half_opened_def)
  have "fst (snd ?l) = selection now req t" "half_opened now (tk_store t) (fst ?l)"
    "\<forall>a. fst (snd ?l) = Some a \<longrightarrow> es_get (fst ?l) a = opened now (es_get (tk_store t) a)"
    using select_loop_choose [OF ho assms, of "(None, INT_MAX, INT_MIN)"] by (simp_all add: selection_def)
  then show ?thesis
    by (intro exI [of _ "fst ?l"]) (simp add: select_endpoint_def case_prod_beta split: option.splits)
qed

lemma fst_select_endpoint:
  "addrs_ok (tk_store t) (tk_endpoints t) \<Longrightarrow> fst (select_endpoint now req t) = selection now req t"
  using select_endpoint_spec [of t now req] by (auto split: option.splits)

lemma selection_eligible:
  "selection now req t = Some a \<Longrightarrow>
   a \<in> set (tk_endpoints t) \<and> eligible now req (es_get (tk_store t) a)"
  using choose_eligible [of _ now req "tk_store t" "tk_endpoints t"] by (fastforce simp: selection_def)

lemma selection_scan:
  assumes "rq_allow_degrade req"
  shows "selection now req t = ep_best.scan (cf_high_priority_threshold (tk_cfg t)) now req (tk_store t) None
    (filter (\<lambda>a. usable now req (es_get (tk_store t) a)) (tk_endpoints t))"
  using choose_scan [OF assms, of "cf_high_priority_threshold (tk_cfg t)" now "tk_store t" None
      "(None, INT_MAX, INT_MIN)" "tk_endpoints t"]
  by (simp add: choice_of_def selection_def)

lemma selection_None_iff:
  "rq_allow_degrade req \<Longrightarrow> selection now req t = None \<longleftrightarrow>
    (\<forall>a \<in> set (tk_endpoints t). \<not> eligible now req (es_get (tk_store t) a))"
  by (simp add: selection_scan ep_best.scan_Some_iff filter_empty_conv eligible_def)

lemma selection_best:
  assumes "rq_allow_degrade req" and "selection now req t = Some a" and "b \<in> set (tk_endpoints t)"
    and "eligible now req (es_get (tk_store t) b)"
  shows "\<not> better_endpoint (cf_high_priority_threshold (tk_cfg t)) now req
    (es_get (tk_store t) b) (es_get (tk_store t) a)"
  using assms(2) unfolding selection_scan [OF assms(1)]
  by (rule ep_best.scan_best) (use assms(3,4) in \<open>simp add: eligible_def\<close>)

lemma observe_endpoint_frame [frame_simps]:
  "tk_store (observe_endpoint_at a t) = tk_store t" "tk_cfg (observe_endpoint_at a t) = tk_cfg t"
  "tk_endpoints (observe_endpoint_at a t) = tk_endpoints t" "tk_pending (observe_endpoint_at a t) = tk_pending t"
  "tk_out (observe_endpoint_at a t) = tk_out t" "tk_records (observe_endpoint_at a t) = tk_records t"
  "tk_metrics (observe_endpoint_at a t) = tk_metrics t" "tk_stopping (observe_endpoint_at a t) = tk_stopping t"
  "tk_retry_count (observe_endpoint_at a t) = tk_retry_count t"
  "tk_out_callback (observe_endpoint_at a t) = tk_out_callback t"
  "tk_queue_schedule_slot (observe_endpoint_at a t) = tk_queue_schedule_slot t"
  by (simp_all add: observe_endpoint_at_def)

section \<open>Well-formed endpoints\<close>

lemma ep_wf_opened: "ep_wf ep \<Longrightarrow> ep_wf (opened now ep)"
  by (auto simp: ep_wf_def opened_cases)

lemma ep_wf_acquire: "ep_wf ep \<Longrightarrow> available now ep \<Longrightarrow> ep_wf (acquire_endpoint (opened now ep))"
  by (auto simp: ep_wf_def opened_cases available_iff acquire_endpoint_def)

lemma ep_wf_result: "ep_wf ep \<Longrightarrow> ep_wf (endpoint_result c now ok latency ep)"
  by (simp add: ep_wf_def endpoint_result_def count_failure_def Let_def)

lemma ep_wf_health: "ep_wf ep \<Longrightarrow> ep_wf (endpoint_health c now ok latency ep)"
  by (simp add: ep_wf_def endpoint_health_def count_failure_def Let_def)

lemma store_wf_iff: "store_wf st \<longleftrightarrow> (\<forall>x < length (es_heap st). ep_wf (es_get st x))"
  by (simp add: store_wf_def es_get_def all_set_conv_all_nth)

lemma store_wf_update:
  assumes "store_wf st" and "a < length (es_heap st) \<Longrightarrow> ep_wf (es_get st a) \<Longrightarrow> ep_wf (f (es_get st a))"
  shows "store_wf (es_update a f st)"
proof -
  have "ep_wf (es_get (es_update a f st) x)" if "x < length (es_heap st)" for x
    using assms that by (cases "x = a") (simp_all add: store_wf_iff)
  then show ?thesis by (simp add: store_wf_iff)
qed

lemma store_wf_half_opened: "store_wf st \<Longrightarrow> half_opened now st st' \<Longrightarrow> store_wf st'"
  by (auto simp: store_wf_iff half_opened_def) (metis ep_wf_opened)

lemma select_endpoint_wf [wf_intros]:
  assumes ok: "addrs_ok (tk_store t) (tk_endpoints t)" and wf: "store_wf (tk_store t)"
  shows "store_wf (tk_store (snd (select_endpoint now req t)))"
proof -
  obtain st where s: "half_opened now (tk_store t) st"
    "\<And>a. selection now req t = Some a \<Longrightarrow> es_get st a = opened now (es_get (tk_store t) a)"
    "select_endpoint now req t = (case selection now req t of None \<Rightarrow> (None, t\<lparr>tk_store := st\<rparr>)
       | Some a \<Rightarrow> (Some a, observe_endpoint_at a (t\<lparr>tk_store := es_update a acquire_endpoint st\<rparr>)))"
    using select_endpoint_spec [OF ok] by blast
  have wf': "store_wf st" by (rule store_wf_half_opened [OF wf s(1)])
  show ?thesis
  proof (cases "selection now req t")
    case None
    then show ?thesis using s(3) wf' by simp
  next
    case (Some a)
    then have "available now (es_get (tk_store t) a)" "a < length (es_heap (tk_store t))"
      using selection_eligible [OF Some] ok by (auto simp: eligible_def usable_def addrs_ok_def)
    then have "ep_wf (acquire_endpoint (es_get st a))"
      using s(2) [OF Some] ep_wf_acquire wf by (simp add: store_wf_iff)
    then show ?thesis using s(3) Some by (simp add: frame_simps store_wf_update wf')
  qed
qed

lemma update_result_wf [wf_intros]:
  "store_wf (tk_store t) \<Longrightarrow> store_wf (tk_store (update_endpoint_result a ok latency now t))"
  by (simp add: update_endpoint_result_def frame_simps store_wf_update ep_wf_result)

lemma update_health_wf [wf_intros]:
  "store_wf (tk_store t) \<Longrightarrow> store_wf (tk_store (update_endpoint_health a ok latency now t))"
  by (simp add: update_endpoint_health_def frame_simps store_wf_update ep_wf_health)

section \<open>The circuit breaker\<close>

lemma circuit_step_opened: "circuit_step (ep_circuit_state ep) (ep_circuit_state (opened now ep))"
  by (auto simp: opened_cases intro: circuit_step.intros)

lemma circuit_step_result:
  "circuit_step (ep_circuit_state ep) (ep_circuit_state (endpoint_result c now ok latency ep))"
  by (auto simp: endpoint_result_def count_failure_def Let_def intro: circuit_step.intros)

lemma circuit_step_health:
  "circuit_step (ep_circuit_state ep) (ep_circuit_state (endpoint_health c now ok latency ep))"
  by (auto simp: endpoint_health_def count_failure_def Let_def intro: circuit_step.intros)

lemma result_fails:
  "ep_consecutive_failures (endpoint_result c now False latency ep) = ep_consecutive_failures ep + 1"
  "cf_circuit_failure_threshold c \<le> ep_consecutive_failures ep + 1 \<Longrightarrow>
     ep_circuit_state (endpoint_result c now False latency ep) = Open \<and>
     ep_circuit_open_until_ms (endpoint_result c now False latency ep) = now + cf_circuit_open_ms c"
  by (simp_all add: endpoint_result_def count_failure_def Let_def)

lemma result_succeeds:
  "ep_consecutive_successes (endpoint_result c now True latency ep) = ep_consecutive_successes ep + 1"
  "cf_recovery_threshold c \<le> ep_consecutive_successes ep + 1 \<Longrightarrow>
     ep_circuit_state (endpoint_result c now True latency ep) = Closed \<and>
     ep_healthy (endpoint_result c now True latency ep)"
  by (simp_all add: endpoint_result_def Let_def)

lemma router_step_frame:
  assumes "addrs_ok (tk_store t) (tk_endpoints t)"
  shows "tk_endpoints (router_step e t) = tk_endpoints t \<and>
    length (es_heap (tk_store (router_step e t))) = length (es_heap (tk_store t))"
proof (cases e)
  case (RSelect now req)
  obtain st where "half_opened now (tk_store t) st"
    "select_endpoint now req t = (case selection now req t of None \<Rightarrow> (None, t\<lparr>tk_store := st\<rparr>)
       | Some a \<Rightarrow> (Some a, observe_endpoint_at a (t\<lparr>tk_store := es_update a acquire_endpoint st\<rparr>)))"
    using select_endpoint_spec [OF assms] by blast
  then show ?thesis
    using RSelect by (auto simp: half_opened_def frame_simps split: option.splits)
qed (simp_all add: update_endpoint_result_def update_endpoint_health_def frame_simps)

interpretation router_ops: invariant_of router_step "\<lambda>t. addrs_ok (tk_store t) (tk_endpoints t) \<and> store_wf (tk_store t)"
proof unfold_locales
  fix t :: vllm_task and e :: router_event
  assume ok: "addrs_ok (tk_store t) (tk_endpoints t) \<and> store_wf (tk_store t)"
  then have "addrs_ok (tk_store (router_step e t)) (tk_endpoints (router_step e t))"
    using router_step_frame [of t e] by (simp add: addrs_ok_def)
  moreover have "store_wf (tk_store (router_step e t))" using ok by (cases e) (simp_all add: wf_intros)
  ultimately show "addrs_ok (tk_store (router_step e t)) (tk_endpoints (router_step e t)) \<and> store_wf (tk_store (router_step e t))" ..
qed

lemma router_run_wf:
  assumes "addrs_ok (tk_store t) (tk_endpoints t)" and "store_wf (tk_store t)"
  shows "store_wf (tk_store (router_run evs t))"
  using router_ops.run [of t evs] assms by (simp add: router_run_def)

lemma failures_accumulate:
  "ep_consecutive_failures (fold (\<lambda>(now, latency). endpoint_result c now False latency) rs ep) =
   ep_consecutive_failures ep + int (length rs)"
  by (induction rs arbitrary: ep) (auto simp: result_fails)

lemma successes_accumulate:
  "ep_consecutive_successes (fold (\<lambda>(now, latency). endpoint_result c now True latency) rs ep) =
   ep_consecutive_successes ep + int (length rs)"
  by (induction rs arbitrary: ep) (auto simp: result_succeeds)

lemma wait_loop_returns:
  "wait_until \<le> wr_now (rounds (i + k)) \<Longrightarrow> k < fuel \<Longrightarrow>
   \<exists>r. wait_loop fuel rounds i wait_until req t = Some r"
proof (induction fuel arbitrary: i k t)
  case (Suc fuel)
  show ?case
  proof (cases k)
    case 0
    then show ?thesis using Suc.prems by simp
  next
    case (Suc k')
    then have "\<exists>r. wait_loop fuel rounds (Suc i) wait_until req t' = Some r" for t'
      using Suc.IH [of "Suc i" k'] Suc.prems \<open>k = Suc k'\<close> by simp
    then show ?thesis by (auto simp: Let_def split: prod.splits option.splits)
  qed
qed simp

section \<open>Properties\<close>





text \<open>
  C6. Whatever sequence of selections, call results and health checks runs, every endpoint keeps
  its accounts in order: the calls in flight stay between zero and \<^verbatim>\<open>max_concurrency\<close>, at most one
  probe of a half-open circuit is counted, and the runs of failures and successes are not negative.
\<close>
theorem endpoint_accounts_bounded:
  assumes "addrs_ok (tk_store t) (tk_endpoints t)" and "store_wf (tk_store t)"
  shows "\<forall>ep \<in> set (es_heap (tk_store (router_run evs t))).
    0 \<le> ep_inflight ep \<and> ep_inflight ep \<le> ep_max_concurrency ep \<and>
    0 \<le> ep_half_open_inflight ep \<and> ep_half_open_inflight ep \<le> 1 \<and>
    0 \<le> ep_consecutive_failures ep \<and> 0 \<le> ep_consecutive_successes ep"
  using router_run_wf [OF assms, of evs] by (simp add: store_wf_def ep_wf_def)

theorem endpoint_accounts_bounded_witness:
  "list_all (\<lambda>ep. ep_inflight ep \<le> ep_max_concurrency ep)
     (es_heap (tk_store (router_run (replicate 5 (RSelect 6 sample_request)) sample_task)))"
proof -
  have "addrs_ok (tk_store sample_task) (tk_endpoints sample_task)" by code_simp
  moreover have "store_wf (tk_store sample_task)" by code_simp
  ultimately show ?thesis unfolding list_all_iff using endpoint_accounts_bounded by blast
qed



text \<open>
  C31. Waiting for an endpoint ends: once the clock of some round has reached the end of the waiting
  time, \<^verbatim>\<open>wait_for_endpoint\<close> has returned, whatever the other threads did in between.
\<close>
theorem wait_for_endpoint_returns:
  assumes "min (rq_deadline_at_ms req) (now' + cf_endpoint_wait_ms (tk_cfg (snd (select_endpoint now req t))))
      \<le> wr_now (rounds k)"
  shows "\<exists>r. wait_for_endpoint (Suc k) rounds now now' req t = Some r"
  using wait_loop_returns [of _ rounds 0 k "Suc k" req] assms
  by (auto simp: wait_for_endpoint_def split: prod.splits option.splits)

theorem wait_for_endpoint_returns_witness:
  "\<exists>r. wait_for_endpoint 3 (\<lambda>i. \<lparr>wr_stopping = False, wr_now = 3000 * int i, wr_env = (\<lambda>t. t),
     wr_select_now = 0, wr_deadline_now = 0\<rparr>) 0 0 sample_request sample_task = Some r"
proof -
  have "min (rq_deadline_at_ms sample_request)
      (0 + cf_endpoint_wait_ms (tk_cfg (snd (select_endpoint 0 sample_request sample_task)))) \<le> 6000"
    by code_simp
  then show ?thesis
    using wait_for_endpoint_returns [of sample_request 0 0 sample_task
      "\<lambda>i. \<lparr>wr_stopping = False, wr_now = 3000 * int i, wr_env = (\<lambda>t. t),
        wr_select_now = 0, wr_deadline_now = 0\<rparr>" 2] by (simp add: numeral_3_eq_3)
qed

text \<open>Without degradation the selection is not complete: a better ranked endpoint that is then
  refused as degraded has already displaced the eligible one.\<close>

lemma select_endpoint_loses_eligible:
  "fst (select_endpoint 0 lost_request lost_task) = None \<and> 0 \<in> set (tk_endpoints lost_task) \<and>
   eligible 0 lost_request (es_get (tk_store lost_task) 0)"
proof (intro conjI)
  show "fst (select_endpoint 0 lost_request lost_task) = None" by code_simp
  show "0 \<in> set (tk_endpoints lost_task)" by code_simp
  show "eligible 0 lost_request (es_get (tk_store lost_task) 0)" by code_simp
qed

end
