(* ===== verification/Vllm_Stream.thy ===== *)
theory Vllm_Stream
  imports Endpoint_Router
begin

text \<open>
  What a worker does with the answer of a vLLM server (\<^verbatim>\<open>node/vllm-client/src/main.cpp\<close>): the curl
  write callbacks, the server-sent event lines of a stream, the text of a complete answer, and the
  body of the request.

  The JSON parser (\<open>parse\<close>, with the text of the exception on the left) and printer (\<open>dump\<close>) are
  parameters. One call of a write callback comes with the clock reading \<open>now\<close>; the source reads the
  clock at most once per stream, at the first token.
\<close>

section \<open>Parameters\<close>

record json_text =
  jt_parse :: "string \<Rightarrow> string + json"
  jt_dump :: "json \<Rightarrow> string"

fun type_name :: "json \<Rightarrow> string" where
  "type_name JNull = ''null''"
| "type_name (JObj _) = ''object''"
| "type_name (JArr _) = ''array''"
| "type_name (JStr _) = ''string''"
| "type_name (JBool _) = ''boolean''"
| "type_name (JInt _) = ''number''"
| "type_name (JFloat _) = ''number''"

text \<open>\<^verbatim>\<open>get<std::string>()\<close>, with the text of the type error.\<close>

definition get_string :: "json \<Rightarrow> string + string" where
  "get_string j =
     (case j of JStr s \<Rightarrow> Inr s
      | _ \<Rightarrow> Inl (''[json.exception.type_error.302] type must be string, but is '' @ type_name j))"

section \<open>The stream\<close>

record StreamState =
  sst_req :: InferenceRequest
  sst_buffer :: string
  sst_index :: int
  sst_done :: bool
  sst_failed :: bool
  sst_started :: bool
  sst_begin_ms :: int
  sst_first_token_latency_ms :: int
  sst_error_message :: string

definition new_stream :: "InferenceRequest \<Rightarrow> int \<Rightarrow> StreamState" where
  "new_stream req begin_ms = \<lparr>sst_req = req, sst_buffer = [], sst_index = 0, sst_done = False,
     sst_failed = False, sst_started = False, sst_begin_ms = begin_ms,
     sst_first_token_latency_ms = -1, sst_error_message = []\<rparr>"

definition write_body_callback :: "string \<Rightarrow> string \<Rightarrow> string" where
  "write_body_callback ptr body = body @ ptr"

definition first_choice :: "json \<Rightarrow> json option" where
  "first_choice parsed =
     (case jget parsed ''choices'' of Some (JArr (choice # _)) \<Rightarrow> Some choice | _ \<Rightarrow> None)"

definition choice_delta :: "json \<Rightarrow> string" where
  "choice_delta choice =
     (case Option.bind (jget choice ''delta'') (\<lambda>d. jget d ''content'') of
        Some (JStr s) \<Rightarrow> s
      | _ \<Rightarrow> (case jget choice ''text'' of Some (JStr s) \<Rightarrow> s | _ \<Rightarrow> []))"

definition emit_stream_delta ::
  "int \<Rightarrow> string \<Rightarrow> StreamState \<Rightarrow> vllm_task \<Rightarrow> StreamState \<times> vllm_task" where
  "emit_stream_delta now delta s t =
     (if delta = [] then (s, t)
      else let s' = s\<lparr>sst_first_token_latency_ms := (if sst_started s then sst_first_token_latency_ms s
                                                    else now - sst_begin_ms s),
                      sst_started := True, sst_index := sst_index s + 1\<rparr>
           in (s', emit_delta (sst_req s) delta False (sst_index s) t))"

datatype stream_event =
    SE_Ignore
  | SE_Done
  | SE_Fail string
  | SE_Delta string

definition stream_event_of :: "json_text \<Rightarrow> string \<Rightarrow> stream_event" where
  "stream_event_of jt line =
     (if line = [] \<or> take 5 line \<noteq> ''data:'' then SE_Ignore
      else let payload = dropWhile (\<lambda>c. c = CHR '' '') (drop 5 line)
           in if payload = ''[DONE]'' then SE_Done
              else case jt_parse jt payload of
                     Inl e \<Rightarrow> SE_Fail e
                   | Inr parsed \<Rightarrow>
                       (case jget parsed ''error'' of
                          Some err \<Rightarrow> SE_Fail (jt_dump jt err)
                        | None \<Rightarrow>
                            (case first_choice parsed of
                               None \<Rightarrow> SE_Ignore
                             | Some choice \<Rightarrow>
                                 if choice_delta choice = [] then SE_Ignore
                                 else SE_Delta (choice_delta choice))))"

definition handle_stream_line ::
  "json_text \<Rightarrow> int \<Rightarrow> string \<Rightarrow> StreamState \<times> vllm_task \<Rightarrow> StreamState \<times> vllm_task" where
  "handle_stream_line jt now line st =
     (let (s, t) = st
      in case stream_event_of jt line of
           SE_Ignore \<Rightarrow> (s, t)
         | SE_Done \<Rightarrow> (s\<lparr>sst_done := True\<rparr>, t)
         | SE_Fail e \<Rightarrow> (s\<lparr>sst_failed := True, sst_error_message := e\<rparr>, t)
         | SE_Delta delta \<Rightarrow> emit_stream_delta now delta s t)"

definition strip_cr :: "string \<Rightarrow> string" where
  "strip_cr line = (if line \<noteq> [] \<and> last line = CHR 0x0D then butlast line else line)"

text \<open>The loop of \<^verbatim>\<open>write_stream_callback\<close>: complete lines leave the buffer one by one.\<close>

lemma handle_stream_line_buffer [simp]:
  "sst_buffer (fst (handle_stream_line jt now line st)) = sst_buffer (fst st)"
  by (simp add: handle_stream_line_def emit_stream_delta_def Let_def
      split: stream_event.splits prod.splits)

function drain_lines ::
  "json_text \<Rightarrow> int \<Rightarrow> StreamState \<times> vllm_task \<Rightarrow> StreamState \<times> vllm_task" where
  "drain_lines jt now st =
     (case find_index_of (\<lambda>c. c = CHR 0x0A) (sst_buffer (fst st)) of
        None \<Rightarrow> st
      | Some pos \<Rightarrow>
          (let line = take pos (sst_buffer (fst st));
               s = (fst st)\<lparr>sst_buffer := drop (Suc pos) (sst_buffer (fst st))\<rparr>
           in drain_lines jt now (handle_stream_line jt now (strip_cr line) (s, snd st))))"
  by auto

termination
proof (relation "measure (\<lambda>(_, _, st). length (sst_buffer (fst st)))")
  fix jt :: json_text and now :: int and st :: "StreamState \<times> vllm_task" and pos line s
  assume "find_index_of (\<lambda>c. c = CHR 0x0A) (sst_buffer (fst st)) = Some pos"
    and "s = (fst st)\<lparr>sst_buffer := drop (Suc pos) (sst_buffer (fst st))\<rparr>"
  then show "((jt, now, handle_stream_line jt now (strip_cr line) (s, snd st)), (jt, now, st))
      \<in> measure (\<lambda>(_, _, st). length (sst_buffer (fst st)))"
    using find_index_of_Some by fastforce
qed simp

declare drain_lines.simps [simp del]

definition write_stream_callback ::
  "json_text \<Rightarrow> int \<Rightarrow> string \<Rightarrow> StreamState \<times> vllm_task \<Rightarrow> StreamState \<times> vllm_task" where
  "write_stream_callback jt now ptr st =
     (let (s, t) = st in drain_lines jt now (s\<lparr>sst_buffer := sst_buffer s @ ptr\<rparr>, t))"

section \<open>A complete answer\<close>

definition extract_response_text :: "json_text \<Rightarrow> string \<Rightarrow> string + string" where
  "extract_response_text jt body =
     (case jt_parse jt body of
        Inl e \<Rightarrow> Inl e
      | Inr parsed \<Rightarrow>
          (case jget parsed ''error'' of
             Some err \<Rightarrow>
               (case jget err ''message'' of
                  Some m \<Rightarrow> (case get_string m of Inl e \<Rightarrow> Inl e | Inr msg \<Rightarrow> Inl msg)
                | None \<Rightarrow> Inl (jt_dump jt err))
           | None \<Rightarrow>
               (let missing = Inl ''missing choices content in vLLM response''
                in case first_choice parsed of
                     None \<Rightarrow> missing
                   | Some choice \<Rightarrow>
                       (case Option.bind (jget choice ''message'') (\<lambda>m. jget m ''content'') of
                          Some (JStr s) \<Rightarrow> Inr s
                        | _ \<Rightarrow> (case jget choice ''text'' of Some (JStr s) \<Rightarrow> Inr s | _ \<Rightarrow> missing)))))"

section \<open>The body of a request\<close>

fun exponent_part :: "string \<Rightarrow> int" where
  "exponent_part (c # cs) =
     (if c = CHR ''e'' \<or> c = CHR ''E''
      then (case parse_signed cs of Some e \<Rightarrow> if cs \<noteq> [] \<and> is_space (hd cs) then 0 else e | None \<Rightarrow> 0)
      else 0)"
| "exponent_part [] = 0"

text \<open>\<^verbatim>\<open>std::stod\<close> on decimal notation: spaces, a sign, digits with an optional fraction and an
  optional exponent; the longest prefix counts.\<close>

definition stod :: "string \<Rightarrow> rat result" where
  "stod s =
     (let s = dropWhile is_space s;
          (sign, s) = (case s of c # cs \<Rightarrow> if c = CHR ''-'' then (-1, cs)
                                         else if c = CHR ''+'' then (1, cs) else (1, s)
                       | [] \<Rightarrow> (1, []));
          whole = takeWhile (\<lambda>c. char_digit c \<noteq> None) s;
          rest = dropWhile (\<lambda>c. char_digit c \<noteq> None) s;
          frac = (case rest of c # cs \<Rightarrow> if c = CHR ''.'' then takeWhile (\<lambda>c. char_digit c \<noteq> None) cs
                                        else [] | [] \<Rightarrow> []);
          rest = (case rest of c # cs \<Rightarrow> if c = CHR ''.'' then dropWhile (\<lambda>c. char_digit c \<noteq> None) cs
                                        else rest | [] \<Rightarrow> [])
      in if whole = [] \<and> frac = [] then Inl InvalidArgument
         else Inr (sign * rnd (of_nat (digits_value 0 (whole @ frac)) * 10 powi (- int (length frac))
                     * 10 powi exponent_part rest)))"

definition chat_message :: "string \<Rightarrow> string \<Rightarrow> json" where
  "chat_message role content = JObj [(''role'', JStr role), (''content'', JStr content)]"

definition make_request_body :: "SchedConfig \<Rightarrow> InferenceRequest \<Rightarrow> string \<Rightarrow> json" where
  "make_request_body c req served_model =
     JObj [(''model'', JStr served_model), (''stream'', JBool (rq_enstream req)),
           (''max_tokens'', JInt (rq_max_tokens req)),
           (''temperature'', JFloat (case stod (cf_temperature c) of Inl _ \<Rightarrow> rnd (7 / 10) | Inr x \<Rightarrow> x)),
           (''messages'', JArr
              ((if rq_system_prompt req \<noteq> [] then [chat_message ''system'' (rq_system_prompt req)] else []) @
               [chat_message ''user'' (rq_prompt req)]))]"

section \<open>Reference definitions\<close>

fun split_on :: "char \<Rightarrow> string \<Rightarrow> string list" where
  "split_on c [] = [[]]"
| "split_on c (x # xs) =
     (if x = c then [] # split_on c xs
      else (x # hd (split_on c xs)) # tl (split_on c xs))"

definition complete_lines :: "string \<Rightarrow> string list" where
  "complete_lines s = map strip_cr (butlast (split_on (CHR 0x0A) s))"

definition partial_line :: "string \<Rightarrow> string" where
  "partial_line s = last (split_on (CHR 0x0A) s)"

definition stream_events :: "json_text \<Rightarrow> string \<Rightarrow> stream_event list" where
  "stream_events jt s = map (stream_event_of jt) (complete_lines s)"

fun deltas :: "stream_event list \<Rightarrow> string list" where
  "deltas [] = []"
| "deltas (SE_Delta d # es) = d # deltas es"
| "deltas (_ # es) = deltas es"

fun is_fail :: "stream_event \<Rightarrow> bool" where
  "is_fail (SE_Fail _) = True"
| "is_fail _ = False"

definition delta_message :: "InferenceRequest \<Rightarrow> int \<Rightarrow> string \<Rightarrow> out_message" where
  "delta_message req i d =
     \<lparr>msg_request_id = rq_request_id req, msg_work_id = rq_work_id req,
      msg_output_url = rq_output_url req, msg_object = rq_response_format req,
      msg_data = delta_body req d False i, msg_error_code = 0, msg_error_message = []\<rparr>"

fun numbered :: "InferenceRequest \<Rightarrow> int \<Rightarrow> string list \<Rightarrow> out_message list" where
  "numbered req i [] = []"
| "numbered req i (d # ds) = delta_message req i d # numbered req (i + 1) ds"

definition sample_json :: json_text where
  "sample_json = \<lparr>jt_parse = (\<lambda>s. if s = ''x'' then Inr (JObj [(''choices'', JArr [JObj [(''delta'',
       JObj [(''content'', JStr ''hi'')])]])]) else Inl ''parse error''), jt_dump = (\<lambda>_. ''json'')\<rparr>"

section \<open>Lines\<close>

lemma split_on_nonempty [simp]: "split_on c s \<noteq> []"
  by (induction s) auto

lemma split_on_None: "find_index_of (\<lambda>x. x = c) s = None \<Longrightarrow> split_on c s = [s]"
  by (induction s) (auto simp: find_index_of_None)

lemma split_on_Some:
  "find_index_of (\<lambda>x. x = c) s = Some pos \<Longrightarrow>
   split_on c s = take pos s # split_on c (drop (Suc pos) s)"
proof (induction s arbitrary: pos)
  case (Cons x s)
  show ?case
  proof (cases "x = c")
    case True
    then show ?thesis using Cons.prems by simp
  next
    case False
    then obtain p where "find_index_of (\<lambda>x. x = c) s = Some p" "pos = Suc p"
      using Cons.prems by (auto split: option.splits)
    then show ?thesis using Cons.IH [of p] False by simp
  qed
qed simp

lemma split_on_append: "split_on c (xs @ ys) = butlast (split_on c xs) @ split_on c (last (split_on c xs) @ ys)"
proof (induction xs)
  case (Cons x xs)
  obtain l ls where l: "split_on c xs = l # ls" by (cases "split_on c xs") auto
  show ?case using Cons l by (cases "ls = []") auto
qed simp

lemma no_newline_partial: "CHR 0x0A \<notin> set (partial_line s)"
  unfolding partial_line_def
proof (induction s)
  case (Cons x s)
  obtain l ls where "split_on (CHR 0x0A) s = l # ls" by (cases "split_on (CHR 0x0A) s") auto
  then show ?case using Cons by (cases "ls = []") auto
qed simp

lemma handle_stream_line_comm:
  "handle_stream_line jt now line (s\<lparr>sst_buffer := b\<rparr>, t) =
     ((fst (handle_stream_line jt now line (s, t)))\<lparr>sst_buffer := b\<rparr>,
      snd (handle_stream_line jt now line (s, t)))"
  by (simp add: handle_stream_line_def emit_stream_delta_def Let_def split: stream_event.splits)

text \<open>The loop hands the complete lines of the buffer over in order and keeps the rest.\<close>

lemma drain_lines_fold:
  "drain_lines jt now (s, t) = fold (handle_stream_line jt now) (complete_lines (sst_buffer s))
     (s\<lparr>sst_buffer := partial_line (sst_buffer s)\<rparr>, t)"
proof -
  have "drain_lines jt now st = fold (handle_stream_line jt now) (complete_lines (sst_buffer (fst st)))
      ((fst st)\<lparr>sst_buffer := partial_line (sst_buffer (fst st))\<rparr>, snd st)" for st
  proof (induction jt now st rule: drain_lines.induct)
    case (1 jt now st)
    show ?case
    proof (cases "find_index_of (\<lambda>c. c = CHR 0x0A) (sst_buffer (fst st))")
      case None
      then show ?thesis
        using split_on_None [OF None]
        by (simp add: drain_lines.simps [of jt now st] complete_lines_def partial_line_def)
    next
      case (Some pos)
      let ?b = "sst_buffer (fst st)"
      let ?st = "handle_stream_line jt now (strip_cr (take pos ?b)) ((fst st)\<lparr>sst_buffer := drop (Suc pos) ?b\<rparr>, snd st)"
      have sp: "split_on (CHR 0x0A) ?b = take pos ?b # split_on (CHR 0x0A) (drop (Suc pos) ?b)"
        by (rule split_on_Some [OF Some])
      have "drain_lines jt now st = drain_lines jt now ?st"
        using Some by (subst drain_lines.simps) simp
      also have "\<dots> = fold (handle_stream_line jt now) (complete_lines (drop (Suc pos) ?b))
          ((fst ?st)\<lparr>sst_buffer := partial_line (drop (Suc pos) ?b)\<rparr>, snd ?st)"
        using 1 [OF Some refl refl] by simp
      finally show ?thesis
        by (simp add: complete_lines_def partial_line_def sp handle_stream_line_comm)
    qed
  qed
  from this [of "(s, t)"] show ?thesis by simp
qed

lemma fold_handle_comm:
  "fold (handle_stream_line jt now) ls (s\<lparr>sst_buffer := b\<rparr>, t) =
     ((fst (fold (handle_stream_line jt now) ls (s, t)))\<lparr>sst_buffer := b\<rparr>,
      snd (fold (handle_stream_line jt now) ls (s, t)))"
proof (induction ls arbitrary: s t)
  case (Cons l ls)
  obtain s' t' where h: "handle_stream_line jt now l (s, t) = (s', t')" by (cases "handle_stream_line jt now l (s, t)")
  show ?case using Cons.IH [of s' t'] by (simp add: handle_stream_line_comm h)
qed simp

lemma fold_handle_buffer:
  "sst_buffer (fst (fold (handle_stream_line jt now) ls st)) = sst_buffer (fst st)"
  by (induction ls arbitrary: st) simp_all

lemma callback_append:
  "write_stream_callback jt now (x @ y) st =
     write_stream_callback jt now y (write_stream_callback jt now x st)"
proof -
  obtain s t where st: "st = (s, t)" by (cases st)
  let ?b = "sst_buffer s @ x"
  let ?h = "fold (handle_stream_line jt now)"
  obtain s1 t1 where h: "?h (complete_lines ?b) (s, t) = (s1, t1)" by (cases "?h (complete_lines ?b) (s, t)")
  have lines: "complete_lines (?b @ y) = complete_lines ?b @ complete_lines (partial_line ?b @ y)"
    "partial_line (?b @ y) = partial_line (partial_line ?b @ y)"
    using split_on_append [of "CHR 0x0A" ?b y] by (simp_all add: complete_lines_def partial_line_def butlast_append)
  have "write_stream_callback jt now x st = (s1\<lparr>sst_buffer := partial_line ?b\<rparr>, t1)"
    by (simp add: write_stream_callback_def st drain_lines_fold fold_handle_comm h)
  then show ?thesis
    by (simp add: write_stream_callback_def [of jt now "x @ y"] write_stream_callback_def [of jt now y] st
        drain_lines_fold fold_handle_comm lines h
        flip: append_assoc)
qed

lemma callback_empty: "CHR 0x0A \<notin> set (sst_buffer (fst st)) \<Longrightarrow> write_stream_callback jt now [] st = st"
proof -
  assume "CHR 0x0A \<notin> set (sst_buffer (fst st))"
  then have "find_index_of (\<lambda>c. c = CHR 0x0A) (sst_buffer (fst st)) = None"
    by (auto simp: find_index_of_None)
  then show ?thesis by (cases st) (simp add: write_stream_callback_def drain_lines.simps)
qed

lemma callback_buffer:
  "sst_buffer (fst (write_stream_callback jt now x (s, t))) = partial_line (sst_buffer s @ x)"
  by (simp add: write_stream_callback_def drain_lines_fold fold_handle_buffer)

lemma stream_chunks_fold:
  "CHR 0x0A \<notin> set (sst_buffer (fst st)) \<Longrightarrow>
   fold (write_stream_callback jt now) chunks st = write_stream_callback jt now (concat chunks) st"
proof (induction chunks arbitrary: st)
  case Nil
  then show ?case by (simp add: callback_empty)
next
  case (Cons c chunks)
  have "CHR 0x0A \<notin> set (sst_buffer (fst (write_stream_callback jt now c st)))"
    by (cases st) (simp add: callback_buffer no_newline_partial)
  from Cons.IH [OF this] show ?case by (simp add: callback_append)
qed

lemma new_stream_buffer [simp]: "sst_buffer (new_stream req b) = []"
  by (simp add: new_stream_def)

text \<open>What a run of lines does to the stream and to the messages.\<close>

lemma emit_delta_out:
  "rq_enoutput req \<Longrightarrow> tk_out_callback t \<Longrightarrow> emit_delta req d False i t = t\<lparr>tk_out := tk_out t @ [delta_message req i d]\<rparr>"
  by (simp add: emit_delta_def emit_def delta_message_def)

lemma handle_lines_effect:
  assumes "rq_enoutput (sst_req s)" and "tk_out_callback t"
    and "fold (handle_stream_line jt now) ls (s, t) = (s', t')"
  shows "t' = t\<lparr>tk_out := tk_out t @ numbered (sst_req s) (sst_index s) (deltas (map (stream_event_of jt) ls))\<rparr> \<and>
    sst_index s' = sst_index s + int (length (deltas (map (stream_event_of jt) ls))) \<and>
    (sst_failed s' \<longleftrightarrow> sst_failed s \<or> list_ex is_fail (map (stream_event_of jt) ls)) \<and>
    (sst_started s' \<longleftrightarrow> sst_started s \<or> deltas (map (stream_event_of jt) ls) \<noteq> [])"
  using assms
proof (induction ls arbitrary: s t)
  case (Cons l ls)
  show ?case
  proof (cases "stream_event_of jt l")
    case (SE_Delta d)
    then have d: "d \<noteq> []"
      by (auto simp: stream_event_of_def Let_def split: if_splits sum.splits option.splits)
    let ?s = "s\<lparr>sst_first_token_latency_ms := (if sst_started s then sst_first_token_latency_ms s
        else now - sst_begin_ms s), sst_started := True, sst_index := sst_index s + 1\<rparr>"
    let ?t = "t\<lparr>tk_out := tk_out t @ [delta_message (sst_req s) (sst_index s) d]\<rparr>"
    have "handle_stream_line jt now l (s, t) = (?s, ?t)"
      using SE_Delta d Cons.prems(1,2)
      by (simp add: handle_stream_line_def emit_stream_delta_def emit_delta_out)
    then show ?thesis using Cons.IH [of ?s ?t] Cons.prems SE_Delta by simp
  next
    case SE_Ignore
    then show ?thesis
      using Cons.IH [of s t] Cons.prems by (simp add: handle_stream_line_def [of jt now l])
  next
    case SE_Done
    then show ?thesis
      using Cons.IH [of "s\<lparr>sst_done := True\<rparr>" t] Cons.prems
      by (simp add: handle_stream_line_def [of jt now l])
  next
    case (SE_Fail e)
    then show ?thesis
      using Cons.IH [of "s\<lparr>sst_failed := True, sst_error_message := e\<rparr>" t] Cons.prems
      by (simp add: handle_stream_line_def [of jt now l])
  qed
qed simp

lemma deltas_append: "deltas (xs @ ys) = deltas xs @ deltas ys"
  by (induction xs rule: deltas.induct) simp_all

lemma numbered_append: "numbered req i (xs @ ys) = numbered req i xs @ numbered req (i + int (length xs)) ys"
  by (induction xs arbitrary: i) (simp_all add: algebra_simps)

lemma handle_line_req: "sst_req (fst (handle_stream_line jt now l st)) = sst_req (fst st)"
  by (simp add: handle_stream_line_def emit_stream_delta_def Let_def split: stream_event.splits prod.splits)

lemma fold_handle_req: "sst_req (fst (fold (handle_stream_line jt now) ls st)) = sst_req (fst st)"
  by (induction ls arbitrary: st) (simp_all add: handle_line_req)

lemma complete_lines_append:
  "complete_lines (b @ y) = complete_lines b @ complete_lines (partial_line b @ y)"
  "partial_line (b @ y) = partial_line (partial_line b @ y)"
  using split_on_append [of "CHR 0x0A" b y] by (simp_all add: complete_lines_def partial_line_def butlast_append)

lemma callback_effect:
  assumes "rq_enoutput (sst_req s)" and "tk_out_callback t"
    and "write_stream_callback jt now ptr (s, t) = (s', t')"
    and "evs = map (stream_event_of jt) (complete_lines (sst_buffer s @ ptr))"
  shows "t' = t\<lparr>tk_out := tk_out t @ numbered (sst_req s) (sst_index s) (deltas evs)\<rparr> \<and>
    sst_req s' = sst_req s \<and> sst_index s' = sst_index s + int (length (deltas evs)) \<and>
    (sst_failed s' \<longleftrightarrow> sst_failed s \<or> list_ex is_fail evs) \<and>
    (sst_started s' \<longleftrightarrow> sst_started s \<or> deltas evs \<noteq> []) \<and>
    sst_buffer s' = partial_line (sst_buffer s @ ptr)"
proof -
  let ?ls = "complete_lines (sst_buffer s @ ptr)"
  obtain s1 t1 where h: "fold (handle_stream_line jt now) ?ls (s, t) = (s1, t1)"
    by (cases "fold (handle_stream_line jt now) ?ls (s, t)")
  have res: "s' = s1\<lparr>sst_buffer := partial_line (sst_buffer s @ ptr)\<rparr>" "t' = t1"
    using assms(3) by (simp_all add: write_stream_callback_def drain_lines_fold fold_handle_comm h)
  have "sst_req s1 = sst_req s" using fold_handle_req [of jt now ?ls "(s, t)"] h by simp
  then show ?thesis using handle_lines_effect [OF assms(1,2) h] assms(4) res by simp
qed

lemma callbacks_effect:
  assumes "rq_enoutput (sst_req s)" and "tk_out_callback t"
    and "fold (\<lambda>(ptr, now). write_stream_callback jt now ptr) chunks (s, t) = (s', t')"
    and "evs = map (stream_event_of jt) (complete_lines (sst_buffer s @ concat (map fst chunks)))"
    and "CHR 0x0A \<notin> set (sst_buffer s)"
  shows "t' = t\<lparr>tk_out := tk_out t @ numbered (sst_req s) (sst_index s) (deltas evs)\<rparr> \<and>
    sst_index s' = sst_index s + int (length (deltas evs)) \<and>
    (sst_failed s' \<longleftrightarrow> sst_failed s \<or> list_ex is_fail evs) \<and>
    (sst_started s' \<longleftrightarrow> sst_started s \<or> deltas evs \<noteq> []) \<and>
    sst_buffer s' = partial_line (sst_buffer s @ concat (map fst chunks))"
  using assms
proof (induction chunks arbitrary: s t evs)
  case Nil
  then have "split_on (CHR 0x0A) (sst_buffer s) = [sst_buffer s]"
    by (intro split_on_None) (auto simp: find_index_of_None)
  with Nil show ?case by (simp add: complete_lines_def partial_line_def)
next
  case (Cons c chunks)
  obtain ptr now where c: "c = (ptr, now)" by (cases c)
  let ?rest = "concat (map fst chunks)"
  define e1 where "e1 = map (stream_event_of jt) (complete_lines (sst_buffer s @ ptr))"
  define e2 where "e2 = map (stream_event_of jt) (complete_lines (partial_line (sst_buffer s @ ptr) @ ?rest))"
  obtain s1 t1 where s1: "write_stream_callback jt now ptr (s, t) = (s1, t1)"
    by (cases "write_stream_callback jt now ptr (s, t)")
  note eff = callback_effect [OF Cons.prems(1,2) s1 e1_def]
  have evs: "evs = e1 @ e2"
    using Cons.prems(4) complete_lines_append(1) [of "sst_buffer s @ ptr" ?rest] by (simp add: c e1_def e2_def)
  have pl: "partial_line (sst_buffer s @ ptr @ ?rest) = partial_line (sst_buffer s1 @ ?rest)"
    using complete_lines_append(2) [of "sst_buffer s @ ptr" ?rest] eff by simp
  have "rq_enoutput (sst_req s1)" "tk_out_callback t1" "CHR 0x0A \<notin> set (sst_buffer s1)"
    using eff Cons.prems(1,2) no_newline_partial by simp_all
  moreover have "fold (\<lambda>(ptr, now). write_stream_callback jt now ptr) chunks (s1, t1) = (s', t')"
    using Cons.prems(3) by (simp add: c s1)
  moreover have "e2 = map (stream_event_of jt) (complete_lines (sst_buffer s1 @ ?rest))"
    using eff by (simp add: e2_def)
  ultimately show ?case
    using Cons.IH [of s1 t1 e2] eff pl by (simp add: evs deltas_append numbered_append c)
qed

section \<open>Properties\<close>

text \<open>
  C12. How curl cuts an answer into pieces does not matter: feeding the pieces one after the other
  to \<^verbatim>\<open>write_stream_callback\<close> is the same as feeding the whole text at once, for every stream whose
  buffer holds no complete line, as every stream does between two calls.
\<close>
theorem stream_chunking_irrelevant:
  assumes "CHR 0x0A \<notin> set (sst_buffer (fst st))"
  shows "fold (write_stream_callback jt now) chunks st = write_stream_callback jt now (concat chunks) st"
  by (rule stream_chunks_fold [OF assms])

theorem stream_chunking_irrelevant_witness:
  "fold (write_stream_callback sample_json 4) [''dat'', ''a: x'', [CHR 0x0A]] (new_stream sample_request 0, sample_task) =
   write_stream_callback sample_json 4 (concat [''dat'', ''a: x'', [CHR 0x0A]]) (new_stream sample_request 0, sample_task)"
  by (rule stream_chunking_irrelevant) (simp add: new_stream_def)

text \<open>
  C20. A stream relays exactly the text fragments of its complete lines, in order and numbered from
  0, one message each; nothing else of the task changes, whatever the pieces and whenever they
  arrive. It counts as failed exactly when one of the lines was an error or could not be parsed,
  and as started exactly when a fragment was sent.
\<close>
theorem stream_relays_deltas:
  assumes "rq_enoutput req" and "tk_out_callback t"
    and "fold (\<lambda>(ptr, now). write_stream_callback jt now ptr) chunks (new_stream req begin_ms, t) = (s', t')"
    and "evs = stream_events jt (concat (map fst chunks))"
  shows "t' = t\<lparr>tk_out := tk_out t @ numbered req 0 (deltas evs)\<rparr> \<and>
    sst_index s' = int (length (deltas evs)) \<and> (sst_failed s' \<longleftrightarrow> list_ex is_fail evs) \<and>
    (sst_started s' \<longleftrightarrow> deltas evs \<noteq> []) \<and>
    sst_buffer s' = partial_line (concat (map fst chunks))"
  using callbacks_effect [OF _ assms(2,3)] assms(1,4)
  by (simp add: new_stream_def stream_events_def)

theorem stream_relays_deltas_witness:
  "tk_out (snd (fold (\<lambda>(ptr, now). write_stream_callback sample_json now ptr)
     [(''dat'', 3), (''a: x'', 4), ([CHR 0x0A], 4)] (new_stream sample_request 0, sample_task))) =
   [delta_message sample_request 0 ''hi'']"
proof -
  let ?chunks = "[(''dat'', 3), (''a: x'', 4), ([CHR 0x0A], 4)]"
  let ?r = "fold (\<lambda>(ptr, now). write_stream_callback sample_json now ptr) ?chunks (new_stream sample_request 0, sample_task)"
  have "rq_enoutput sample_request" and "tk_out_callback sample_task" and "tk_out sample_task = []"
    and "deltas (stream_events sample_json (concat (map fst ?chunks))) = [''hi'']" by code_simp+
  then show ?thesis
    using stream_relays_deltas [of sample_request sample_task sample_json ?chunks 0 "fst ?r" "snd ?r" _, OF _ _ _ refl]
    by simp
qed

end
