(* ===== verification/Request_Exec.thy ===== *)
theory Request_Exec
  imports Vllm_Stream
begin

text \<open>
  The life of a request in a worker thread (\<^verbatim>\<open>node/vllm-client/src/main.cpp\<close>): \<^verbatim>\<open>call_vllm\<close>, the attempts
  of \<^verbatim>\<open>handle_request\<close>, \<^verbatim>\<open>worker_loop\<close> and \<^verbatim>\<open>stop\<close>.

  libcurl is the parameter \<open>ae_curl\<close>: for the URL, headers, body and timeout of a request it gives the
  pieces of the answer with the clock reading of each write callback, the curl code and the HTTP
  code. The clock readings and the reads of \<^verbatim>\<open>stopping_\<close> that one attempt makes are the fields of
  \<open>attempt_env\<close>. A result \<open>None\<close> means that a waiting loop did not end within its fuel.
\<close>

section \<open>One call\<close>

record curl_request =
  cr_url :: string
  cr_headers :: "string list"
  cr_body :: string
  cr_timeout_ms :: int

record curl_response =
  cv_init_ok :: bool
  cv_begin_ms :: int
  cv_chunks :: "(string \<times> int) list"
  cv_code :: int
  cv_strerror :: string
  cv_http_code :: int
  cv_finished_ms :: int

record call_result =
  cl_ok :: bool
  cl_req :: InferenceRequest
  cl_error :: string
  cl_started :: bool
  cl_task :: vllm_task

definition vllm_curl_request :: "json_text \<Rightarrow> SchedConfig \<Rightarrow> InferenceRequest \<Rightarrow> VllmEndpoint \<Rightarrow> curl_request" where
  "vllm_curl_request jt c req ep =
     (let api_key = (if ep_api_key ep = [] then cf_api_key c else ep_api_key ep)
      in \<lparr>cr_url = ep_base_url ep @ cf_endpoint c,
          cr_headers = ''Content-Type: application/json'' #
            (if api_key \<noteq> [] then [''Authorization: Bearer '' @ api_key] else []),
          cr_body = jt_dump jt (make_request_body c req (ep_served_model ep)),
          cr_timeout_ms = rq_timeout_ms req\<rparr>)"

definition receive_answer ::
  "json_text \<Rightarrow> InferenceRequest \<Rightarrow> curl_response \<Rightarrow> vllm_task \<Rightarrow> StreamState \<times> vllm_task" where
  "receive_answer jt req resp t =
     (if rq_enstream req
      then fold (\<lambda>(ptr, now). write_stream_callback jt now ptr) (cv_chunks resp)
             (new_stream req (cv_begin_ms resp), t)
      else (new_stream req (cv_begin_ms resp), t))"

definition answer_body :: "InferenceRequest \<Rightarrow> curl_response \<Rightarrow> string" where
  "answer_body req resp =
     (if rq_enstream req then []
      else fold (\<lambda>(ptr, now). write_body_callback ptr) (cv_chunks resp) [])"

definition call_vllm ::
  "json_text \<Rightarrow> (curl_request \<Rightarrow> curl_response) \<Rightarrow> VllmEndpoint \<Rightarrow> InferenceRequest \<Rightarrow> string \<Rightarrow> bool
     \<Rightarrow> vllm_task \<Rightarrow> call_result" where
  "call_vllm jt curl ep req err started t =
     (let resp = curl (vllm_curl_request jt (tk_cfg t) req ep)
      in if \<not> cv_init_ok resp
         then \<lparr>cl_ok = False, cl_req = req, cl_error = ''curl_easy_init failed'',
               cl_started = started, cl_task = t\<rparr>
      else let (s, t) = receive_answer jt req resp t;
               body = answer_body req resp;
               req = req\<lparr>rq_finished_ms := cv_finished_ms resp,
                         rq_total_latency_ms := cv_finished_ms resp - rq_started_ms req,
                         rq_first_token_latency_ms := sst_first_token_latency_ms s\<rparr>;
               fail = (\<lambda>e. \<lparr>cl_ok = False, cl_req = req, cl_error = e, cl_started = sst_started s,
                            cl_task = t\<rparr>);
               ok = (\<lambda>t. \<lparr>cl_ok = True, cl_req = req, cl_error = err, cl_started = sst_started s,
                          cl_task = t\<rparr>)
           in if cv_code resp \<noteq> 0 then fail (cv_strerror resp)
              else if cv_http_code resp < 200 \<or> 300 \<le> cv_http_code resp
              then fail (''HTTP '' @ to_string (cv_http_code resp) @ '': '' @ body)
              else if rq_enstream req
              then if sst_failed s then fail (sst_error_message s)
                   else ok (emit_delta req [] True (sst_index s) t)
              else case extract_response_text jt body of
                     Inl e \<Rightarrow> fail e
                   | Inr txt \<Rightarrow> ok (emit_text req txt t))"

section \<open>The attempts\<close>

record attempt_env =
  ae_stopping :: bool
  ae_deadline_now :: int
  ae_select_now :: int
  ae_wait_now :: int
  ae_wait_fuel :: nat
  ae_rounds :: "nat \<Rightarrow> wait_round"
  ae_curl :: "curl_request \<Rightarrow> curl_response"
  ae_result_now :: int
  ae_finish_now :: int

record attempt_state =
  as_ok :: bool
  as_stream_started :: bool
  as_error :: string
  as_final_req :: InferenceRequest
  as_task :: vllm_task

definition finish_success :: "int \<Rightarrow> InferenceRequest \<Rightarrow> vllm_task \<Rightarrow> InferenceRequest \<times> vllm_task" where
  "finish_success now req t =
     (let req = req\<lparr>rq_finished_ms := now\<rparr>;
          t = update_record req RS_Success [] t;
          t = t\<lparr>tk_metrics := on_request_finish True False (rq_degraded req) (rq_total_latency_ms req)
                  (rq_queue_wait_ms req) (rq_first_token_latency_ms req) (tk_metrics t)\<rparr>
      in (req, observe_request_metrics req True False 0 t))"

fun attempt_loop ::
  "json_text \<Rightarrow> (nat \<Rightarrow> attempt_env) \<Rightarrow> nat \<Rightarrow> nat \<Rightarrow> InferenceRequest \<Rightarrow> attempt_state \<Rightarrow> attempt_state option" where
  "attempt_loop jt envs 0 attempt req s = Some s"
| "attempt_loop jt envs (Suc n) attempt req s =
     (let e = envs attempt
      in if ae_stopping e then Some s
      else if deadline_exceeded (ae_deadline_now e) req then Some (s\<lparr>as_error := ''deadline exceeded''\<rparr>)
      else case wait_for_endpoint (ae_wait_fuel e) (ae_rounds e) (ae_select_now e) (ae_wait_now e) req
                  (as_task s) of
             None \<Rightarrow> None
           | Some (None, t) \<Rightarrow>
               Some (s\<lparr>as_error := ''no healthy endpoint or endpoint capacity timeout'', as_task := t\<rparr>)
           | Some (Some a, t) \<Rightarrow>
               (let ep = es_get (tk_store t) a;
                    attempt_req = prepare_request_for_endpoint ep (req\<lparr>rq_retry_count := int attempt\<rparr>);
                    r = call_vllm jt (ae_curl e) ep attempt_req (as_error s) (as_stream_started s) t;
                    latency = (if 0 \<le> rq_total_latency_ms (cl_req r) then rq_total_latency_ms (cl_req r)
                               else 0);
                    t = update_endpoint_result a (cl_ok r) latency (ae_result_now e) (cl_task r);
                    s = s\<lparr>as_ok := cl_ok r, as_stream_started := cl_started r, as_error := cl_error r,
                          as_final_req := cl_req r, as_task := t\<rparr>
                in if cl_ok r
                   then let (freq, t) = finish_success (ae_finish_now e) (cl_req r) t
                        in Some (s\<lparr>as_final_req := freq, as_task := t\<rparr>)
                   else let s = s\<lparr>as_task := t\<lparr>tk_retry_count := to_int32 (tk_retry_count t + 1)\<rparr>\<rparr>
                        in if cl_started r
                           then Some (s\<lparr>as_error := ''vLLM stream failed after output started: '' @ cl_error r\<rparr>)
                           else attempt_loop jt envs n (Suc attempt) req s))"

definition finish_failure :: "int \<Rightarrow> string \<Rightarrow> InferenceRequest \<Rightarrow> vllm_task \<Rightarrow> vllm_task" where
  "finish_failure now err req t =
     (let err = (if err = [] then ''vLLM request failed'' else err);
          code = (if err = ''deadline exceeded'' then -42 else -41);
          req = req\<lparr>rq_finished_ms := now, rq_total_latency_ms := now - rq_started_ms req\<rparr>;
          timeout = (code = -42);
          t = update_record req (if timeout then RS_Timeout else RS_Failed) err t;
          t = t\<lparr>tk_metrics := on_request_finish False timeout (rq_degraded req) (rq_total_latency_ms req)
                  (rq_queue_wait_ms req) (rq_first_token_latency_ms req) (tk_metrics t)\<rparr>
      in emit_error req code err (observe_request_metrics req False timeout code t))"

definition run_mock :: "InferenceRequest \<Rightarrow> vllm_task \<Rightarrow> vllm_task" where
  "run_mock req t =
     (if rq_enstream req
      then emit_delta req [] True 2 (emit_delta req '' [mock-vllm]'' False 1
             (emit_delta req (rq_prompt req) False 0 t))
      else emit_text req (rq_prompt req @ '' [mock-vllm]'') t)"

definition handle_mock :: "int \<Rightarrow> InferenceRequest \<Rightarrow> vllm_task \<Rightarrow> vllm_task" where
  "handle_mock now req t =
     (let req = req\<lparr>rq_endpoint_name := ''mock'', rq_served_model := cf_model (tk_cfg t)\<rparr>;
          t = run_mock req t;
          req = req\<lparr>rq_finished_ms := now, rq_total_latency_ms := now - rq_started_ms req\<rparr>;
          t = update_record req RS_Success [] t;
          t = t\<lparr>tk_metrics := on_request_finish True False False (rq_total_latency_ms req)
                  (rq_queue_wait_ms req) (rq_first_token_latency_ms req) (tk_metrics t)\<rparr>
      in observe_request_metrics req True False 0 t)"

text \<open>\<open>stopping\<close> and \<open>now\<close> are read after the attempts.\<close>

definition handle_request ::
  "json_text \<Rightarrow> (nat \<Rightarrow> attempt_env) \<Rightarrow> bool \<Rightarrow> int \<Rightarrow> InferenceRequest \<Rightarrow> vllm_task \<Rightarrow> vllm_task option" where
  "handle_request jt envs stopping now req t =
     (if cf_mock_mode (tk_cfg t) then Some (handle_mock now req t)
      else case attempt_loop jt envs (nat (rq_max_retries req + 1)) 0 req
                  \<lparr>as_ok = False, as_stream_started = False, as_error = [], as_final_req = req,
                   as_task = t\<rparr> of
             None \<Rightarrow> None
           | Some s \<Rightarrow>
               if \<not> as_ok s \<and> \<not> stopping
               then Some (finish_failure now (as_error s) (as_final_req s) (as_task s))
               else Some (as_task s))"

section \<open>Workers\<close>

record worker_env =
  we_started_now :: int
  we_attempts :: "nat \<Rightarrow> attempt_env"
  we_stopping :: bool
  we_finish_now :: int

text \<open>One iteration of \<^verbatim>\<open>worker_loop\<close>: the flag is False when the loop returns.\<close>

definition worker_iteration :: "json_text \<Rightarrow> worker_env \<Rightarrow> vllm_task \<Rightarrow> (bool \<times> vllm_task) option" where
  "worker_iteration jt e t =
     (case pop_next_request t of
        (PopStopped, t) \<Rightarrow> Some (False, t)
      | (PopBlocked, t) \<Rightarrow> None
      | (PopRequest req, t) \<Rightarrow>
          (let req = req\<lparr>rq_started_ms := we_started_now e,
                         rq_queue_wait_ms := we_started_now e - rq_created_ms req\<rparr>;
               t = update_record req RS_Running [] t;
               t = t\<lparr>tk_status := TS_Running\<rparr>
           in case handle_request jt (we_attempts e) (we_stopping e) (we_finish_now e) req t of
                None \<Rightarrow> None
              | Some t \<Rightarrow> Some (True, if tk_stopping t then t else t\<lparr>tk_status := TS_Ready\<rparr>)))"

fun worker_drain :: "json_text \<Rightarrow> (nat \<Rightarrow> worker_env) \<Rightarrow> nat \<Rightarrow> nat \<Rightarrow> vllm_task \<Rightarrow> vllm_task option" where
  "worker_drain jt envs 0 i t = None"
| "worker_drain jt envs (Suc fuel) i t =
     (case worker_iteration jt (envs i) t of
        None \<Rightarrow> None
      | Some (True, t) \<Rightarrow> worker_drain jt envs fuel (Suc i) t
      | Some (False, t) \<Rightarrow> Some t)"

text \<open>\<^verbatim>\<open>stop\<close>: the workers that are joined run their loops to the end.\<close>

definition task_stop ::
  "tsdb \<Rightarrow> json_text \<Rightarrow> (nat \<Rightarrow> worker_env) \<Rightarrow> nat \<Rightarrow> int \<Rightarrow> vllm_task \<Rightarrow> vllm_task option" where
  "task_stop db jt envs fuel now t =
     (if tk_stopping t \<and> tk_workers t = 0 \<and> \<not> tk_health_worker t then Some t
      else let t = t\<lparr>tk_stopping := True, tk_status := TS_Stopping\<rparr>
           in case (if tk_workers t = 0 then Some t else worker_drain jt envs fuel 0 t) of
                None \<Rightarrow> None
              | Some t \<Rightarrow>
                  Some (t\<lparr>tk_workers := 0, tk_health_worker := False, tk_status := TS_Stopped,
                          tk_observability := obs_stop db now (tk_observability t)\<rparr>))"

section \<open>Notions for the proofs\<close>

definition quiet_rounds :: "(nat \<Rightarrow> wait_round) \<Rightarrow> bool" where
  "quiet_rounds rounds \<longleftrightarrow> (\<forall>i. wr_env (rounds i) = (\<lambda>t. t))"

text \<open>No other thread acts between the steps of this worker.\<close>

definition quiet :: "(nat \<Rightarrow> attempt_env) \<Rightarrow> bool" where
  "quiet envs \<longleftrightarrow> (\<forall>i. quiet_rounds (ae_rounds (envs i)))"

definition inflight_at :: "vllm_task \<Rightarrow> nat \<Rightarrow> int" where
  "inflight_at t a = ep_inflight (es_get (tk_store t) a)"

text \<open>Only the endpoint objects and the observability buffers may differ.\<close>

definition routed :: "vllm_task \<Rightarrow> vllm_task \<Rightarrow> bool" where
  "routed t t' \<longleftrightarrow> tk_cfg t' = tk_cfg t \<and> tk_endpoints t' = tk_endpoints t \<and> tk_out t' = tk_out t \<and>
     tk_records t' = tk_records t \<and> tk_metrics t' = tk_metrics t \<and> tk_pending t' = tk_pending t \<and>
     tk_out_callback t' = tk_out_callback t \<and> tk_stopping t' = tk_stopping t \<and>
     length (es_heap (tk_store t')) = length (es_heap (tk_store t))"

definition task_ok :: "vllm_task \<Rightarrow> bool" where
  "task_ok t \<longleftrightarrow> addrs_ok (tk_store t) (tk_endpoints t) \<and> store_wf (tk_store t)"

text \<open>The effect of a selection with result \<open>r\<close>: one more call in flight on the endpoint chosen.\<close>

definition acquired :: "vllm_task \<Rightarrow> nat option \<Rightarrow> vllm_task \<Rightarrow> bool" where
  "acquired t r t' \<longleftrightarrow> routed t t' \<and> task_ok t' \<and> (\<forall>a. r = Some a \<longrightarrow> a < length (es_heap (tk_store t))) \<and>
     (\<forall>x < length (es_heap (tk_store t)). inflight_at t' x = inflight_at t x + (if r = Some x then 1 else 0))"

definition finish_message :: "InferenceRequest \<Rightarrow> int \<Rightarrow> out_message" where
  "finish_message req i =
     \<lparr>msg_request_id = rq_request_id req, msg_work_id = rq_work_id req,
      msg_output_url = rq_output_url req, msg_object = rq_response_format req,
      msg_data = delta_body req [] True i, msg_error_code = 0, msg_error_message = []\<rparr>"

definition settled :: "vllm_task \<Rightarrow> vllm_task \<Rightarrow> bool" where
  "settled t t' \<longleftrightarrow> tk_cfg t' = tk_cfg t \<and> tk_endpoints t' = tk_endpoints t \<and>
     tk_pending t' = tk_pending t \<and> tk_out_callback t' = tk_out_callback t \<and>
     tk_stopping t' = tk_stopping t \<and> task_ok t' \<and>
     length (es_heap (tk_store t')) = length (es_heap (tk_store t)) \<and>
     (\<forall>x < length (es_heap (tk_store t)). inflight_at t' x = inflight_at t x)"

definition outcomes :: "vllm_task \<Rightarrow> nat" where
  "outcomes t = mc_success_requests (tk_metrics t) + mc_failed_requests (tk_metrics t)"

text \<open>The status of the newest record of a task id.\<close>

definition record_status :: "int \<Rightarrow> vllm_task \<Rightarrow> RequestStatus option" where
  "record_status tid t =
     map_option rr_status (List.find (\<lambda>r. rr_task_id r = tid) (rev (tk_records t)))"

text \<open>Every wait of a request has fuel for the rounds until its deadline.\<close>

definition patient :: "(nat \<Rightarrow> attempt_env) \<Rightarrow> InferenceRequest \<Rightarrow> bool" where
  "patient envs req \<longleftrightarrow> (\<forall>i. \<exists>k < ae_wait_fuel (envs i). rq_deadline_at_ms req \<le> wr_now (ae_rounds (envs i) k))"

definition idle :: "vllm_task \<Rightarrow> vllm_task \<Rightarrow> bool" where
  "idle t u \<longleftrightarrow> settled t u \<and> tk_out u = tk_out t \<and> tk_records u = tk_records t \<and> tk_metrics u = tk_metrics t"

text \<open>Where the messages of a request go, and where a message goes: the id and the address of the client.\<close>

abbreviation reply_to :: "InferenceRequest \<Rightarrow> string \<times> string" where
  "reply_to req \<equiv> (rq_request_id req, rq_output_url req)"

abbreviation msg_to :: "out_message \<Rightarrow> string \<times> string" where
  "msg_to m \<equiv> (msg_request_id m, msg_output_url m)"

text \<open>What the attempts of a request do to the task.\<close>

definition attempted :: "InferenceRequest \<Rightarrow> attempt_state \<Rightarrow> attempt_state \<Rightarrow> bool" where
  "attempted req s s' \<longleftrightarrow> settled (as_task s) (as_task s') \<and>
     reply_to (as_final_req s') = reply_to req \<and> rq_task_id (as_final_req s') = rq_task_id req \<and>
     outcomes (as_task s') = outcomes (as_task s) + (if as_ok s' then 1 else 0) \<and>
     tk_records (as_task s') = tk_records (if as_ok s'
       then update_record (as_final_req s') RS_Success [] (as_task s) else as_task s) \<and>
     (\<exists>ds areq m. tk_out (as_task s') =
        tk_out (as_task s) @ numbered areq 0 ds @ (if as_ok s' then [m] else []) \<and>
        reply_to areq = reply_to req \<and> msg_to m = reply_to req \<and> msg_error_code m = 0)"

text \<open>What a request leaves behind once it is answered: fragments, one last message, one outcome.\<close>

definition answered :: "InferenceRequest \<Rightarrow> vllm_task \<Rightarrow> vllm_task \<Rightarrow> bool" where
  "answered req t t' \<longleftrightarrow> outcomes t' = Suc (outcomes t) \<and>
     (\<exists>ds areq m. tk_out t' = tk_out t @ numbered areq 0 ds @ [m] \<and> reply_to areq = reply_to req \<and>
        msg_to m = reply_to req \<and> msg_error_code m \<in> {0, -41, -42} \<and>
        record_status (rq_task_id req) t' = map_option
          (\<lambda>_. if msg_error_code m = 0 then RS_Success else if msg_error_code m = -42 then RS_Timeout else RS_Failed)
          (record_status (rq_task_id req) t))"

definition sample_attempt :: attempt_env where
  "sample_attempt = \<lparr>ae_stopping = False, ae_deadline_now = 6, ae_select_now = 6, ae_wait_now = 6,
     ae_wait_fuel = 2, ae_rounds = (\<lambda>i. \<lparr>wr_stopping = False, wr_now = 500000 * int i, wr_env = (\<lambda>t. t),
       wr_select_now = 6, wr_deadline_now = 6\<rparr>),
     ae_curl = (\<lambda>r. \<lparr>cv_init_ok = True, cv_begin_ms = 6,
       cv_chunks = [(''dat'', 7), (''a: x'', 8), ([CHR 0x0A], 8)], cv_code = 0, cv_strerror = [],
       cv_http_code = 200, cv_finished_ms = 9\<rparr>),
     ae_result_now = 9, ae_finish_now = 9\<rparr>"

section \<open>Waiting\<close>

lemma routed_refl [simp]: "routed t t"
  by (simp add: routed_def)

lemma routed_trans: "routed t u \<Longrightarrow> routed u v \<Longrightarrow> routed t v"
  by (simp add: routed_def)

lemma select_endpoint_effect:
  assumes "task_ok t" and "select_endpoint now req t = (r, t')"
  shows "acquired t r t'"
proof -
  have ok: "addrs_ok (tk_store t) (tk_endpoints t)" and wf: "store_wf (tk_store t)"
    using assms(1) by (simp_all add: task_ok_def)
  obtain st where s: "half_opened now (tk_store t) st"
    "select_endpoint now req t = (case selection now req t of None \<Rightarrow> (None, t\<lparr>tk_store := st\<rparr>)
       | Some a \<Rightarrow> (Some a, observe_endpoint_at a (t\<lparr>tk_store := es_update a acquire_endpoint st\<rparr>)))"
    using select_endpoint_spec [OF ok] by blast
  have len: "length (es_heap st) = length (es_heap (tk_store t))"
    and infl: "ep_inflight (es_get st x) = inflight_at t x" for x
    using s(1) by (auto simp: half_opened_def inflight_at_def) (metis opened_fields(1))
  have wf': "store_wf (tk_store t')" using select_endpoint_wf [OF ok wf, of now req] assms(2) by simp
  show ?thesis
  proof (cases "selection now req t")
    case None
    then show ?thesis using s(2) assms(2) len infl ok wf'
      by (auto simp: acquired_def routed_def task_ok_def addrs_ok_def inflight_at_def)
  next
    case (Some a)
    have a: "a < length (es_heap (tk_store t))" using selection_eligible [OF Some] ok by (simp add: addrs_ok_def)
    have t': "r = Some a" "t' = observe_endpoint_at a (t\<lparr>tk_store := es_update a acquire_endpoint st\<rparr>)"
      using s(2) assms(2) Some by simp_all
    have "inflight_at t' x = inflight_at t x + (if r = Some x then 1 else 0)" for x
      using a len infl t' by (cases "x = a") (simp_all add: inflight_at_def frame_simps acquire_endpoint_def)
    then show ?thesis using t' a len ok wf'
      by (simp add: acquired_def routed_def task_ok_def addrs_ok_def frame_simps)
  qed
qed

lemma acquired_ok: "acquired t r t' \<Longrightarrow> task_ok t'"
  by (simp add: acquired_def)

lemma acquired_trans:
  assumes "acquired t None u" and "acquired u r v"
  shows "acquired t r v"
proof -
  have "length (es_heap (tk_store u)) = length (es_heap (tk_store t))"
    using assms(1) by (simp add: acquired_def routed_def)
  moreover have "routed t v" using assms routed_trans unfolding acquired_def by blast
  ultimately show ?thesis using assms by (simp add: acquired_def)
qed

lemma acquired_refl: "task_ok t \<Longrightarrow> acquired t None t"
  by (simp add: acquired_def)

lemma wait_loop_effect:
  assumes "task_ok t" and "quiet_rounds rounds" and "wait_loop fuel rounds i until req t = Some (r, t')"
  shows "acquired t r t'"
  using assms(1,3)
proof (induction fuel arbitrary: i t)
  case (Suc fuel)
  have env: "wr_env (rounds i) t = t" using assms(2) by (simp add: quiet_rounds_def)
  obtain r1 t1 where s: "select_endpoint (wr_select_now (rounds i)) req t = (r1, t1)"
    by (cases "select_endpoint (wr_select_now (rounds i)) req t")
  note eff = select_endpoint_effect [OF Suc.prems(1) s]
  have step: "wait_loop (Suc fuel) rounds i until req t =
      (if wr_stopping (rounds i) \<or> until \<le> wr_now (rounds i) then Some (None, t)
       else case r1 of Some a \<Rightarrow> Some (r1, t1)
         | None \<Rightarrow> if deadline_exceeded (wr_deadline_now (rounds i)) req then Some (r1, t1)
                  else wait_loop fuel rounds (Suc i) until req t1)"
    using s env by (simp add: Let_def split: option.split)
  show ?case
  proof (cases "wr_stopping (rounds i) \<or> until \<le> wr_now (rounds i)")
    case True
    then have "r = None \<and> t' = t" using Suc.prems(2) unfolding step by simp
    then show ?thesis using Suc.prems(1) by (simp add: acquired_refl)
  next
    case go: False
    show ?thesis
    proof (cases "r1 = None \<and> \<not> deadline_exceeded (wr_deadline_now (rounds i)) req")
      case True
      then have "wait_loop fuel rounds (Suc i) until req t1 = Some (r, t')"
        using Suc.prems(2) go unfolding step by simp
      note IH = Suc.IH [OF acquired_ok [OF eff] this]
      have "acquired t None t1" using eff True by simp
      from acquired_trans [OF this IH] show ?thesis .
    next
      case False
      then have "r = r1 \<and> t' = t1" using Suc.prems(2) go unfolding step by (cases r1) simp_all
      then show ?thesis using eff by simp
    qed
  qed
qed simp

lemma wait_for_endpoint_effect:
  assumes "task_ok t" and "quiet_rounds rounds"
    and "wait_for_endpoint fuel rounds now now' req t = Some (r, t')"
  shows "acquired t r t'"
proof -
  obtain r1 t1 where s: "select_endpoint now req t = (r1, t1)" by (cases "select_endpoint now req t")
  note eff = select_endpoint_effect [OF assms(1) s]
  have step: "wait_for_endpoint fuel rounds now now' req t =
      (case r1 of Some a \<Rightarrow> Some (r1, t1)
       | None \<Rightarrow> if cf_endpoint_wait_ms (tk_cfg t1) \<le> 0 then Some (r1, t1)
                else wait_loop fuel rounds 0
                  (min (rq_deadline_at_ms req) (now' + cf_endpoint_wait_ms (tk_cfg t1))) req t1)"
    using s by (simp add: wait_for_endpoint_def split: option.split)
  consider "r = r1" "t' = t1"
    | until where "r1 = None" "wait_loop fuel rounds 0 until req t1 = Some (r, t')"
    using assms(3) unfolding step by (cases r1) (simp_all split: if_split_asm)
  then show ?thesis
  proof cases
    case 1
    then show ?thesis using eff by simp
  next
    case 2
    have "acquired t None t1" using eff 2(1) by simp
    from acquired_trans [OF this wait_loop_effect [OF acquired_ok [OF eff] assms(2) 2(2)]]
    show ?thesis .
  qed
qed

section \<open>Calls\<close>

lemma receive_answer_effect:
  assumes "rq_enoutput req" and "tk_out_callback t" and "receive_answer jt req resp t = (st, t')"
  shows "\<exists>ds. t' = t\<lparr>tk_out := tk_out t @ numbered req 0 ds\<rparr> \<and> (sst_started st \<longleftrightarrow> ds \<noteq> []) \<and>
    sst_index st = int (length ds)"
proof (cases "rq_enstream req")
  case True
  then have "fold (\<lambda>(ptr, now). write_stream_callback jt now ptr) (cv_chunks resp)
      (new_stream req (cv_begin_ms resp), t) = (st, t')"
    using assms(3) by (simp add: receive_answer_def)
  from callbacks_effect [OF _ assms(2) this refl] assms(1) show ?thesis
    by (intro exI) (simp add: new_stream_def)
next
  case False
  then show ?thesis using assms(3) by (intro exI [of _ "[]"]) (auto simp: receive_answer_def new_stream_def)
qed

lemma emit_finish_out:
  "rq_enoutput req \<Longrightarrow> tk_out_callback t \<Longrightarrow>
   emit_delta req [] True i t = t\<lparr>tk_out := tk_out t @ [finish_message req i]\<rparr>"
  by (simp add: emit_delta_def emit_def finish_message_def)

lemma emit_text_out:
  assumes "rq_enoutput req" and "tk_out_callback t"
  shows "\<exists>m. emit_text req txt t = t\<lparr>tk_out := tk_out t @ [m]\<rparr> \<and> msg_to m = reply_to req \<and>
    msg_error_code m = 0"
  using assms by (intro exI conjI, simp add: emit_text_def emit_def, simp_all)

text \<open>A call emits the fragments of its stream and, exactly when it succeeds, one last message.\<close>

lemma call_vllm_effect:
  assumes en: "rq_enoutput req" and cb: "tk_out_callback t" and r: "r = call_vllm jt curl ep req err False t"
  shows "\<exists>ds m. cl_task r = t\<lparr>tk_out := tk_out t @ numbered req 0 ds @ (if cl_ok r then [m] else [])\<rparr> \<and>
    (cl_started r \<longleftrightarrow> ds \<noteq> []) \<and> msg_to m = reply_to req \<and> msg_error_code m = 0 \<and>
    reply_to (cl_req r) = reply_to req \<and> rq_task_id (cl_req r) = rq_task_id req"
proof -
  define resp where "resp = curl (vllm_curl_request jt (tk_cfg t) req ep)"
  obtain st t1 where ra: "receive_answer jt req resp t = (st, t1)" by (cases "receive_answer jt req resp t")
  obtain ds where ds: "t1 = t\<lparr>tk_out := tk_out t @ numbered req 0 ds\<rparr>" "sst_started st \<longleftrightarrow> ds \<noteq> []"
    "sst_index st = int (length ds)"
    using receive_answer_effect [OF en cb ra] by blast
  define req' where "req' = req\<lparr>rq_finished_ms := cv_finished_ms resp,
    rq_total_latency_ms := cv_finished_ms resp - rq_started_ms req,
    rq_first_token_latency_ms := sst_first_token_latency_ms st\<rparr>"
  have en': "rq_enoutput req'" "reply_to req' = reply_to req" "rq_enstream req' = rq_enstream req"
    "rq_task_id req' = rq_task_id req"
    using en by (simp_all add: req'_def)
  have cb': "tk_out_callback t1" using cb ds by simp
  define P where "P r \<longleftrightarrow> (\<exists>ds m. cl_task r = t\<lparr>tk_out := tk_out t @ numbered req 0 ds @ (if cl_ok r then [m] else [])\<rparr> \<and>
    (cl_started r \<longleftrightarrow> ds \<noteq> []) \<and> msg_to m = reply_to req \<and> msg_error_code m = 0 \<and>
    reply_to (cl_req r) = reply_to req \<and> rq_task_id (cl_req r) = rq_task_id req)" for r :: call_result
  have init: "P \<lparr>cl_ok = False, cl_req = req, cl_error = ''curl_easy_init failed'', cl_started = False, cl_task = t\<rparr>"
    unfolding P_def by (intro exI [of _ "[]"] exI [of _ "finish_message req 0"]) (simp add: finish_message_def)
  have fail: "P \<lparr>cl_ok = False, cl_req = req', cl_error = e, cl_started = sst_started st, cl_task = t1\<rparr>" for e
    unfolding P_def using ds en'(2,4)
    by (intro exI [of _ ds] exI [of _ "finish_message req 0"]) (simp add: finish_message_def)
  have stream: "P \<lparr>cl_ok = True, cl_req = req', cl_error = err, cl_started = sst_started st,
      cl_task = emit_delta req' [] True (sst_index st) t1\<rparr>"
    unfolding P_def using ds en' emit_finish_out [OF en'(1) cb']
    by (intro exI [of _ ds] exI [of _ "finish_message req' (sst_index st)"]) (simp add: finish_message_def)
  have plain: "P \<lparr>cl_ok = True, cl_req = req', cl_error = err, cl_started = sst_started st,
      cl_task = emit_text req' w t1\<rparr>" for w
  proof -
    obtain m where "emit_text req' w t1 = t1\<lparr>tk_out := tk_out t1 @ [m]\<rparr>" "msg_to m = reply_to req'"
      "msg_error_code m = 0" using emit_text_out [OF en'(1) cb'] by blast
    then show ?thesis unfolding P_def using ds en' by (intro exI [of _ ds] exI [of _ m]) simp
  qed
  have "P r" unfolding r call_vllm_def resp_def [symmetric] Let_def ra prod.case req'_def [symmetric] en'(3)
    using init fail stream plain by (simp split: if_split sum.split)
  then show ?thesis by (simp add: P_def)
qed

section \<open>Attempts\<close>

lemma settled_trans: "settled t u \<Longrightarrow> settled u v \<Longrightarrow> settled t v"
  by (simp add: settled_def)

lemma result_inflight [simp]:
  "ep_inflight (endpoint_result c now ok latency ep) =
     (if 0 < ep_inflight ep then ep_inflight ep - 1 else ep_inflight ep)"
  by (simp add: endpoint_result_def count_failure_def Let_def)

text \<open>The result of a call gives back what the selection of its endpoint took.\<close>

lemma released:
  assumes acq: "acquired t (Some a) u" and ok: "task_ok t"
    and v: "v = update_endpoint_result a okay latency now (u\<lparr>tk_out := out\<rparr>)"
  shows "settled t v \<and> tk_out v = out \<and> tk_metrics v = tk_metrics t \<and> tk_records v = tk_records t"
proof -
  have r: "routed t u" "task_ok u" and a: "a < length (es_heap (tk_store t))"
    and i: "\<And>x. x < length (es_heap (tk_store t)) \<Longrightarrow>
      inflight_at u x = inflight_at t x + (if a = x then 1 else 0)"
    using acq by (auto simp: acquired_def)
  have nn: "0 \<le> inflight_at t x" if "x < length (es_heap (tk_store t))" for x
    using ok that by (auto simp: task_ok_def store_wf_iff ep_wf_def inflight_at_def)
  have len: "length (es_heap (tk_store u)) = length (es_heap (tk_store t))" using r(1) by (simp add: routed_def)
  have "inflight_at v x = inflight_at t x" if x: "x < length (es_heap (tk_store t))" for x
    using i [OF x] nn [OF x] a len
    by (cases "x = a") (simp_all add: v update_endpoint_result_def frame_simps inflight_at_def)
  moreover have "task_ok v" using r(2) update_result_wf [of "u\<lparr>tk_out := out\<rparr>" a okay latency now]
    by (simp add: v task_ok_def update_endpoint_result_def frame_simps addrs_ok_def)
  ultimately show ?thesis using r(1) len
    by (simp add: settled_def v update_endpoint_result_def frame_simps routed_def)
qed

lemma wait_for_endpoint_patient:
  assumes "k < fuel" and "rq_deadline_at_ms req \<le> wr_now (rounds k)"
  shows "\<exists>r. wait_for_endpoint fuel rounds now now' req t = Some r"
  using wait_loop_returns [of _ rounds 0 k fuel req] assms
  by (auto simp: wait_for_endpoint_def split: prod.splits option.splits)

lemma attempt_loop_returns: "patient envs req \<Longrightarrow> \<exists>s'. attempt_loop jt envs n k req s = Some s'"
proof (induction n arbitrary: k s)
  case (Suc n)
  obtain j where "j < ae_wait_fuel (envs k)" "rq_deadline_at_ms req \<le> wr_now (ae_rounds (envs k) j)"
    using Suc.prems by (auto simp: patient_def)
  then obtain r t where w: "wait_for_endpoint (ae_wait_fuel (envs k)) (ae_rounds (envs k)) (ae_select_now (envs k))
      (ae_wait_now (envs k)) req (as_task s) = Some (r, t)"
    using wait_for_endpoint_patient by (metis surj_pair)
  have "\<exists>s''. attempt_loop jt envs n (Suc k) req s' = Some s''" for s' using Suc by simp
  then show ?case by (cases r) (simp_all add: w Let_def split: prod.split)
qed simp

lemma finish_success_effect:
  assumes "finish_success now req t = (freq, t')" and "task_ok t"
  shows "settled t t' \<and> tk_out t' = tk_out t \<and> outcomes t' = Suc (outcomes t) \<and>
    tk_records t' = tk_records (update_record freq RS_Success [] t) \<and>
    reply_to freq = reply_to req \<and> rq_task_id freq = rq_task_id req"
  using assms by (auto simp: finish_success_def Let_def settled_def outcomes_def update_record_def task_ok_def
      observe_request_metrics_def on_request_finish_def inflight_at_def)

lemma prepare_request_fields [simp]:
  "reply_to (prepare_request_for_endpoint ep req) = reply_to req"
  "rq_task_id (prepare_request_for_endpoint ep req) = rq_task_id req"
  "rq_enoutput (prepare_request_for_endpoint ep req) = rq_enoutput req"
  by (simp_all add: prepare_request_for_endpoint_def Let_def)

lemma settled_refl: "task_ok t \<Longrightarrow> settled t t"
  by (simp add: settled_def)

text \<open>One attempt that reaches an endpoint.\<close>

lemma one_attempt:
  assumes acq: "acquired t (Some a) u" and ok: "task_ok t" and en: "rq_enoutput req" and cb: "tk_out_callback t"
    and r: "r = call_vllm jt curl ep areq err False u" and areq: "areq = prepare_request_for_endpoint ep (req\<lparr>rq_retry_count := k\<rparr>)"
    and v: "v = update_endpoint_result a (cl_ok r) latency now (cl_task r)"
  shows "\<exists>ds m. settled t v \<and> tk_metrics v = tk_metrics t \<and> tk_records v = tk_records t \<and>
    tk_out v = tk_out t @ numbered areq 0 ds @ (if cl_ok r then [m] else []) \<and> (cl_started r \<longleftrightarrow> ds \<noteq> []) \<and>
    reply_to areq = reply_to req \<and> msg_to m = reply_to req \<and> msg_error_code m = 0 \<and>
    reply_to (cl_req r) = reply_to req \<and> rq_task_id (cl_req r) = rq_task_id req"
proof -
  have u: "tk_out u = tk_out t" "tk_out_callback u" using acq cb by (auto simp: acquired_def routed_def)
  have en': "rq_enoutput areq" "reply_to areq = reply_to req" "rq_task_id areq = rq_task_id req"
    using en by (simp_all add: areq)
  obtain ds m where c: "cl_task r = u\<lparr>tk_out := tk_out u @ numbered areq 0 ds @ (if cl_ok r then [m] else [])\<rparr>"
    "cl_started r \<longleftrightarrow> ds \<noteq> []" "msg_to m = reply_to areq" "msg_error_code m = 0"
    "reply_to (cl_req r) = reply_to areq" "rq_task_id (cl_req r) = rq_task_id areq"
    using call_vllm_effect [OF en'(1) u(2) r] by blast
  from released [OF acq ok v [unfolded c(1)]] c(2-) en' u(1) show ?thesis
    by (intro exI [of _ ds] exI [of _ m]) simp
qed

lemma idle_then_attempted:
  assumes "idle (as_task s) (as_task s1)" and "attempted req s1 s'"
  shows "attempted req s s'"
proof -
  have "settled (as_task s) (as_task s')"
    using assms settled_trans unfolding idle_def attempted_def by blast
  with assms show ?thesis by (simp add: idle_def attempted_def outcomes_def update_record_def split: if_split)
qed

lemma idle_attempted:
  assumes "idle (as_task s) (as_task s1)" and "\<not> as_ok s1" and "reply_to (as_final_req s1) = reply_to req"
    and "rq_task_id (as_final_req s1) = rq_task_id req"
  shows "attempted req s s1"
  using assms unfolding attempted_def idle_def
  by (intro conjI exI [of _ "[]"] exI [of _ req] exI [of _ "finish_message req 0"])
    (simp_all add: outcomes_def finish_message_def)

lemma idle_refl: "task_ok t \<Longrightarrow> idle t t"
  by (simp add: idle_def settled_refl)

lemma acquired_idle: "acquired t None u \<Longrightarrow> idle t u"
  by (auto simp: acquired_def idle_def settled_def routed_def)

lemma settled_ok: "settled t u \<Longrightarrow> task_ok u \<and> tk_out_callback u = tk_out_callback t"
  by (simp add: settled_def)

lemma idle_retried: "idle t v \<Longrightarrow> idle t (v\<lparr>tk_retry_count := n\<rparr>)"
  by (auto simp: idle_def settled_def task_ok_def inflight_at_def)

lemma succeeded_attempted:
  assumes v: "settled (as_task s) v" "tk_metrics v = tk_metrics (as_task s)" "tk_records v = tk_records (as_task s)"
    "tk_out v = tk_out (as_task s) @ numbered areq 0 ds @ [m]"
    and ids: "reply_to areq = reply_to req" "msg_to m = reply_to req" "msg_error_code m = 0"
    "reply_to creq = reply_to req" "rq_task_id creq = rq_task_id req"
    and fin: "finish_success now creq v = (freq, w)"
    and s': "as_ok s'" "as_final_req s' = freq" "as_task s' = w"
  shows "attempted req s s'"
proof -
  note eff = finish_success_effect [OF fin] settled_ok [OF v(1)]
  have "settled (as_task s) w" using settled_trans v(1) eff by blast
  moreover have "\<exists>ds areq m. tk_out w = tk_out (as_task s) @ numbered areq 0 ds @ [m] \<and>
      reply_to areq = reply_to req \<and> msg_to m = reply_to req \<and> msg_error_code m = 0"
    using eff v(4) ids by (intro exI [of _ ds] exI [of _ areq] exI [of _ m]) simp
  ultimately show ?thesis using eff ids v s' by (simp add: attempted_def outcomes_def update_record_def)
qed

lemma started_attempted:
  assumes v: "settled (as_task s) v" "tk_metrics v = tk_metrics (as_task s)" "tk_records v = tk_records (as_task s)"
    "tk_out v = tk_out (as_task s) @ numbered areq 0 ds"
    and ids: "reply_to areq = reply_to req" "reply_to creq = reply_to req"
    "rq_task_id creq = rq_task_id req"
    and s': "\<not> as_ok s'" "as_final_req s' = creq" "as_task s' = v\<lparr>tk_retry_count := n\<rparr>"
  shows "attempted req s s'"
proof -
  have "settled (as_task s) (as_task s')"
    using v(1) by (auto simp: s' settled_def task_ok_def inflight_at_def)
  moreover have "\<exists>ds areq (m :: out_message). tk_out v = tk_out (as_task s) @ numbered areq 0 ds \<and>
      reply_to areq = reply_to req \<and> msg_to m = reply_to req \<and> msg_error_code m = 0"
    using v(4) ids by (intro exI [of _ ds] exI [of _ areq] exI [of _ "finish_message req 0"])
      (simp add: finish_message_def)
  ultimately show ?thesis using ids v s' by (simp add: attempted_def outcomes_def)
qed

text \<open>An attempt that reaches an endpoint either settles the request or leaves no trace but the
  bookkeeping of the endpoint, and the loop goes on.\<close>

lemma attempt_reaching_endpoint:
  assumes en: "rq_enoutput req" and loop: "attempt_loop jt envs (Suc n) k req s = Some s'"
    and ok: "task_ok (as_task s)" and cb: "tk_out_callback (as_task s)" and ns: "\<not> as_stream_started s"
    and go: "\<not> ae_stopping (envs k)" "\<not> deadline_exceeded (ae_deadline_now (envs k)) req"
    and w: "wait_for_endpoint (ae_wait_fuel (envs k)) (ae_rounds (envs k)) (ae_select_now (envs k))
      (ae_wait_now (envs k)) req (as_task s) = Some (Some a, u)"
    and acq: "acquired (as_task s) (Some a) u"
  shows "attempted req s s' \<or> (\<exists>s1. idle (as_task s) (as_task s1) \<and> \<not> as_ok s1 \<and> \<not> as_stream_started s1 \<and>
    reply_to (as_final_req s1) = reply_to req \<and> rq_task_id (as_final_req s1) = rq_task_id req \<and>
    attempt_loop jt envs n (Suc k) req s1 = Some s')"
proof -
  define areq where "areq = prepare_request_for_endpoint (es_get (tk_store u) a) (req\<lparr>rq_retry_count := int k\<rparr>)"
  define c where "c = call_vllm jt (ae_curl (envs k)) (es_get (tk_store u) a) areq (as_error s) False u"
  define v where "v = update_endpoint_result a (cl_ok c)
    (if 0 \<le> rq_total_latency_ms (cl_req c) then rq_total_latency_ms (cl_req c) else 0)
    (ae_result_now (envs k)) (cl_task c)"
  obtain ds m where o: "settled (as_task s) v" "tk_metrics v = tk_metrics (as_task s)"
    "tk_records v = tk_records (as_task s)"
    "tk_out v = tk_out (as_task s) @ numbered areq 0 ds @ (if cl_ok c then [m] else [])" "cl_started c \<longleftrightarrow> ds \<noteq> []"
    "reply_to areq = reply_to req" "msg_to m = reply_to req" "msg_error_code m = 0"
    "reply_to (cl_req c) = reply_to req" "rq_task_id (cl_req c) = rq_task_id req"
    using one_attempt [OF acq ok en cb c_def areq_def v_def] by blast
  define s1 where "s1 = s\<lparr>as_ok := cl_ok c, as_stream_started := cl_started c, as_error := cl_error c,
    as_final_req := cl_req c, as_task := v\<lparr>tk_retry_count := to_int32 (tk_retry_count v + 1)\<rparr>\<rparr>"
  have nos: "as_stream_started s = False" using ns by simp
  obtain freq x where f: "finish_success (ae_finish_now (envs k)) (cl_req c) v = (freq, x)" by (meson surj_pair)
  have "attempt_loop jt envs (Suc n) k req s =
      (if cl_ok c then Some (s1\<lparr>as_final_req := freq, as_task := x\<rparr>)
       else if cl_started c
         then Some (s1\<lparr>as_error := ''vLLM stream failed after output started: '' @ cl_error c\<rparr>)
         else attempt_loop jt envs n (Suc k) req s1)"
    using go unfolding attempt_loop.simps(2) Let_def w option.case prod.case nos
      areq_def [symmetric] c_def [symmetric] v_def [symmetric] f
    by (simp add: s1_def)
  then consider "cl_ok c" "s' = s1\<lparr>as_final_req := freq, as_task := x\<rparr>"
    | "\<not> cl_ok c" "cl_started c" "s' = s1\<lparr>as_error := ''vLLM stream failed after output started: '' @ cl_error c\<rparr>"
    | "\<not> cl_ok c" "\<not> cl_started c" "attempt_loop jt envs n (Suc k) req s1 = Some s'"
    using loop by (simp split: if_split_asm)
  then show ?thesis
  proof cases
    case 1
    then show ?thesis using o
      by (intro disjI1 succeeded_attempted [OF o(1-3) _ o(6-10) f, of ds]) (simp_all add: s1_def)
  next
    case 2
    then show ?thesis using o
      by (intro disjI1 started_attempted [OF o(1-3) _ o(6,9,10), of ds]) (simp_all add: s1_def)
  next
    case 3
    then show ?thesis using o
      by (intro disjI2 exI [of _ s1]) (simp add: s1_def idle_retried idle_def [of _ v])
  qed
qed

lemma attempt_loop_effect:
  assumes q: "quiet envs" and en: "rq_enoutput req"
    and "attempt_loop jt envs n k req s = Some s'" and "task_ok (as_task s)" and "tk_out_callback (as_task s)"
    and "\<not> as_ok s" and "\<not> as_stream_started s" and "reply_to (as_final_req s) = reply_to req"
    and "rq_task_id (as_final_req s) = rq_task_id req"
  shows "attempted req s s'"
  using assms(3-)
proof (induction n arbitrary: k s)
  case 0
  then show ?case by (simp add: idle_attempted idle_refl)
next
  case (Suc n)
  let ?e = "envs k"
  show ?case
  proof (cases "ae_stopping ?e \<or> deadline_exceeded (ae_deadline_now ?e) req")
    case True
    with Suc.prems show ?thesis by (auto simp: Let_def intro!: idle_attempted idle_refl split: if_splits)
  next
    case go: False
    obtain r u where w: "wait_for_endpoint (ae_wait_fuel ?e) (ae_rounds ?e) (ae_select_now ?e) (ae_wait_now ?e) req
        (as_task s) = Some (r, u)"
      using Suc.prems(1) go by (auto simp: Let_def split: option.splits)
    have "quiet_rounds (ae_rounds ?e)" using q by (simp add: quiet_def)
    note acq = wait_for_endpoint_effect [OF Suc.prems(2) this w]
    show ?thesis
    proof (cases r)
      case None
      have s': "s' = s\<lparr>as_error := ''no healthy endpoint or endpoint capacity timeout'', as_task := u\<rparr>"
        using Suc.prems(1) go w None by (simp add: Let_def)
      show ?thesis using acquired_idle acq None Suc.prems by (intro idle_attempted) (simp_all add: s')
    next
      case (Some a)
      have go': "\<not> ae_stopping ?e" "\<not> deadline_exceeded (ae_deadline_now ?e) req" using go by simp_all
      note reach = attempt_reaching_endpoint
        [OF en Suc.prems(1,2,3,5) go' w [unfolded Some] acq [unfolded Some]]
      then show ?thesis
      proof
        assume "\<exists>s1. idle (as_task s) (as_task s1) \<and> \<not> as_ok s1 \<and> \<not> as_stream_started s1 \<and>
          reply_to (as_final_req s1) = reply_to req \<and> rq_task_id (as_final_req s1) = rq_task_id req \<and>
          attempt_loop jt envs n (Suc k) req s1 = Some s'"
        then obtain s1 where s1: "idle (as_task s) (as_task s1)" "\<not> as_ok s1" "\<not> as_stream_started s1"
          "reply_to (as_final_req s1) = reply_to req" "rq_task_id (as_final_req s1) = rq_task_id req"
          "attempt_loop jt envs n (Suc k) req s1 = Some s'" by blast
        have "task_ok (as_task s1)" "tk_out_callback (as_task s1)"
          using s1(1) Suc.prems(3) by (simp_all add: idle_def settled_def)
        from idle_then_attempted [OF s1(1) Suc.IH [OF s1(6) this s1(2-5)]] show ?thesis .
      qed
    qed
  qed
qed

section \<open>Whole requests\<close>

lemma find_update_first:
  "(\<And>x. P (f x) = P x) \<Longrightarrow> List.find P (update_first P f xs) = map_option f (List.find P xs)"
  by (induction xs) auto

lemma record_status_update:
  "record_status (rq_task_id req) (update_record req st err t) =
    map_option (\<lambda>_. st) (record_status (rq_task_id req) t)"
  by (simp add: record_status_def update_record_def find_update_first fill_record_def option.map_comp comp_def)

lemma record_status_cong: "tk_records t = tk_records u \<Longrightarrow> record_status tid t = record_status tid u"
  by (simp add: record_status_def)

lemma finish_failure_effect:
  assumes "task_ok t" and "tk_out_callback t" and "t' = finish_failure now err req t"
  shows "settled t t' \<and> outcomes t' = Suc (outcomes t) \<and>
    (\<exists>m. tk_out t' = tk_out t @ [m] \<and> msg_to m = reply_to req \<and> msg_error_code m \<in> {-41, -42} \<and>
      record_status (rq_task_id req) t' = map_option (\<lambda>_. if msg_error_code m = -42 then RS_Timeout else RS_Failed)
        (record_status (rq_task_id req) t))"
proof -
  define e where "e = (if err = [] then ''vLLM request failed'' else err)"
  define code :: int where "code = (if e = ''deadline exceeded'' then -42 else -41)"
  define req' where "req' = req\<lparr>rq_finished_ms := now, rq_total_latency_ms := now - rq_started_ms req\<rparr>"
  define u where "u = update_record req' (if code = -42 then RS_Timeout else RS_Failed) e t"
  define v where "v = observe_request_metrics req' False (code = -42) code
    (u\<lparr>tk_metrics := on_request_finish False (code = -42) (rq_degraded req') (rq_total_latency_ms req')
       (rq_queue_wait_ms req') (rq_first_token_latency_ms req') (tk_metrics u)\<rparr>)"
  have t': "t' = emit_error req' code e v"
    by (simp add: assms(3) finish_failure_def e_def code_def req'_def u_def v_def Let_def)
  have v: "settled t v" "outcomes v = Suc (outcomes t)" "tk_out v = tk_out t" "tk_out_callback v"
    "tk_records v = tk_records u"
    using assms(1,2) by (auto simp: v_def u_def settled_def outcomes_def update_record_def task_ok_def
      observe_request_metrics_def on_request_finish_def inflight_at_def Let_def)
  have code: "code \<in> {-41, -42}" by (simp add: code_def)
  have "settled t t'" using v(1) by (auto simp: t' settled_def frame_simps task_ok_def inflight_at_def emit_error_def emit_def)
  moreover have "outcomes t' = Suc (outcomes t)" using v(2) by (simp add: t' outcomes_def frame_simps)
  moreover have "tk_out t' = tk_out t @ [error_message req' code e]" using v(3,4) by (simp add: t' frame_simps)
  moreover have "record_status (rq_task_id req') t' = map_option (\<lambda>_. if code = -42 then RS_Timeout else RS_Failed)
      (record_status (rq_task_id req') t)"
    using record_status_cong [of t' u] v(5) record_status_update [of req'] by (simp add: t' frame_simps u_def)
  ultimately show ?thesis using code
    by (intro conjI exI [of _ "error_message req' code e"]) (simp_all add: error_message_def req'_def)
qed

lemma mock_messages:
  assumes "rq_enoutput req" and "tk_out_callback t"
  shows "\<exists>ds m. run_mock req t = t\<lparr>tk_out := tk_out t @ numbered req 0 ds @ [m]\<rparr> \<and>
    msg_to m = reply_to req \<and> msg_error_code m = 0"
proof (cases "rq_enstream req")
  case True
  then show ?thesis using assms
    by (intro exI [of _ "[rq_prompt req, '' [mock-vllm]'']"] exI [of _ "finish_message req 2"])
      (simp add: run_mock_def emit_delta_out emit_finish_out finish_message_def)
next
  case False
  then show ?thesis using emit_text_out [OF assms] by (intro exI [of _ "[]"]) (simp add: run_mock_def)
qed

lemma handle_mock_effect:
  assumes "rq_enoutput req" and "tk_out_callback t" and "task_ok t"
  shows "settled t (handle_mock now req t) \<and> answered req t (handle_mock now req t)"
proof -
  define req' where "req' = req\<lparr>rq_endpoint_name := ''mock'', rq_served_model := cf_model (tk_cfg t)\<rparr>"
  define freq where "freq = req'\<lparr>rq_finished_ms := now, rq_total_latency_ms := now - rq_started_ms req'\<rparr>"
  obtain ds m where mm: "run_mock req' t = t\<lparr>tk_out := tk_out t @ numbered req' 0 ds @ [m]\<rparr>"
    "msg_to m = reply_to req" "msg_error_code m = 0"
    using mock_messages [of req' t] assms by (auto simp: req'_def)
  have eq: "tk_records (handle_mock now req t) = tk_records (update_record freq RS_Success [] t)"
    "tk_out (handle_mock now req t) = tk_out t @ numbered req' 0 ds @ [m]"
    "outcomes (handle_mock now req t) = Suc (outcomes t)"
    unfolding handle_mock_def Let_def req'_def [symmetric] mm(1) freq_def [symmetric]
    by (simp_all add: observe_request_metrics_def update_record_def outcomes_def on_request_finish_def Let_def)
  have "settled t (handle_mock now req t)" using assms(3)
    unfolding handle_mock_def Let_def req'_def [symmetric] mm(1) freq_def [symmetric]
    by (auto simp: observe_request_metrics_def update_record_def settled_def task_ok_def inflight_at_def)
  moreover have "answered req t (handle_mock now req t)"
    using eq mm record_status_cong [OF eq(1)] record_status_update [of freq RS_Success "[]" t] unfolding answered_def
    by (intro conjI exI [of _ ds] exI [of _ req'] exI [of _ m]) (simp_all add: freq_def req'_def)
  ultimately show ?thesis by blast
qed

lemma attempted_answered:
  assumes "attempted req s s'" and "as_ok s'"
  shows "answered req (as_task s) (as_task s')"
proof -
  note a = assms(1) [unfolded attempted_def]
  obtain ds areq m where o: "tk_out (as_task s') = tk_out (as_task s) @ numbered areq 0 ds @ [m]"
    "reply_to areq = reply_to req" "msg_to m = reply_to req" "msg_error_code m = 0"
    using a assms(2) by auto
  have "record_status (rq_task_id req) (as_task s') =
      map_option (\<lambda>_. RS_Success) (record_status (rq_task_id req) (as_task s))"
    using a assms(2) record_status_cong [of "as_task s'"] record_status_update [of "as_final_req s'"] by simp
  then show ?thesis using a assms(2) o unfolding answered_def
    by (intro conjI exI [of _ ds] exI [of _ areq] exI [of _ m]) simp_all
qed

lemma failed_answered:
  assumes a: "attempted req s s'" and "\<not> as_ok s'" and cb: "tk_out_callback (as_task s)"
    and t': "t' = finish_failure now (as_error s') (as_final_req s') (as_task s')"
  shows "settled (as_task s) t' \<and> answered req (as_task s) t'"
proof -
  note a' = a [unfolded attempted_def] settled_ok [of "as_task s" "as_task s'"]
  obtain ds areq where o: "tk_out (as_task s') = tk_out (as_task s) @ numbered areq 0 ds"
    "reply_to areq = reply_to req" using a' assms(2) by auto
  have ok: "task_ok (as_task s')" "tk_out_callback (as_task s')" using a' cb by simp_all
  obtain m where m: "settled (as_task s') t'" "outcomes t' = Suc (outcomes (as_task s'))"
    "tk_out t' = tk_out (as_task s') @ [m]" "msg_to m = reply_to (as_final_req s')"
    "msg_error_code m \<in> {-41, -42}" "record_status (rq_task_id (as_final_req s')) t' =
      map_option (\<lambda>_. if msg_error_code m = -42 then RS_Timeout else RS_Failed)
        (record_status (rq_task_id (as_final_req s')) (as_task s'))"
    using finish_failure_effect [OF ok t'] by auto
  have "settled (as_task s) t'" using settled_trans a' m(1) by blast
  moreover have "answered req (as_task s) t'"
    using m a' assms(2) o record_status_cong [of "as_task s'" "as_task s"] unfolding answered_def
    by (intro conjI exI [of _ ds] exI [of _ areq] exI [of _ m]) auto
  ultimately show ?thesis ..
qed

lemma handle_request_effect:
  assumes "quiet envs" and "task_ok t" and "rq_enoutput req" and "tk_out_callback t"
    and h: "handle_request jt envs stopping now req t = Some t'"
  shows "settled t t' \<and> (\<not> stopping \<longrightarrow> answered req t t')"
proof (cases "cf_mock_mode (tk_cfg t)")
  case True
  then show ?thesis using h handle_mock_effect [OF assms(3,4,2), of now] by (simp add: handle_request_def)
next
  case False
  define s where "s = \<lparr>as_ok = False, as_stream_started = False, as_error = [], as_final_req = req, as_task = t\<rparr>"
  obtain s' where s': "attempt_loop jt envs (nat (rq_max_retries req + 1)) 0 req s = Some s'"
    "t' = (if \<not> as_ok s' \<and> \<not> stopping then finish_failure now (as_error s') (as_final_req s') (as_task s')
       else as_task s')"
    using h False by (auto simp: handle_request_def s_def split: option.splits if_splits)
  have a: "attempted req s s'"
    by (rule attempt_loop_effect [OF assms(1,3) s'(1)]) (use assms in \<open>simp_all add: s_def\<close>)
  have t: "as_task s = t" by (simp add: s_def)
  consider "as_ok s'" "t' = as_task s'" | "\<not> as_ok s'" "stopping" "t' = as_task s'"
    | "\<not> as_ok s'" "\<not> stopping" "t' = finish_failure now (as_error s') (as_final_req s') (as_task s')"
    using s'(2) by (auto split: if_splits)
  then show ?thesis
  proof cases
    case 1
    then show ?thesis using a attempted_answered [OF a] by (simp add: t attempted_def)
  next
    case 2
    then show ?thesis using a by (simp add: t attempted_def)
  next
    case 3
    then show ?thesis using failed_answered [OF a 3(1) _ 3(3)] assms(4) by (simp add: t)
  qed
qed

lemma handle_request_returns:
  "patient envs req \<Longrightarrow> \<exists>t'. handle_request jt envs stopping now req t = Some t'"
  using attempt_loop_returns [of envs req]
  by (auto simp: handle_request_def split: option.splits) (metis option.distinct(1))

section \<open>Properties\<close>

text \<open>
  C2. A request that a worker takes while the task is not stopping is answered exactly once: the
  handling returns, and its messages are the fragments of one attempt, numbered from 0, followed by
  one last message, which is the end of the answer or one error (\<open>-42\<close> for a missed deadline, \<open>-41\<close>
  otherwise). All of them carry the id of the request and go to the address it came with. Fragments of a failed attempt are never followed by those of another one. Exactly one
  outcome is counted, and the record of the request ends with the status the last message reports.
\<close>
theorem handle_request_answers_once:
  assumes "quiet envs" and "patient envs req" and "task_ok t" and "rq_enoutput req" and "tk_out_callback t"
  shows "\<exists>t' ds areq m. handle_request jt envs False now req t = Some t' \<and>
    tk_out t' = tk_out t @ numbered areq 0 ds @ [m] \<and> reply_to areq = reply_to req \<and>
    msg_to m = reply_to req \<and> msg_error_code m \<in> {0, -41, -42} \<and>
    outcomes t' = Suc (outcomes t) \<and>
    record_status (rq_task_id req) t' = map_option
      (\<lambda>_. if msg_error_code m = 0 then RS_Success else if msg_error_code m = -42 then RS_Timeout else RS_Failed)
      (record_status (rq_task_id req) t)"
proof -
  obtain t' where h: "handle_request jt envs False now req t = Some t'"
    using handle_request_returns [OF assms(2)] by blast
  from handle_request_effect [OF assms(1,3-5) h] h show ?thesis by (auto simp: answered_def)
qed

lemma sample_attempt_quiet: "quiet (\<lambda>_. sample_attempt)"
  by (simp add: quiet_def quiet_rounds_def sample_attempt_def)

lemma sample_attempt_patient: "patient (\<lambda>_. sample_attempt) sample_request"
proof -
  have "rq_deadline_at_ms sample_request \<le> 500000" by code_simp
  then show ?thesis by (auto simp: patient_def sample_attempt_def intro!: exI [of _ 1])
qed

theorem handle_request_answers_once_witness:
  "\<exists>t' ds areq m. handle_request sample_json (\<lambda>_. sample_attempt) False 10 sample_request sample_task = Some t' \<and>
    tk_out t' = numbered areq 0 ds @ [m] \<and> outcomes t' = 1"
proof -
  have "addrs_ok (tk_store sample_task) (tk_endpoints sample_task)" "store_wf (tk_store sample_task)"
    "rq_enoutput sample_request" "tk_out_callback sample_task" "tk_out sample_task = []" "outcomes sample_task = 0"
    by code_simp+
  then show ?thesis
    using handle_request_answers_once [OF sample_attempt_quiet sample_attempt_patient, of sample_task sample_json 10]
    by (auto simp: task_ok_def)
qed

text \<open>
  C7. A request leaves the accounts of the endpoints as it found them: however many attempts it
  made, on whatever endpoints, with whatever outcome, and whether or not the task is stopping, every
  endpoint has as many calls in flight after it as before it.
\<close>
theorem handle_request_releases_endpoints:
  assumes "quiet envs" and "task_ok t" and "rq_enoutput req" and "tk_out_callback t"
    and "handle_request jt envs stopping now req t = Some t'"
  shows "length (es_heap (tk_store t')) = length (es_heap (tk_store t)) \<and> tk_endpoints t' = tk_endpoints t \<and>
    (\<forall>a < length (es_heap (tk_store t)). ep_inflight (es_get (tk_store t') a) = ep_inflight (es_get (tk_store t) a))"
  using handle_request_effect [OF assms] by (simp add: settled_def inflight_at_def)

theorem handle_request_releases_endpoints_witness:
  "map_option (\<lambda>t'. map ep_inflight (es_heap (tk_store t')))
     (handle_request sample_json (\<lambda>_. sample_attempt) False 10 sample_request sample_task) = Some [0, 0]"
proof -
  let ?h = "handle_request sample_json (\<lambda>_. sample_attempt) False 10 sample_request sample_task"
  have c: "addrs_ok (tk_store sample_task) (tk_endpoints sample_task)" "store_wf (tk_store sample_task)"
    "rq_enoutput sample_request" "tk_out_callback sample_task"
    "map ep_inflight (es_heap (tk_store sample_task)) = [0, 0]"
    by code_simp+
  obtain t' where t': "?h = Some t'" using handle_request_returns [OF sample_attempt_patient] by blast
  have "task_ok sample_task" using c by (simp add: task_ok_def)
  from handle_request_releases_endpoints [OF sample_attempt_quiet this c(3,4) t']
  have "map ep_inflight (es_heap (tk_store t')) = map ep_inflight (es_heap (tk_store sample_task))"
    by (auto simp: es_get_def intro!: nth_equalityI)
  then show ?thesis using t' c(5) by simp
qed

text \<open>A request popped while the task is stopping is dropped: no message, no outcome, and its record
  keeps the status it had.\<close>

lemma stopping_drops_request:
  "\<not> cf_mock_mode (tk_cfg t) \<Longrightarrow> ae_stopping (envs 0) \<Longrightarrow> handle_request jt envs True now req t = Some t"
  by (cases "nat (rq_max_retries req + 1)") (simp_all add: handle_request_def)

end
