(* ===== verification/Task_Info.thy ===== *)
theory Task_Info
  imports Request_Exec
begin

text \<open>
  What a scheduler tells about itself (\<^verbatim>\<open>node/vllm-client/src/main.cpp\<close>): \<^verbatim>\<open>taskinfo\<close> and the parts it
  is made of (\<^verbatim>\<open>model_profiles_json\<close>, \<^verbatim>\<open>record_to_json\<close>, \<^verbatim>\<open>records_json\<close>, \<^verbatim>\<open>primary_base_url\<close>) and
  \<^verbatim>\<open>metrics_query\<close>. Reading changes nothing, so each is a function of the task to a JSON value.
\<close>

definition json_strings_of :: "string list \<Rightarrow> json" where
  "json_strings_of xs = JArr (map JStr xs)"

definition primary_base_url :: "vllm_task \<Rightarrow> string" where
  "primary_base_url t =
     (case tk_endpoints t of
        [] \<Rightarrow> ''None''
      | a # _ \<Rightarrow> let url = ep_base_url (es_get (tk_store t) a) in if url = [] then ''None'' else url)"

definition profile_to_json :: "ModelProfile \<Rightarrow> json" where
  "profile_to_json p =
     JObj [(''name'', JStr (mp_name p)), (''actions'', json_strings_of (mp_actions p)),
           (''primary_model'', JStr (mp_primary_model p)),
           (''fallback_models'', json_strings_of (mp_fallback_models p)),
           (''max_context_len'', JInt (mp_max_context_len p)), (''stream'', JBool (mp_stream p)),
           (''tool_calling'', JBool (mp_tool_calling p)),
           (''default_max_tokens'', JInt (mp_default_max_tokens p)),
           (''default_timeout_ms'', JInt (mp_default_timeout_ms p)),
           (''default_deadline_ms'', JInt (mp_default_deadline_ms p)),
           (''default_priority'', JInt (mp_default_priority p)),
           (''allow_model_fallback'', JBool (mp_allow_model_fallback p))]"

definition model_profiles_json :: "vllm_task \<Rightarrow> json" where
  "model_profiles_json t = JArr (map profile_to_json (cf_model_profiles (tk_cfg t)))"

definition record_to_json :: "RequestRecord \<Rightarrow> json" where
  "record_to_json r =
     JObj [(''task_id'', JInt (rr_task_id r)), (''request_id'', JStr (rr_request_id r)),
           (''work_id'', JStr (rr_work_id r)), (''action'', JStr (rr_action r)),
           (''profile_name'', JStr (rr_profile_name r)), (''logical_model'', JStr (rr_logical_model r)),
           (''served_model'', JStr (rr_served_model r)), (''endpoint'', JStr (rr_endpoint_name r)),
           (''status'', JStr (request_status_to_string (rr_status r))), (''priority'', JInt (rr_priority r)),
           (''retry_count'', JInt (rr_retry_count r)), (''degraded'', JBool (rr_degraded r)),
           (''error_message'', JStr (rr_error_message r)), (''created_ms'', JInt (rr_created_ms r)),
           (''started_ms'', JInt (rr_started_ms r)), (''finished_ms'', JInt (rr_finished_ms r)),
           (''queue_wait_ms'', JInt (rr_queue_wait_ms r)),
           (''first_token_latency_ms'', JInt (rr_first_token_latency_ms r)),
           (''total_latency_ms'', JInt (rr_total_latency_ms r))]"

fun records_loop :: "int \<Rightarrow> string \<Rightarrow> string \<Rightarrow> int \<Rightarrow> int \<Rightarrow> RequestRecord list \<Rightarrow> json list" where
  "records_loop task_id request_id action limit emitted [] = []"
| "records_loop task_id request_id action limit emitted (r # rs) =
     (if \<not> emitted < limit then []
      else if 0 \<le> task_id \<and> rr_task_id r \<noteq> task_id
      then records_loop task_id request_id action limit emitted rs
      else if request_id \<noteq> [] \<and> rr_request_id r \<noteq> request_id
      then records_loop task_id request_id action limit emitted rs
      else if action \<noteq> [] \<and> rr_action r \<noteq> action
      then records_loop task_id request_id action limit emitted rs
      else record_to_json r # records_loop task_id request_id action limit (emitted + 1) rs)"

definition records_json :: "json \<Rightarrow> vllm_task \<Rightarrow> json" where
  "records_json query t =
     (let limit = json_int_value query ''limit'' 20;
          limit = (if limit \<le> 0 then 20 else limit)
      in JArr (records_loop (json_int_value query ''task_id'' (-1)) (json_string_value query ''request_id'' [])
           (json_string_value query ''action_filter'' []) limit 0 (rev (tk_records t))))"

definition endpoint_to_json :: "VllmEndpoint \<Rightarrow> json" where
  "endpoint_to_json ep =
     JObj [(''name'', JStr (ep_name ep)), (''base_url'', JStr (ep_base_url ep)),
           (''served_model'', JStr (ep_served_model ep)), (''role'', JStr (ep_role ep)),
           (''logical_models'', json_strings_of (ep_logical_models ep)), (''weight'', JInt (ep_weight ep)),
           (''max_context_len'', JInt (ep_max_context_len ep)),
           (''max_concurrency'', JInt (ep_max_concurrency ep)), (''healthy'', JBool (ep_healthy ep)),
           (''circuit_state'', JStr (circuit_to_string (ep_circuit_state ep))),
           (''inflight'', JInt (ep_inflight ep)),
           (''available_capacity'', JInt (max 0 (ep_max_concurrency ep - ep_inflight ep))),
           (''capacity_utilization'', JFloat (if ep_max_concurrency ep \<le> 0 then 0
              else rnd (double_of_int (ep_inflight ep) / double_of_int (ep_max_concurrency ep)))),
           (''avg_latency_ms'', JInt (trunc_int (ep_avg_latency_ms ep))),
           (''last_latency_ms'', JInt (ep_last_latency_ms ep)),
           (''last_health_check_ms'', JInt (ep_last_health_check_ms ep)),
           (''consecutive_failures'', JInt (ep_consecutive_failures ep)),
           (''success_count'', JInt (int (ep_success_count ep))),
           (''failure_count'', JInt (int (ep_failure_count ep))),
           (''timeout_count'', JInt (int (ep_timeout_count ep))),
           (''circuit_open_count'', JInt (int (ep_circuit_open_count ep)))]"

text \<open>\<open>now\<close> is the clock reading of \<^verbatim>\<open>metrics_.snapshot\<close>.\<close>

definition taskinfo :: "int \<Rightarrow> json \<Rightarrow> vllm_task \<Rightarrow> json" where
  "taskinfo now query t =
     (let c = tk_cfg t
      in JObj [(''work_id'', JStr (tk_work_id t)), (''model'', JStr (cf_model c)),
           (''logical_model'', JStr (cf_model c)), (''response_format'', JStr (cf_response_format c)),
           (''enoutput'', JBool (cf_enoutput c)), (''enstream'', JBool (cf_enstream c)),
           (''inputs'', json_strings_of (cf_inputs c)), (''status'', JStr (status_to_string (tk_status t))),
           (''timeout_ms'', JInt (cf_timeout_ms c)), (''deadline_ms'', JInt (cf_deadline_ms c)),
           (''retry_count'', JInt (tk_retry_count t)), (''max_retries'', JInt (cf_max_retries c)),
           (''mock'', JBool (cf_mock_mode c)), (''max_queue_size'', JInt (cf_max_queue_size c)),
           (''low_priority_drop_threshold'', JInt (cf_low_priority_drop_threshold c)),
           (''high_priority_threshold'', JInt (cf_high_priority_threshold c)),
           (''worker_count'', JInt (cf_worker_count c)), (''endpoint_wait_ms'', JInt (cf_endpoint_wait_ms c)),
           (''routing_strategy'', JStr (cf_routing_strategy c)),
           (''default_action'', JStr (cf_default_action c)),
           (''allow_model_fallback'', JBool (cf_allow_model_fallback c)),
           (''fallback_chain'', json_strings_of (cf_fallback_chain c)),
           (''health_check_interval_ms'', JInt (cf_health_check_interval_ms c)),
           (''health_check_timeout_ms'', JInt (cf_health_check_timeout_ms c)),
           (''unhealthy_threshold'', JInt (cf_unhealthy_threshold c)),
           (''recovery_threshold'', JInt (cf_recovery_threshold c)),
           (''circuit_failure_threshold'', JInt (cf_circuit_failure_threshold c)),
           (''circuit_open_ms'', JInt (cf_circuit_open_ms c)),
           (''config_version'', JInt (tk_config_version t)),
           (''last_config_update_ms'', JInt (tk_last_config_update_ms t)),
           (''config_update_count'', JInt (tk_config_update_count t)),
           (''model_profiles'', model_profiles_json t), (''base_url'', JStr (primary_base_url t)),
           (''pending'', JInt (pending_count t)), (''queue_size'', JInt (pending_count t)),
           (''queue_stats'', queue_stats t),
           (''metrics'', metrics_snapshot now (pending_count t) (cf_max_queue_size c) (tk_metrics t)),
           (''observability'', obs_snapshot (tk_observability t)), (''recent_tasks'', records_json query t),
           (''endpoints'', JArr (map (\<lambda>a. endpoint_to_json (es_get (tk_store t) a)) (tk_endpoints t)))])"

definition metrics_query :: "tsdb \<Rightarrow> int \<Rightarrow> json \<Rightarrow> vllm_task \<Rightarrow> json" where
  "metrics_query db wall_now query t = obs_query db wall_now query (tk_observability t)"

section \<open>Recent requests\<close>

definition record_matches :: "int \<Rightarrow> string \<Rightarrow> string \<Rightarrow> RequestRecord \<Rightarrow> bool" where
  "record_matches task_id request_id action r \<longleftrightarrow>
     (0 \<le> task_id \<longrightarrow> rr_task_id r = task_id) \<and> (request_id \<noteq> [] \<longrightarrow> rr_request_id r = request_id) \<and>
     (action \<noteq> [] \<longrightarrow> rr_action r = action)"

lemma records_loop_filter:
  "records_loop task_id request_id action limit emitted rs =
   map record_to_json (take (nat (limit - emitted)) (filter (record_matches task_id request_id action) rs))"
proof (induction rs arbitrary: emitted)
  case (Cons r rs)
  have "nat (limit - emitted) = Suc (nat (limit - (emitted + 1)))" if "emitted < limit" using that by simp
  then show ?case using Cons by (auto simp: record_matches_def)
qed simp

lemma records_json_filter:
  assumes "limit = (if json_int_value query ''limit'' 20 \<le> 0 then 20 else json_int_value query ''limit'' 20)"
  shows "records_json query t = JArr (map record_to_json (take (nat limit)
    (filter (record_matches (json_int_value query ''task_id'' (-1)) (json_string_value query ''request_id'' [])
      (json_string_value query ''action_filter'' [])) (rev (tk_records t)))))"
  by (simp add: records_json_def records_loop_filter assms Let_def)

end
