(* ===== verification/Text_Util.thy ===== *)
theory Text_Util
  imports Prelude
begin

text \<open>
  Text helpers of the unit framework: \<^verbatim>\<open>infra-controller/src/StackFlowUtil.cpp\<close> (the scanner that
  picks one field out of a JSON text, work ids, UTF-8, the reassembly of a stream) and the two-part
  messages of \<^verbatim>\<open>hybrid-comm/src/pzmq_data.cpp\<close>. \<^verbatim>\<open>char\<close> is signed, as on the platforms the build
  targets; reading outside a message is \<open>UndefinedBehaviour\<close>.
\<close>

section \<open>Picking a field out of a JSON text\<close>

record json_scan =
  js_key_val :: string
  js_status :: int
  js_last_c :: char
  js_obj_flage :: int

definition quote_char :: char where
  "quote_char = CHR 0x22"

definition scan_status0 :: "char \<Rightarrow> json_scan \<Rightarrow> json_scan" where
  "scan_status0 c s =
     (if c = quote_char then s\<lparr>js_status := 100\<rparr>
      else if c = CHR 0x7B
      then s\<lparr>js_key_val := js_key_val s @ [c], js_obj_flage := 1, js_status := 10\<rparr>
      else if c = CHR '':'' then s\<lparr>js_obj_flage := 1\<rparr>
      else if c = CHR '','' \<or> c = CHR 0x7D then s\<lparr>js_obj_flage := 0, js_status := -1\<rparr>
      else if c = CHR '' '' then s
      else if js_obj_flage s \<noteq> 0 then s\<lparr>js_key_val := js_key_val s @ [c]\<rparr>
      else s)"

definition scan_status10 :: "char \<Rightarrow> json_scan \<Rightarrow> json_scan" where
  "scan_status10 c s =
     (let s = s\<lparr>js_key_val := js_key_val s @ [c]\<rparr>;
          s = (if c = CHR 0x7B then s\<lparr>js_obj_flage := js_obj_flage s + 1\<rparr> else s);
          s = (if c = CHR 0x7D then s\<lparr>js_obj_flage := js_obj_flage s - 1\<rparr> else s)
      in if js_obj_flage s = 0 \<and> js_key_val s \<noteq> [] then s\<lparr>js_status := -1\<rparr> else s)"

definition scan_status100 :: "char \<Rightarrow> json_scan \<Rightarrow> json_scan" where
  "scan_status100 c s =
     (if c = quote_char \<and> js_last_c s \<noteq> CHR 0x5C then s\<lparr>js_obj_flage := 0, js_status := -1\<rparr>
      else s\<lparr>js_key_val := js_key_val s @ [c]\<rparr>)"

definition scan_char :: "char \<Rightarrow> json_scan \<Rightarrow> json_scan" where
  "scan_char c s =
     (if js_status s = 0 then scan_status0 c s
      else if js_status s = 10 then scan_status10 c s
      else if js_status s = 100 then scan_status100 c s
      else s)\<lparr>js_last_c := c\<rparr>"

definition sample_json_str_get :: "string \<Rightarrow> string \<Rightarrow> string" where
  "sample_json_str_get json_str json_key =
     (let find_key = [quote_char] @ json_key @ [quote_char]
      in case str_find find_key json_str of
           None \<Rightarrow> []
         | Some subs_start \<Rightarrow>
             let s = fold scan_char (drop (subs_start + length find_key) json_str)
                       \<lparr>js_key_val = [], js_status = 0, js_last_c = CHR 0x00, js_obj_flage = 0\<rparr>
             in if js_obj_flage s \<noteq> 0 then [] else js_key_val s)"

section \<open>Work ids\<close>

definition WORK_ID_NONE :: int where
  "WORK_ID_NONE = -100"

definition sample_get_work_id_num :: "string \<Rightarrow> int result" where
  "sample_get_work_id_num work_id =
     (case str_find ''.'' work_id of
        None \<Rightarrow> Inr WORK_ID_NONE
      | Some a \<Rightarrow> if a = length work_id - 1 then Inr WORK_ID_NONE else stoi (drop (a + 1) work_id))"

definition sample_get_work_id_name :: "string \<Rightarrow> string" where
  "sample_get_work_id_name work_id =
     (case str_find ''.'' work_id of None \<Rightarrow> work_id | Some a \<Rightarrow> take a work_id)"

definition sample_get_work_id :: "int \<Rightarrow> string \<Rightarrow> string" where
  "sample_get_work_id work_id_num unit_name = unit_name @ ''.'' @ to_string work_id_num"

section \<open>UTF-8\<close>

definition out_byte :: "32 word \<Rightarrow> 8 word" where
  "out_byte x = ucast x"

definition unicode_to_utf8 :: "32 word \<Rightarrow> 8 word list" where
  "unicode_to_utf8 codepoint =
     (if codepoint \<le> 0x7F then [out_byte (and codepoint 0x7F)]
      else if codepoint \<le> 0x7FF
      then [out_byte (or 0xC0 (and (drop_bit 6 codepoint) 0x1F)),
            out_byte (or 0x80 (and codepoint 0x3F))]
      else if codepoint \<le> 0xFFFF
      then [out_byte (or 0xE0 (and (drop_bit 12 codepoint) 0x0F)),
            out_byte (or 0x80 (and (drop_bit 6 codepoint) 0x3F)),
            out_byte (or 0x80 (and codepoint 0x3F))]
      else if codepoint \<le> 0x10FFFF
      then [out_byte (or 0xF0 (and (drop_bit 18 codepoint) 0x07)),
            out_byte (or 0x80 (and (drop_bit 12 codepoint) 0x3F)),
            out_byte (or 0x80 (and (drop_bit 6 codepoint) 0x3F)),
            out_byte (or 0x80 (and codepoint 0x3F))]
      else [])"

section \<open>Reassembling a stream\<close>

text \<open>The result, the output string and the buffer, which keep what was done before an exception.\<close>

fun append_at :: "nat \<Rightarrow> nat \<Rightarrow> (int \<times> string) list \<Rightarrow> string \<Rightarrow> cpp_exn option \<times> string" where
  "append_at 0 i buff out = (None, out)"
| "append_at (Suc n) i buff out =
     (case map_of buff (int i) of
        None \<Rightarrow> (Some OutOfRange, out)
      | Some s \<Rightarrow> append_at n (Suc i) buff (out @ s))"

definition decode_stream ::
  "string \<Rightarrow> string \<Rightarrow> (int \<times> string) list \<Rightarrow> bool result \<times> string \<times> (int \<times> string) list" where
  "decode_stream inp out stream_buff =
     (case stoi (sample_json_str_get inp ''index'') of
        Inl e \<Rightarrow> (Inl e, out, stream_buff)
      | Inr index \<Rightarrow>
          let finish = sample_json_str_get inp ''finish'';
              buff = alist_put index (sample_json_str_get inp ''delta'') stream_buff
          in if str_find ''f'' finish = None
             then case append_at (length buff) 0 buff out of
                    (Some e, out) \<Rightarrow> (Inl e, out, buff)
                  | (None, out) \<Rightarrow> (Inr False, out, [])
             else (Inr True, out, buff))"

section \<open>Two-part messages\<close>

definition signed_char :: "char \<Rightarrow> int" where
  "signed_char c = (let n = int (of_char c) in if n < 128 then n else n - 256)"

definition char_of_length :: "nat \<Rightarrow> char" where
  "char_of_length n = char_of n"

definition set_param :: "string \<Rightarrow> string \<Rightarrow> string" where
  "set_param param0 param1 = char_of_length (length param0) # param0 @ param1"

text \<open>\<^verbatim>\<open>std::string(data + from, len)\<close> where the given bytes are readable at \<^verbatim>\<open>data\<close>; \<^verbatim>\<open>c_str()\<close>
  ends with a zero byte.\<close>

definition string_at :: "string \<Rightarrow> int \<Rightarrow> int \<Rightarrow> string result" where
  "string_at data from len =
     (if len < 0 then Inl LengthError
      else if from < 0 \<or> int (length data) < from + len then Inl UndefinedBehaviour
      else Inr (take (nat len) (drop (nat from) data)))"

definition get_param :: "int \<Rightarrow> string \<Rightarrow> string \<Rightarrow> string result" where
  "get_param index idata msg =
     (let data = (if 0 < length idata then idata @ [CHR 0x00] else msg);
          size = int (length (if 0 < length idata then idata else msg))
      in if data = [] then Inl UndefinedBehaviour
         else let d0 = signed_char (hd data)
              in if index mod 2 = 0 then string_at data 1 d0
                 else string_at data (d0 + 1) (size - d0 - 1))"

section \<open>Reference notions\<close>

text \<open>A strict decoder of one UTF-8 sequence: right lead and continuation bytes, shortest form.\<close>

definition continuation :: "nat \<Rightarrow> bool" where
  "continuation b \<longleftrightarrow> 0x80 \<le> b \<and> b < 0xC0"

fun utf8_decode :: "nat list \<Rightarrow> nat option" where
  "utf8_decode [a] = (if a < 0x80 then Some a else None)"
| "utf8_decode [a, b] =
     (let v = (a - 0xC0) * 64 + (b - 0x80)
      in if 0xC0 \<le> a \<and> a < 0xE0 \<and> continuation b \<and> 0x80 \<le> v then Some v else None)"
| "utf8_decode [a, b, c] =
     (let v = ((a - 0xE0) * 64 + (b - 0x80)) * 64 + (c - 0x80)
      in if 0xE0 \<le> a \<and> a < 0xF0 \<and> continuation b \<and> continuation c \<and> 0x800 \<le> v then Some v else None)"
| "utf8_decode [a, b, c, d] =
     (let v = (((a - 0xF0) * 64 + (b - 0x80)) * 64 + (c - 0x80)) * 64 + (d - 0x80)
      in if 0xF0 \<le> a \<and> a < 0xF8 \<and> continuation b \<and> continuation c \<and> continuation d \<and> 0x10000 \<le> v
         then Some v else None)"
| "utf8_decode _ = None"

text \<open>A fragment as the nodes send it: the fields of the object in the order of their names.\<close>

definition chunk_text :: "string \<Rightarrow> bool \<Rightarrow> nat \<Rightarrow> string" where
  "chunk_text d fin i =
     [CHR 0x7B, quote_char] @ ''delta'' @ [quote_char, CHR '':'', quote_char] @ d @
     [quote_char, CHR '','', quote_char] @ ''finish'' @ [quote_char, CHR '':''] @ (if fin then ''true'' else ''false'') @
     [CHR '','', quote_char] @ ''index'' @ [quote_char, CHR '':''] @ to_string (int i) @ [CHR 0x7D]"

definition plain_text :: "string \<Rightarrow> bool" where
  "plain_text d \<longleftrightarrow> quote_char \<notin> set d \<and> CHR 0x5C \<notin> set d"

definition keyword_free :: "string \<Rightarrow> bool" where
  "keyword_free d \<longleftrightarrow> d \<noteq> ''finish'' \<and> d \<noteq> ''index''"

fun decode_run :: "string list \<Rightarrow> string \<Rightarrow> (int \<times> string) list \<Rightarrow> bool result \<times> string \<times> (int \<times> string) list" where
  "decode_run [] out buff = (Inr True, out, buff)"
| "decode_run (m # ms) out buff =
     (case decode_stream m out buff of
        (Inr True, out, buff) \<Rightarrow> decode_run ms out buff
      | r \<Rightarrow> r)"

section \<open>Messages and work ids\<close>

lemma signed_char_of: "signed_char (char_of_length n) = (let m = int (n mod 256) in if m < 128 then m else m - 256)"
  by (simp add: signed_char_def char_of_length_def Let_def of_char_of zmod_int)

lemma get_param_set:
  assumes "k = signed_char (char_of_length (length p0))"
  shows "get_param 0 (set_param p0 p1) msg =
      (if k < 0 then Inl LengthError else Inr (take (nat k) (p0 @ p1)))"
    and "0 \<le> k \<Longrightarrow> get_param 1 (set_param p0 p1) msg = Inr (drop (nat k) (p0 @ p1))"
proof -
  define n where "n = length p0"
  define c where "c = char_of_length n"
  have "n mod 256 \<le> n" by simp
  then have "int (n mod 256) \<le> int n" by (simp only: of_nat_le_iff)
  then have k: "k \<le> int n"
    unfolding assms n_def [symmetric] signed_char_of Let_def by (cases "int (n mod 256) < 128") auto
  have data: "set_param p0 p1 = c # p0 @ p1" "signed_char c = k" by (simp_all add: set_param_def c_def n_def assms)
  show "get_param 0 (set_param p0 p1) msg = (if k < 0 then Inl LengthError else Inr (take (nat k) (p0 @ p1)))"
    using k by (simp add: get_param_def data string_at_def n_def)
  assume nn: "0 \<le> k"
  define j where "j = nat k"
  have j: "k = int j" "j \<le> length p0" using k nn by (simp_all add: j_def n_def)
  have n: "int (length (c # p0 @ p1)) - k - 1 = int (length (p0 @ p1) - j)" "k + 1 = int (Suc j)"
    using j by (simp_all add: of_nat_diff)
  have "get_param 1 (set_param p0 p1) msg = string_at (c # (p0 @ p1) @ [CHR 0x00]) (int (Suc j)) (int (length (p0 @ p1) - j))"
    unfolding n [symmetric] data(2) [symmetric] by (simp add: get_param_def data(1) Let_def)
  also have "\<dots> = Inr (drop j (p0 @ p1))"
    unfolding string_at_def nat_int using j(2) by simp
  finally show "get_param 1 (set_param p0 p1) msg = Inr (drop (nat k) (p0 @ p1))" using j(1) by simp
qed

lemma str_find_skip: "q \<notin> set xs \<Longrightarrow> str_find (q # p) (xs @ ys) = map_option ((+) (length xs)) (str_find (q # p) ys)"
proof (induction xs)
  case (Cons x xs)
  then show ?case by (auto simp: option.map_comp comp_def)
qed (cases "str_find (q # p) ys"; simp)

lemma str_find_dot: "CHR ''.'' \<notin> set xs \<Longrightarrow> str_find ''.'' (xs @ CHR ''.'' # ys) = Some (length xs)"
  by (simp add: str_find_skip)

lemma str_find_dot_None: "CHR ''.'' \<notin> set xs \<Longrightarrow> str_find ''.'' xs = None"
  using str_find_skip [of "CHR ''.''" xs "[]" "[]"] by simp

section \<open>Bytes\<close>

lemma and_mask_unat:
  "unat (and (drop_bit k (x :: 32 word)) 0x3F) = unat x div 2 ^ k mod 64"
  "unat (and (drop_bit k x) 0x1F) = unat x div 2 ^ k mod 32"
  "unat (and (drop_bit k x) 0x0F) = unat x div 2 ^ k mod 16"
  "unat (and (drop_bit k x) 0x07) = unat x div 2 ^ k mod 8"
proof -
  have mask: "(0x3F :: 32 word) = mask 6" "(0x1F :: 32 word) = mask 5" "(0x0F :: 32 word) = mask 4" "(0x07 :: 32 word) = mask 3"
    by (simp_all add: mask_eq_exp_minus_1)
  have "unat x < 2 ^ LENGTH(32)" by (rule unsigned_less)
  then have x: "unat x mod 4294967296 = unat x" by simp
  show "unat (and (drop_bit k x) 0x3F) = unat x div 2 ^ k mod 64"
    "unat (and (drop_bit k x) 0x1F) = unat x div 2 ^ k mod 32"
    "unat (and (drop_bit k x) 0x0F) = unat x div 2 ^ k mod 16"
    "unat (and (drop_bit k x) 0x07) = unat x div 2 ^ k mod 8"
    using x unfolding mask take_bit_eq_mask [symmetric] unsigned_take_bit_eq unsigned_drop_bit_eq
    by (simp_all add: take_bit_eq_mod drop_bit_eq_div)
qed

lemma or_disjoint: "and a b = 0 \<Longrightarrow> or a b = a + (b :: 32 word)"
  by (simp add: disjunctive_add_eq_or)

lemma and_disjoint:
  "and (0x80 :: 32 word) (and y 0x3F) = 0" "and (0xC0 :: 32 word) (and y 0x1F) = 0"
  "and (0xE0 :: 32 word) (and y 0x0F) = 0" "and (0xF0 :: 32 word) (and y 0x07) = 0"
  by (subst and.left_commute, simp)+

lemma unat_out_byte: "unat x < 256 \<Longrightarrow> unat (out_byte x) = unat x"
  by (simp add: out_byte_def unsigned_ucast_eq take_bit_nat_eq_self)

lemma unat_plus_small: "unat a + unat b < 256 \<Longrightarrow> unat (a + b :: 32 word) = unat a + unat b"
  by (simp add: unat_plus_if_size word_size)

lemma byte_sum:
  assumes "and a b = 0" and "unat a = m" and "unat b = n" and "m + n < 256"
  shows "unat (out_byte (or a b)) = m + n"
  using assms by (simp add: or_disjoint unat_out_byte unat_plus_small)

lemma utf8_bytes:
  fixes x :: "32 word"
  shows "unat (out_byte (or 0x80 (and (drop_bit k x) 0x3F))) = 0x80 + unat x div 2 ^ k mod 64"
    and "unat (out_byte (or 0xC0 (and (drop_bit k x) 0x1F))) = 0xC0 + unat x div 2 ^ k mod 32"
    and "unat (out_byte (or 0xE0 (and (drop_bit k x) 0x0F))) = 0xE0 + unat x div 2 ^ k mod 16"
    and "unat (out_byte (or 0xF0 (and (drop_bit k x) 0x07))) = 0xF0 + unat x div 2 ^ k mod 8"
proof -
  have m: "n mod 64 < (64::nat)" "n mod 32 < (32::nat)" "n mod 16 < (16::nat)" "n mod 8 < (8::nat)" for n by simp_all
  let ?n = "unat x div 2 ^ k"
  show "unat (out_byte (or 0x80 (and (drop_bit k x) 0x3F))) = 0x80 + ?n mod 64"
    by (rule byte_sum [OF and_disjoint(1) _ and_mask_unat(1)]) (simp, use m(1) [of ?n] in linarith)
  show "unat (out_byte (or 0xC0 (and (drop_bit k x) 0x1F))) = 0xC0 + ?n mod 32"
    by (rule byte_sum [OF and_disjoint(2) _ and_mask_unat(2)]) (simp, use m(2) [of ?n] in linarith)
  show "unat (out_byte (or 0xE0 (and (drop_bit k x) 0x0F))) = 0xE0 + ?n mod 16"
    by (rule byte_sum [OF and_disjoint(3) _ and_mask_unat(3)]) (simp, use m(3) [of ?n] in linarith)
  show "unat (out_byte (or 0xF0 (and (drop_bit k x) 0x07))) = 0xF0 + ?n mod 8"
    by (rule byte_sum [OF and_disjoint(4) _ and_mask_unat(4)]) (simp, use m(4) [of ?n] in linarith)
qed

lemma utf8_last: "unat (out_byte (or 0x80 (and (x :: 32 word) 0x3F))) = 0x80 + unat x mod 64"
  using utf8_bytes(1) [of 0 x] by simp

lemma mod_split: "(n :: nat) mod (a * b) = n div a mod b * a + n mod a"
  by (simp add: mod_mult2_eq mult.commute)

lemma mod_div_parts:
  "(n :: nat) div 64 mod 32 * 64 + n mod 64 = n mod 2048"
  "(n div 4096 mod 16 * 64 + n div 64 mod 64) * 64 + n mod 64 = n mod 65536"
  "((n div 262144 mod 8 * 64 + n div 4096 mod 64) * 64 + n div 64 mod 64) * 64 + n mod 64 = n mod 2097152"
proof -
  have d: "n div 64 div 64 = n div 4096" "n div 4096 div 64 = n div 262144"
    using div_mult2_eq [of n 64 64] div_mult2_eq [of n 4096 64] by simp_all
  have a: "n div 64 mod (64 * 16) = n div 4096 mod 16 * 64 + n div 64 mod 64"
    unfolding mod_split d ..
  have b: "n div 4096 mod (64 * 8) = n div 262144 mod 8 * 64 + n div 4096 mod 64"
    unfolding mod_split d ..
  have c: "n div 64 mod (64 * (64 * 8)) = (n div 262144 mod 8 * 64 + n div 4096 mod 64) * 64 + n div 64 mod 64"
    unfolding mod_split [of "n div 64" 64 "64 * 8"] d b ..
  have e: "(2048::nat) = 64 * 32" "(65536::nat) = 64 * (64 * 16)" "(2097152::nat) = 64 * (64 * (64 * 8))" by simp_all
  show "n div 64 mod 32 * 64 + n mod 64 = n mod 2048" unfolding e(1) mod_split ..
  show "(n div 4096 mod 16 * 64 + n div 64 mod 64) * 64 + n mod 64 = n mod 65536"
    unfolding e(2) mod_split [of n 64 "64 * 16"] a ..
  show "((n div 262144 mod 8 * 64 + n div 4096 mod 64) * 64 + n div 64 mod 64) * 64 + n mod 64 = n mod 2097152"
    unfolding e(3) mod_split [of n 64 "64 * (64 * 8)"] c ..
qed

lemma continuation_byte: "continuation (128 + n mod 64)"
proof -
  have "n mod 64 < 64" by simp
  then show ?thesis unfolding continuation_def by linarith
qed

lemma word_le_numeral: "(x :: 32 word) \<le> y \<longleftrightarrow> unat x \<le> unat y"
  by (rule word_le_nat_alt)

lemma utf8_cases:
  fixes x :: "32 word"
  defines "n \<equiv> unat x"
  shows "map unat (unicode_to_utf8 x) =
    (if n \<le> 0x7F then [n]
     else if n \<le> 0x7FF then [0xC0 + n div 64 mod 32, 0x80 + n mod 64]
     else if n \<le> 0xFFFF then [0xE0 + n div 4096 mod 16, 0x80 + n div 64 mod 64, 0x80 + n mod 64]
     else if n \<le> 0x10FFFF
     then [0xF0 + n div 262144 mod 8, 0x80 + n div 4096 mod 64, 0x80 + n div 64 mod 64, 0x80 + n mod 64]
     else [])"
proof -
  have ascii: "unat (out_byte (and x 0x7F)) = n" if "n \<le> 0x7F"
  proof -
    have "(0x7F :: 32 word) = mask 7" by (simp add: mask_eq_exp_minus_1)
    then have "and x 0x7F = take_bit 7 x" by (simp add: take_bit_eq_mask)
    then have "unat (and x 0x7F) = take_bit 7 n" by (simp only: unsigned_take_bit_eq n_def)
    then have "unat (and x 0x7F) = n mod 128" by (simp add: take_bit_eq_mod)
    then show ?thesis using that by (simp add: unat_out_byte)
  qed
  have b: "unat (out_byte (or 0x80 (and x 0x3F))) = 0x80 + n mod 64" by (simp add: utf8_last n_def)
  have c: "unat (out_byte (or 0x80 (and (drop_bit 6 x) 0x3F))) = 0x80 + n div 64 mod 64"
    "unat (out_byte (or 0x80 (and (drop_bit 12 x) 0x3F))) = 0x80 + n div 4096 mod 64"
    "unat (out_byte (or 0xC0 (and (drop_bit 6 x) 0x1F))) = 0xC0 + n div 64 mod 32"
    "unat (out_byte (or 0xE0 (and (drop_bit 12 x) 0x0F))) = 0xE0 + n div 4096 mod 16"
    "unat (out_byte (or 0xF0 (and (drop_bit 18 x) 0x07))) = 0xF0 + n div 262144 mod 8"
    by (simp_all add: utf8_bytes n_def)
  have u: "unat (0x7F :: 32 word) = 0x7F" "unat (0x7FF :: 32 word) = 0x7FF" "unat (0xFFFF :: 32 word) = 0xFFFF"
    "unat (0x10FFFF :: 32 word) = 0x10FFFF" by simp_all
  show ?thesis
    unfolding unicode_to_utf8_def word_le_numeral u n_def [symmetric]
    by (simp only: if_distrib [of "map unat"] list.map b c ascii cong: if_cong)
qed

section \<open>Scanning\<close>

lemma scan_finished: "js_status s = -1 \<Longrightarrow>
  js_key_val (fold scan_char cs s) = js_key_val s \<and> js_obj_flage (fold scan_char cs s) = js_obj_flage s"
proof (induction cs arbitrary: s)
  case (Cons c cs)
  then show ?case using Cons.IH [of "scan_char c s"] by (simp add: scan_char_def)
qed simp

lemma scan_quoted:
  "js_status s = 100 \<Longrightarrow> quote_char \<notin> set d \<Longrightarrow>
   fold scan_char d s = s\<lparr>js_key_val := js_key_val s @ d, js_last_c := last (js_last_c s # d)\<rparr>"
proof (induction d arbitrary: s)
  case (Cons c d)
  have "scan_char c s = s\<lparr>js_key_val := js_key_val s @ [c], js_last_c := c\<rparr>"
    using Cons.prems by (auto simp: scan_char_def scan_status100_def)
  then show ?case using Cons.IH [of "scan_char c s"] Cons.prems by simp
qed simp

definition bare_char :: "char \<Rightarrow> bool" where
  "bare_char c \<longleftrightarrow> c \<notin> {quote_char, CHR 0x7B, CHR '':'', CHR '','', CHR 0x7D, CHR '' ''}"

lemma scan_bare:
  "js_status s = 0 \<Longrightarrow> js_obj_flage s = 1 \<Longrightarrow> list_all bare_char d \<Longrightarrow>
   fold scan_char d s = s\<lparr>js_key_val := js_key_val s @ d, js_last_c := last (js_last_c s # d)\<rparr>"
proof (induction d arbitrary: s)
  case (Cons c d)
  have "scan_char c s = s\<lparr>js_key_val := js_key_val s @ [c], js_last_c := c\<rparr>"
    using Cons.prems by (simp add: scan_char_def scan_status0_def bare_char_def)
  then show ?case using Cons.IH [of "scan_char c s"] Cons.prems by simp
qed simp

text \<open>The value behind a key, when it is a string or a bare word.\<close>

lemma json_get_string:
  assumes "str_find ([quote_char] @ key @ [quote_char]) t = Some k"
    and "drop (k + length key + 2) t = [CHR '':'', quote_char] @ d @ [quote_char] @ rest" and "plain_text d"
  shows "sample_json_str_get t key = d"
proof -
  define s0 where "s0 = \<lparr>js_key_val = [], js_status = 0, js_last_c = CHR 0x00, js_obj_flage = 0\<rparr>"
  define s1 where "s1 = scan_char quote_char (scan_char CHR '':'' s0)"
  have s1: "js_status s1 = 100" "js_key_val s1 = []" "js_last_c s1 = quote_char"
    by (simp_all add: s1_def s0_def scan_char_def scan_status0_def quote_char_def)
  define s2 where "s2 = scan_char quote_char (fold scan_char d s1)"
  have q: "quote_char \<notin> set d" "CHR 0x5C \<notin> set d" using assms(3) by (simp_all add: plain_text_def)
  have "last (quote_char # d) \<noteq> CHR 0x5C" using q(2) last_in_set [of d] by (cases d) (auto simp: quote_char_def)
  then have s2: "js_status s2 = -1" "js_key_val s2 = d" "js_obj_flage s2 = 0"
    using scan_quoted [OF s1(1) q(1)] s1 by (simp_all add: s2_def scan_char_def scan_status100_def)
  have "fold scan_char ([CHR '':'', quote_char] @ d @ [quote_char] @ rest) s0 = fold scan_char rest s2"
    by (simp add: s1_def s2_def)
  then show ?thesis using assms(1,2) scan_finished [OF s2(1), of rest] s2
    by (simp add: sample_json_str_get_def s0_def [symmetric] Let_def)
qed

lemma json_get_bare:
  assumes "str_find ([quote_char] @ key @ [quote_char]) t = Some k"
    and "drop (k + length key + 2) t = [CHR '':''] @ d @ [c] @ rest" and "list_all bare_char d"
    and "c = CHR '','' \<or> c = CHR 0x7D"
  shows "sample_json_str_get t key = d"
proof -
  define s0 where "s0 = \<lparr>js_key_val = [], js_status = 0, js_last_c = CHR 0x00, js_obj_flage = 0\<rparr>"
  define s1 where "s1 = scan_char CHR '':'' s0"
  have s1: "js_status s1 = 0" "js_key_val s1 = []" "js_obj_flage s1 = 1"
    by (simp_all add: s1_def s0_def scan_char_def scan_status0_def quote_char_def)
  define s2 where "s2 = scan_char c (fold scan_char d s1)"
  have s2: "js_status s2 = -1" "js_key_val s2 = d" "js_obj_flage s2 = 0"
    using scan_bare [OF s1(1,3) assms(3)] s1 assms(4)
    by (auto simp: s2_def scan_char_def scan_status0_def quote_char_def)
  have "fold scan_char ([CHR '':''] @ d @ [c] @ rest) s0 = fold scan_char rest s2"
    by (simp add: s1_def s2_def)
  then show ?thesis using assms(1,2) scan_finished [OF s2(1), of rest] s2
    by (simp add: sample_json_str_get_def s0_def [symmetric] Let_def)
qed

lemma prefix_quoted:
  assumes "quote_char \<notin> set d" and "quote_char \<notin> set key"
  shows "prefix (key @ [quote_char]) (d @ quote_char # rest) \<longleftrightarrow> d = key"
  using assms
proof (induction d arbitrary: key)
  case Nil
  then show ?case by (cases key) auto
next
  case (Cons c d)
  then show ?case by (cases key) auto
qed

lemma find_at_quote:
  assumes "quote_char \<notin> set d" and "quote_char \<notin> set key" and "d \<noteq> key"
  shows "str_find (quote_char # key @ [quote_char]) (quote_char # d @ quote_char # rest) =
    map_option ((+) (Suc (length d))) (str_find (quote_char # key @ [quote_char]) (quote_char # rest))"
  using assms prefix_quoted [OF assms(1,2), of rest] str_find_skip [OF assms(1), of "key @ [quote_char]"]
  by (simp add: option.map_comp comp_def)

text \<open>A text cut at its quotes: the first segment equal to the key is what the search finds.\<close>

definition segments :: "string list \<Rightarrow> string" where
  "segments ss = concat (map (Cons quote_char) ss)"

lemma find_segments:
  assumes "quote_char \<notin> set key" and "list_all (\<lambda>s. quote_char \<notin> set s \<and> s \<noteq> key) ss"
  shows "str_find ([quote_char] @ key @ [quote_char]) (segments ss @ segments [key] @ quote_char # rest) =
    Some (length (segments ss))"
  using assms(2)
proof (induction ss)
  case Nil
  then show ?case by (simp add: segments_def)
next
  case (Cons s ss)
  obtain t where t: "segments ss @ segments [key] @ quote_char # rest = quote_char # t"
    by (cases ss) (simp_all add: segments_def)
  have "segments (s # ss) @ segments [key] @ quote_char # rest = quote_char # s @ quote_char # t"
    using t by (simp add: segments_def)
  moreover have "str_find (quote_char # key @ [quote_char]) (quote_char # s @ quote_char # t) =
      map_option ((+) (Suc (length s))) (str_find (quote_char # key @ [quote_char]) (quote_char # t))"
    using find_at_quote [OF _ assms(1)] Cons.prems by simp
  ultimately show ?case using Cons t by (simp add: segments_def)
qed

lemma json_get_bare_segments:
  assumes t: "t = x @ segments ss @ segments [key] @ quote_char # [CHR '':''] @ d @ [c] @ rest"
    and "quote_char \<notin> set x" and "quote_char \<notin> set key"
    and "list_all (\<lambda>s. quote_char \<notin> set s \<and> s \<noteq> key) ss" and "list_all bare_char d" and "c = CHR '','' \<or> c = CHR 0x7D"
  shows "sample_json_str_get t key = d"
proof (rule json_get_bare [where k = "length x + length (segments ss)" and rest = rest, OF _ _ assms(5,6)])
  show "str_find ([quote_char] @ key @ [quote_char]) t = Some (length x + length (segments ss))"
    using str_find_skip [OF assms(2), of "key @ [quote_char]"] find_segments [OF assms(3,4)] by (simp add: t)
  show "drop (length x + length (segments ss) + length key + 2) t = [CHR '':''] @ d @ [c] @ rest"
    by (simp add: t segments_def [of "[key]"])
qed

lemma digits_bare: "list_all bare_char (to_string (int i))" "quote_char \<notin> set (to_string (int i))"
proof -
  have "bare_char c" if "c \<in> set (to_string (int i))" for c
  proof -
    from to_string_chars [OF that] consider "c = CHR ''-''" | e where "e < 10" "c = digit_char e" by blast
    then show ?thesis
    proof cases
      case 2
      have "of_char c = 48 + e" using 2 by (simp add: digit_char_def)
      then show ?thesis using 2(1) by (auto simp: bare_char_def quote_char_def)
    qed (simp add: bare_char_def quote_char_def)
  qed
  then show "list_all bare_char (to_string (int i))" "quote_char \<notin> set (to_string (int i))"
    by (auto simp: list_all_iff bare_char_def)
qed

text \<open>The three fields of a fragment.\<close>

lemma chunk_fields:
  assumes "plain_text d" and "keyword_free d"
  shows "sample_json_str_get (chunk_text d fin i) ''delta'' = d"
    and "sample_json_str_get (chunk_text d fin i) ''finish'' = (if fin then ''true'' else ''false'')"
    and "sample_json_str_get (chunk_text d fin i) ''index'' = to_string (int i)"
proof -
  let ?f = "if fin then ''true'' else ''false''"
  have q: "quote_char \<notin> set d" "d \<noteq> ''finish''" "d \<noteq> ''index''"
    using assms by (simp_all add: plain_text_def keyword_free_def)
  have f: "list_all bare_char ?f" "quote_char \<notin> set ?f" by (simp_all add: bare_char_def quote_char_def)
  show "sample_json_str_get (chunk_text d fin i) ''delta'' = d"
    by (rule json_get_string [where k = 1]) (use assms(1) in \<open>simp_all add: chunk_text_def quote_char_def\<close>)
  show "sample_json_str_get (chunk_text d fin i) ''finish'' = ?f"
    by (rule json_get_bare_segments [where x = "[CHR 0x7B]" and c = "CHR '',''" and
          ss = "[''delta'', [CHR '':''], d, [CHR '','']]"])
      (use q f in \<open>simp_all add: chunk_text_def segments_def quote_char_def\<close>)
  show "sample_json_str_get (chunk_text d fin i) ''index'' = to_string (int i)"
    by (rule json_get_bare_segments [where x = "[CHR 0x7B]" and c = "CHR 0x7D" and rest = "[]" and
          ss = "[''delta'', [CHR '':''], d, [CHR '',''], ''finish'', [CHR '':''] @ ?f @ [CHR '','']]"])
      (use q f digits_bare in \<open>simp_all add: chunk_text_def segments_def quote_char_def\<close>)
qed

section \<open>Streams\<close>

lemma decode_chunk:
  assumes "plain_text d" and "keyword_free d" and "is_int32 (int i)"
  shows "decode_stream (chunk_text d False i) out buff = (Inr True, out, alist_put (int i) d buff)"
    and "decode_stream (chunk_text d True i) out buff =
      (case append_at (length (alist_put (int i) d buff)) 0 (alist_put (int i) d buff) out of
         (Some e, out) \<Rightarrow> (Inl e, out, alist_put (int i) d buff)
       | (None, out) \<Rightarrow> (Inr False, out, []))"
  using assms by (simp_all add: decode_stream_def chunk_fields stoi_to_string Let_def)

lemma append_at_all:
  assumes "\<And>k. k < n \<Longrightarrow> map_of buff (int (i + k)) = Some (ds ! (i + k))" and "i + n \<le> length ds"
  shows "append_at n i buff out = (None, out @ concat (take n (drop i ds)))"
  using assms
proof (induction n arbitrary: i out)
  case (Suc n)
  have "map_of buff (int i) = Some (ds ! i)" using Suc.prems(1) [of 0] by simp
  moreover have "append_at n (Suc i) buff (out @ ds ! i) = (None, (out @ ds ! i) @ concat (take n (drop (Suc i) ds)))"
  proof (rule Suc.IH)
    show "map_of buff (int (Suc i + k)) = Some (ds ! (Suc i + k))" if "k < n" for k
      using Suc.prems(1) [of "Suc k"] that by simp
  qed (use Suc.prems(2) in simp)
  moreover have "drop i ds = ds ! i # drop (Suc i) ds" using Suc.prems(2) by (simp add: Cons_nth_drop_Suc)
  ultimately show ?case by simp
qed simp

text \<open>The buffer holds the fragments whose indices have arrived.\<close>

definition holds :: "string list \<Rightarrow> nat list \<Rightarrow> (int \<times> string) list \<Rightarrow> bool" where
  "holds ds js buff \<longleftrightarrow> distinct (map fst buff) \<and>
     map_of buff = (\<lambda>k. if k \<in> int ` set js then Some (ds ! nat k) else None)"

lemma holds_put: "holds ds js buff \<Longrightarrow> holds ds (js @ [i]) (alist_put (int i) (ds ! i) buff)"
  by (auto simp: holds_def map_of_alist_put distinct_alist_put fun_eq_iff)

lemma holds_length: "holds ds js buff \<Longrightarrow> distinct js \<Longrightarrow> length buff = length js"
proof -
  assume h: "holds ds js buff" and d: "distinct js"
  have "set (map fst buff) = int ` set js"
    using h by (auto simp: holds_def dom_map_of_conv_image_fst [symmetric] split: if_splits)
  moreover have "length buff = card (set (map fst buff))"
    using h distinct_card [of "map fst buff"] by (simp add: holds_def)
  moreover have "card (int ` set js) = length js" using d by (simp add: card_image distinct_card)
  ultimately show ?thesis by simp
qed

lemma decode_chunks:
  assumes "list_all (\<lambda>d. plain_text d \<and> keyword_free d) ds" and "int (length ds) \<le> INT_MAX"
    and "set is \<subseteq> {..<length ds}" and "holds ds js buff"
  shows "\<exists>buff'. decode_run (map (\<lambda>i. chunk_text (ds ! i) False i) is @ ms) out buff = decode_run ms out buff' \<and>
    holds ds (js @ is) buff'"
  using assms(3,4)
proof (induction "is" arbitrary: js buff)
  case (Cons i "is")
  have i: "ds ! i \<in> set ds" "is_int32 (int i)" using Cons.prems(1) assms(2) by (auto simp: is_int32_def INT_MIN_def)
  then show ?case
    using Cons.IH [of "js @ [i]" "alist_put (int i) (ds ! i) buff"] holds_put [OF Cons.prems(2), of i] Cons.prems(1)
      decode_chunk(1) [of "ds ! i" i] assms(1) by (simp add: list_all_iff)
qed auto

section \<open>Properties\<close>

text \<open>
  C32. Both parts of a two-part message come back exactly when the first one has at most 127
  characters: its length is sent in one signed byte.
\<close>
theorem message_params_round_trip:
  "get_param 0 (set_param p0 p1) msg = Inr p0 \<and> get_param 1 (set_param p0 p1) msg = Inr p1 \<longleftrightarrow> length p0 \<le> 127"
proof -
  define k where "k = signed_char (char_of_length (length p0))"
  note g = get_param_set [OF k_def, of p1 msg]
  have k: "k = (if length p0 mod 256 < 128 then int (length p0 mod 256) else int (length p0 mod 256) - 256)"
    by (simp add: k_def signed_char_of Let_def)
  show ?thesis
  proof (cases "length p0 \<le> 127")
    case True
    then have "k = int (length p0)" by (simp add: k)
    then show ?thesis using g True by simp
  next
    case False
    have "get_param 0 (set_param p0 p1) msg \<noteq> Inr p0"
    proof (cases "k < 0")
      case nn: False
      then have "nat k < length p0" using False k by (auto split: if_splits)
      then have "length (take (nat k) (p0 @ p1)) < length p0" by simp
      then show ?thesis using g(1) nn by auto
    qed (use g in simp)
    then show ?thesis using False by simp
  qed
qed

text \<open>
  A work id made of a unit name without a dot and a number of type \<^verbatim>\<open>int\<close> gives both back; a
  name without a dot is read as itself, with no number.
\<close>
theorem work_id_round_trip:
  assumes "CHR ''.'' \<notin> set name" and "is_int32 n"
  shows "sample_get_work_id_num (sample_get_work_id n name) = Inr n \<and>
    sample_get_work_id_name (sample_get_work_id n name) = name \<and>
    sample_get_work_id_num name = Inr WORK_ID_NONE \<and> sample_get_work_id_name name = name"
  using assms stoi_to_string [OF assms(2)] str_find_dot [OF assms(1)] str_find_dot_None [OF assms(1)]
  by (simp add: sample_get_work_id_num_def sample_get_work_id_name_def sample_get_work_id_def)

theorem work_id_round_trip_witness:
  "sample_get_work_id_num (sample_get_work_id 1001 ''vllm'') = Inr 1001 \<and>
   sample_get_work_id_name (sample_get_work_id 1001 ''vllm'') = ''vllm''"
  using work_id_round_trip [of "''vllm''" 1001] by (simp add: is_int32_def INT_MIN_def INT_MAX_def)

text \<open>
  \<^verbatim>\<open>unicode_to_utf8\<close> is right: a strict decoder gets every code point up to \<open>0x10FFFF\<close> back from
  the bytes, in its shortest form of one to four bytes, and nothing is written for larger values.
\<close>
theorem utf8_round_trip:
  "utf8_decode (map unat (unicode_to_utf8 x)) = (if unat x \<le> 0x10FFFF then Some (unat x) else None) \<and>
   length (unicode_to_utf8 x) = (if x \<le> 0x7F then 1 else if x \<le> 0x7FF then 2 else if x \<le> 0xFFFF then 3
     else if x \<le> 0x10FFFF then 4 else 0)"
proof
  define n where "n = unat x"
  note parts = mod_div_parts [of n]
  have m: "n div 64 mod 32 < 32" "n div 4096 mod 16 < 16" "n div 262144 mod 8 < 8" by simp_all
  consider "n \<le> 0x7F" | "0x7F < n" "n \<le> 0x7FF" | "0x7FF < n" "n \<le> 0xFFFF" | "0xFFFF < n" "n \<le> 0x10FFFF"
    | "0x10FFFF < n" by linarith
  then have "utf8_decode (map unat (unicode_to_utf8 x)) = (if n \<le> 0x10FFFF then Some n else None)"
    by cases (use parts m in \<open>simp_all add: utf8_cases n_def [symmetric] continuation_byte Let_def\<close>)
  then show "utf8_decode (map unat (unicode_to_utf8 x)) = (if unat x \<le> 0x10FFFF then Some (unat x) else None)"
    by (simp add: n_def)
  show "length (unicode_to_utf8 x) = (if x \<le> 0x7F then 1 else if x \<le> 0x7FF then 2 else if x \<le> 0xFFFF then 3
     else if x \<le> 0x10FFFF then 4 else 0)"
    by (simp add: unicode_to_utf8_def)
qed

text \<open>
  C33. A stream is reassembled whatever the order in which its fragments arrive: if the fragments
  hold no quote or backslash, none is the word \<^verbatim>\<open>index\<close> or \<^verbatim>\<open>finish\<close>, every index from 0 occurs once
  and the message that says so comes last, \<^verbatim>\<open>decode_stream\<close> ends with the concatenation of the
  fragments in the order of their indices and an empty buffer.
\<close>
theorem stream_reassembled:
  assumes "list_all (\<lambda>d. plain_text d \<and> keyword_free d) ds" and "int (length ds) \<le> INT_MAX"
    and "distinct (is @ [k])" and "set (is @ [k]) = {..<length ds}"
  shows "decode_run (map (\<lambda>i. chunk_text (ds ! i) False i) is @ [chunk_text (ds ! k) True k]) out [] =
    (Inr False, out @ concat ds, [])"
proof -
  have k: "k < length ds" "set is \<subseteq> {..<length ds}" using assms(4) by auto
  have dk: "plain_text (ds ! k)" "keyword_free (ds ! k)" "is_int32 (int k)"
    using k(1) assms(1,2) by (simp_all add: is_int32_def INT_MIN_def list_all_length)
  have empty: "holds ds [] []" by (simp add: holds_def)
  obtain buff where b: "decode_run (map (\<lambda>i. chunk_text (ds ! i) False i) is @ [chunk_text (ds ! k) True k]) out [] =
      decode_run [chunk_text (ds ! k) True k] out buff" "holds ds is buff"
    using decode_chunks [OF assms(1,2) k(2) empty, of "[chunk_text (ds ! k) True k]" out] by (elim exE conjE) simp
  let ?b = "alist_put (int k) (ds ! k) buff"
  have h: "holds ds (is @ [k]) ?b" using holds_put [OF b(2)] .
  have len: "length ?b = length ds"
    using holds_length [OF h assms(3)] assms(3,4) by (metis card_lessThan distinct_card)
  have "append_at (length ds) 0 ?b out = (None, out @ concat (take (length ds) (drop 0 ds)))"
    using h assms(4) by (intro append_at_all) (auto simp: holds_def)
  then show ?thesis using b(1) decode_chunk(2) [OF dk] len by simp
qed

theorem stream_reassembled_witness:
  "decode_run [chunk_text ''lo'' False 1, chunk_text ''hel'' False 0, chunk_text ''!'' True 2] [] [] =
   (Inr False, ''hello!'', [])"
  using stream_reassembled [of "[''hel'', ''lo'', ''!'']" "[1, 0]" 2 "[]"]
  by (simp add: INT_MAX_def lessThan_Suc numeral_eq_Suc insert_commute plain_text_def keyword_free_def quote_char_def)

text \<open>A fragment that is the word \<^verbatim>\<open>index\<close> is taken for the key of that name, and the decoder throws.\<close>

lemma keyword_breaks_decoder:
  "decode_stream (chunk_text ''index'' False 3) out buff = (Inl InvalidArgument, out, buff)"
proof -
  have "stoi (sample_json_str_get (chunk_text ''index'' False 3) ''index'') = Inl InvalidArgument" by code_simp
  then show ?thesis by (simp add: decode_stream_def)
qed

text \<open>A first part of 256 characters is lost without an error.\<close>

lemma long_param_lost:
  "length p0 = 256 \<Longrightarrow> get_param 0 (set_param p0 p1) msg = Inr [] \<and> get_param 1 (set_param p0 p1) msg = Inr (p0 @ p1)"
  using get_param_set [OF refl, of p0 p1 msg] by (simp add: signed_char_of Let_def)

end
