(* ===== verification/Channel.thy ===== *)
theory Channel
  imports Text_Util Vllm_Stream
begin

text \<open>
  The message channel of a unit (\<^verbatim>\<open>infra-controller/include/channel.h\<close>,
  \<^verbatim>\<open>infra-controller/src/channel.cpp\<close>). The sockets of a channel are the entries of its map
  \<^verbatim>\<open>zmq_\<close>: \<open>-1\<close> is the publisher, \<open>-2\<close> the push socket of the client, other numbers are subscribers;
  an entry may be an empty pointer. ZeroMQ itself is not modelled: opening a socket records its
  kind and URL, sending appends to the list of what was sent. The JSON printer and the answer of
  the system's registry to \<^verbatim>\<open>sql_select\<close> are parameters.
\<close>

datatype zsock = ZPub string | ZPush string | ZSub string

record llm_channel_obj =
  ch_zmq :: "(int \<times> zsock option) list"
  ch_zmq_url_index :: int
  ch_zmq_url_map :: "(string \<times> int) list"
  ch_unit_name :: string
  ch_enoutput :: bool
  ch_enstream :: bool
  ch_request_id :: string
  ch_work_id :: string
  ch_inference_url :: string
  ch_publisher_url :: string
  ch_output_url :: string

text \<open>A message that left the process: the URL of the socket and the text.\<close>

type_synonym sent = "(string \<times> string) list"

text \<open>\<^verbatim>\<open>enoutput_\<close> and \<^verbatim>\<open>enstream_\<close> have no initialiser; their values are the arguments.\<close>

definition new_channel :: "bool \<Rightarrow> bool \<Rightarrow> string \<Rightarrow> string \<Rightarrow> string \<Rightarrow> llm_channel_obj" where
  "new_channel out0 stream0 publisher_url inference_url unit_name =
     \<lparr>ch_zmq = [(-1, Some (ZPub publisher_url)), (-2, None)], ch_zmq_url_index = -1000,
      ch_zmq_url_map = [], ch_unit_name = unit_name, ch_enoutput = out0, ch_enstream = stream0,
      ch_request_id = [], ch_work_id = [], ch_inference_url = inference_url,
      ch_publisher_url = publisher_url, ch_output_url = []\<rparr>"

definition set_enoutput :: "bool \<Rightarrow> llm_channel_obj \<Rightarrow> llm_channel_obj" where
  "set_enoutput flage ch = ch\<lparr>ch_enoutput := flage\<rparr>"

definition set_enstream :: "bool \<Rightarrow> llm_channel_obj \<Rightarrow> llm_channel_obj" where
  "set_enstream flage ch = ch\<lparr>ch_enstream := flage\<rparr>"

definition set_push_url :: "string \<Rightarrow> llm_channel_obj \<Rightarrow> llm_channel_obj" where
  "set_push_url url ch =
     (if ch_output_url ch \<noteq> url
      then ch\<lparr>ch_output_url := url, ch_zmq := alist_put (-2) (Some (ZPush url)) (ch_zmq ch)\<rparr>
      else ch)"

definition cear_push_url :: "llm_channel_obj \<Rightarrow> llm_channel_obj" where
  "cear_push_url ch = ch\<lparr>ch_zmq := alist_put (-2) None (ch_zmq ch)\<rparr>"

section \<open>Incoming messages\<close>

definition find_from :: "string \<Rightarrow> string \<Rightarrow> nat \<Rightarrow> nat option" where
  "find_from pat s k = map_option ((+) k) (str_find pat (drop k s))"

definition action_flag :: string where
  "action_flag = [quote_char] @ ''action'' @ [quote_char]"

lemma find_from_bounds:
  assumes "find_from pat s k = Some p" and "pat \<noteq> []"
  shows "k \<le> p" and "p < length s"
proof -
  obtain q where q: "str_find pat (drop k s) = Some q" "p = k + q"
    using assms(1) by (auto simp: find_from_def)
  then have "prefix pat (drop q (drop k s))" using str_find_Some by blast
  then have "drop (k + q) s \<noteq> []" using assms(2) by (auto simp: prefix_def add.commute)
  then show "k \<le> p" "p < length s" using q(2) by simp_all
qed

text \<open>The loop of \<^verbatim>\<open>subscriber_event_call\<close>: is there an occurrence of the action key that no
  backslash escapes. The search goes on 8 characters later, the size of a pointer.\<close>

function action_loop :: "string \<Rightarrow> nat option \<Rightarrow> bool" where
  "action_loop raw None = False"
| "action_loop raw (Some pos) =
     (if 0 < pos \<and> raw ! (pos - 1) \<noteq> CHR 0x5C then True
      else action_loop raw (find_from action_flag raw (pos + 8)))"
  by pat_completeness auto
termination
proof (relation "measure (\<lambda>(raw, pos). case pos of None \<Rightarrow> 0 | Some p \<Rightarrow> Suc (length raw - p))")
  show "((raw, find_from action_flag raw (pos + 8)), raw, Some pos)
      \<in> measure (\<lambda>(raw, pos). case pos of None \<Rightarrow> 0 | Some p \<Rightarrow> Suc (length raw - p))" for raw pos
    using find_from_bounds [of action_flag raw "pos + 8"]
    by (cases "find_from action_flag raw (pos + 8)") (force simp: action_flag_def)+
qed simp

text \<open>What the callback is given, and the channel as the callback finds it.\<close>

definition subscriber_event_call :: "string \<Rightarrow> llm_channel_obj \<Rightarrow> (string \<times> string) \<times> llm_channel_obj" where
  "subscriber_event_call raw ch =
     (let ch = (if action_loop raw (find_from action_flag raw 0)
                then let zmq_com = sample_json_str_get raw ''zmq_com'';
                         ch = (if zmq_com \<noteq> [] then set_push_url zmq_com ch else ch)
                     in ch\<lparr>ch_request_id := sample_json_str_get raw ''request_id'',
                           ch_work_id := sample_json_str_get raw ''work_id''\<rparr>
                else ch)
      in ((sample_json_str_get raw ''object'', sample_json_str_get raw ''data''), ch))"

section \<open>Subscriptions\<close>

definition word_char :: "char \<Rightarrow> bool" where
  "word_char c \<longleftrightarrow> (let n = of_char c in (48 \<le> n \<and> n \<le> (57::nat)) \<or> (65 \<le> n \<and> n \<le> 90) \<or>
     (97 \<le> n \<and> n \<le> 122) \<or> n = 95)"

text \<open>A full match of \<^verbatim>\<open>(\w+)\.(\d+)\<close>: the second group.\<close>

definition match_work_id :: "string \<Rightarrow> string option" where
  "match_work_id work_id =
     (let name = takeWhile word_char work_id
      in case dropWhile word_char work_id of
           c # digits \<Rightarrow>
             if name \<noteq> [] \<and> c = CHR ''.'' \<and> digits \<noteq> [] \<and> list_all (\<lambda>c. char_digit c \<noteq> None) digits
             then Some digits else None
         | [] \<Rightarrow> None)"

definition subscriber_work_id ::
  "(string \<Rightarrow> string) \<Rightarrow> string \<Rightarrow> llm_channel_obj \<Rightarrow> int result \<times> llm_channel_obj" where
  "subscriber_work_id sql_select work_id ch =
     (case (if work_id \<noteq> [] then match_work_id work_id else None) of
        Some digits \<Rightarrow>
          (case stoi digits of
             Inl e \<Rightarrow> (Inl e, ch)
           | Inr id_num \<Rightarrow>
               let input_url = sql_select (work_id @ ''.out_port'')
               in if input_url = [] then (Inr (-1), ch)
                  else (Inr 0, ch\<lparr>ch_zmq := alist_put id_num (Some (ZSub input_url)) (ch_zmq ch)\<rparr>))
      | None \<Rightarrow> (Inr 0, ch\<lparr>ch_zmq := alist_put 0 (Some (ZSub (ch_inference_url ch))) (ch_zmq ch)\<rparr>))"

definition stop_subscriber_work_id :: "string \<Rightarrow> llm_channel_obj \<Rightarrow> unit result \<times> llm_channel_obj" where
  "stop_subscriber_work_id work_id ch =
     (case (case match_work_id work_id of Some digits \<Rightarrow> stoi digits | None \<Rightarrow> Inr 0) of
        Inl e \<Rightarrow> (Inl e, ch)
      | Inr id_num \<Rightarrow> (Inr (), ch\<lparr>ch_zmq := alist_erase id_num (ch_zmq ch)\<rparr>))"

definition subscriber :: "string \<Rightarrow> llm_channel_obj \<Rightarrow> llm_channel_obj" where
  "subscriber zmq_url ch =
     (let i = ch_zmq_url_index ch
      in ch\<lparr>ch_zmq_url_map := alist_put zmq_url i (ch_zmq_url_map ch),
            ch_zmq_url_index := i - 1,
            ch_zmq := alist_put i (Some (ZSub zmq_url)) (ch_zmq ch)\<rparr>)"

definition stop_subscriber :: "string \<Rightarrow> llm_channel_obj \<Rightarrow> llm_channel_obj" where
  "stop_subscriber zmq_url ch =
     (if zmq_url = [] then ch\<lparr>ch_zmq := [], ch_zmq_url_map := []\<rparr>
      else case map_of (ch_zmq_url_map ch) zmq_url of
             None \<Rightarrow> ch
           | Some i \<Rightarrow> ch\<lparr>ch_zmq := alist_erase i (ch_zmq ch),
                         ch_zmq_url_map := alist_erase zmq_url (ch_zmq_url_map ch)\<rparr>)"

section \<open>Outgoing messages\<close>

fun zsock_url :: "zsock \<Rightarrow> string" where
  "zsock_url (ZPub url) = url"
| "zsock_url (ZPush url) = url"
| "zsock_url (ZSub url) = url"

text \<open>Indexing the map makes an empty entry where there is none.\<close>

definition touch :: "int \<Rightarrow> llm_channel_obj \<Rightarrow> llm_channel_obj" where
  "touch i ch = (if map_of (ch_zmq ch) i = None then ch\<lparr>ch_zmq := alist_put i None (ch_zmq ch)\<rparr> else ch)"

definition sock_at :: "int \<Rightarrow> llm_channel_obj \<Rightarrow> zsock option" where
  "sock_at i ch = Option.bind (map_of (ch_zmq ch) i) (\<lambda>s. s)"

definition send_raw_to_pub :: "string \<Rightarrow> llm_channel_obj \<Rightarrow> (sent \<times> llm_channel_obj) result" where
  "send_raw_to_pub raw ch =
     (case sock_at (-1) ch of
        None \<Rightarrow> Inl UndefinedBehaviour
      | Some s \<Rightarrow> Inr ([(zsock_url s, raw)], ch))"

definition send_raw_to_usr :: "string \<Rightarrow> llm_channel_obj \<Rightarrow> int \<times> sent \<times> llm_channel_obj" where
  "send_raw_to_usr raw ch =
     (case sock_at (-2) ch of
        None \<Rightarrow> (-1, [], touch (-2) ch)
      | Some s \<Rightarrow> (int (length raw), [(zsock_url s, raw)], ch))"

definition send_raw_for_url :: "string \<Rightarrow> string \<Rightarrow> sent" where
  "send_raw_for_url zmq_url raw = [(zmq_url, raw)]"

definition reply_body :: "int \<Rightarrow> string \<Rightarrow> string \<Rightarrow> string \<Rightarrow> json \<Rightarrow> json \<Rightarrow> json" where
  "reply_body created request_id work_id object data err =
     JObj [(''created'', JInt created), (''data'', data), (''error'', err), (''object'', JStr object),
           (''request_id'', JStr request_id), (''work_id'', JStr work_id)]"

definition error_of :: "string \<Rightarrow> json" where
  "error_of error_msg =
     (if error_msg = [] then JObj [(''code'', JInt 0), (''message'', JStr [])] else JStr error_msg)"

definition error_object :: "int \<Rightarrow> string \<Rightarrow> json" where
  "error_object code message = JObj [(''code'', JInt code), (''message'', JStr message)]"

definition channel_send ::
  "json_text \<Rightarrow> int \<Rightarrow> string \<Rightarrow> json \<Rightarrow> string \<Rightarrow> string \<Rightarrow> llm_channel_obj \<Rightarrow> (sent \<times> llm_channel_obj) result" where
  "channel_send jt created object data error_msg work_id ch =
     (let out = jt_dump jt (reply_body created (ch_request_id ch)
                  (if work_id = [] then ch_work_id ch else work_id) object data (error_of error_msg)) @ [CHR 0x0A]
      in case send_raw_to_pub out ch of
           Inl e \<Rightarrow> Inl e
         | Inr (s, ch) \<Rightarrow>
             if ch_enoutput ch
             then let (_, s', ch) = send_raw_to_usr out ch in Inr (s @ s', ch)
             else Inr (s, ch))"

section \<open>Facts\<close>

text \<open>The sockets a channel has open.\<close>

definition open_sockets :: "llm_channel_obj \<Rightarrow> zsock set" where
  "open_sockets ch = {s. \<exists>i. sock_at i ch = Some s}"

text \<open>Numbers at and below the next index are free, and the URL map names live subscribers.\<close>

definition channel_ok :: "llm_channel_obj \<Rightarrow> bool" where
  "channel_ok ch \<longleftrightarrow> ch_zmq_url_index ch \<le> -1000 \<and> (\<forall>i \<le> ch_zmq_url_index ch. map_of (ch_zmq ch) i = None) \<and>
     (\<forall>url i. map_of (ch_zmq_url_map ch) url = Some i \<longrightarrow> ch_zmq_url_index ch < i \<and> i \<le> -1000)"

lemma channel_ok_ops:
  "channel_ok (new_channel o0 s0 pub iurl uname)"
  "channel_ok ch \<Longrightarrow> channel_ok (set_push_url url ch)"
  "channel_ok ch \<Longrightarrow> channel_ok (cear_push_url ch)"
  "channel_ok ch \<Longrightarrow> channel_ok (subscriber url ch)"
  "channel_ok ch \<Longrightarrow> channel_ok (stop_subscriber url ch)"
  by (auto simp: channel_ok_def new_channel_def set_push_url_def cear_push_url_def subscriber_def stop_subscriber_def
      map_of_alist_put map_of_alist_erase Let_def split: option.splits if_splits)
    fastforce+

lemma subscribe_unsubscribe:
  assumes "channel_ok ch" and "url \<noteq> []"
  shows "map_of (ch_zmq (stop_subscriber url (subscriber url ch))) = map_of (ch_zmq ch)"
    and "open_sockets (subscriber url ch) = insert (ZSub url) (open_sockets ch)"
proof -
  have free: "map_of (ch_zmq ch) (ch_zmq_url_index ch) = None" using assms(1) by (simp add: channel_ok_def)
  then show "map_of (ch_zmq (stop_subscriber url (subscriber url ch))) = map_of (ch_zmq ch)"
    using assms(2) by (auto simp: subscriber_def stop_subscriber_def map_of_alist_put map_of_alist_erase Let_def fun_eq_iff)
  have "sock_at i (subscriber url ch) = (if i = ch_zmq_url_index ch then Some (ZSub url) else sock_at i ch)" for i
    by (simp add: sock_at_def subscriber_def map_of_alist_put Let_def)
  moreover have "sock_at (ch_zmq_url_index ch) ch = None" using free by (simp add: sock_at_def)
  ultimately show "open_sockets (subscriber url ch) = insert (ZSub url) (open_sockets ch)"
    unfolding open_sockets_def by (auto split: if_splits) (metis option.distinct(1))
qed

lemma open_sockets_touch: "open_sockets (touch i ch) = open_sockets ch"
proof -
  have "sock_at j (touch i ch) = sock_at j ch" for j
    by (auto simp: sock_at_def touch_def map_of_alist_put)
  then show ?thesis by (simp add: open_sockets_def)
qed

section \<open>Properties\<close>



text \<open>Subscribing twice to a URL leaves a socket that unsubscribing does not close.\<close>

lemma resubscribing_leaks:
  "ZSub ''u'' \<in> open_sockets (stop_subscriber ''u'' (subscriber ''u'' (subscriber ''u'' (new_channel o0 s0 pub iurl uname))))"
  by (simp add: open_sockets_def subscriber_def stop_subscriber_def new_channel_def sock_at_def Let_def alist_erase_def)

end
