(* ===== verification/Sessions.thy ===== *)
theory Sessions
  imports Task_Info Channel
begin

text \<open>
  The node object \<^verbatim>\<open>vllm_llm\<close> (\<^verbatim>\<open>node/vllm-client/src/main.cpp\<close>): sessions on one shared scheduler,
  the replies to RPC calls, and the assembly of requests that arrive in fragments. The node's state
  is the record \<open>vllm_llm\<close>; its base class contributes the ids of the last RPC call and the channels.
  What the environment provides during one call (JSON text, the time series store, environment
  variables, clocks) is the record \<open>node_env\<close>. A handler returns its value or the exception it lets
  escape. Each handler runs under the mutexes it takes and is one atomic function here; hash maps
  are association lists, so the order of the session list stands for an unspecified one.
\<close>

section \<open>State\<close>

record SessionContext =
  sc_work_id_num :: int
  sc_work_id :: string
  sc_model :: string
  sc_response_format :: string
  sc_prompt :: string
  sc_default_action :: string
  sc_enoutput :: bool
  sc_enstream :: bool
  sc_default_max_tokens :: int
  sc_default_timeout_ms :: int
  sc_default_deadline_ms :: int
  sc_default_max_retries :: int
  sc_default_priority :: int
  sc_allow_model_fallback :: bool

record StreamInputState =
  si_chunks :: "(int \<times> string) list"
  si_updated_ms :: int
  si_total_bytes :: nat

record vllm_llm =
  nl_request_id :: string
  nl_out_url :: string
  nl_channels :: "(int \<times> llm_channel_obj) list"
  nl_shared :: "vllm_task option"
  nl_sessions :: "(int \<times> SessionContext) list"
  nl_streams :: "(string \<times> StreamInputState) list"
  nl_sent :: sent

record node_env =
  ne_json :: json_text
  ne_db :: tsdb
  ne_getenv :: "string \<Rightarrow> string"
  ne_now :: int
  ne_wall_ms :: int
  ne_created :: int

definition max_sessions :: nat where
  "max_sessions = 1024"

section \<open>Replies\<close>

definition push_out :: "string \<Rightarrow> string \<Rightarrow> vllm_llm \<Rightarrow> vllm_llm" where
  "push_out url raw n = n\<lparr>nl_sent := nl_sent n @ [(url, raw)]\<rparr>"

definition send_error :: "node_env \<Rightarrow> string \<Rightarrow> int \<Rightarrow> string \<Rightarrow> vllm_llm \<Rightarrow> vllm_llm" where
  "send_error e work_id code message n =
     push_out (nl_out_url n) (jt_dump (ne_json e) (reply_body (ne_created e) (nl_request_id n) work_id ''None''
       (JStr ''None'') (error_object code message)) @ [CHR 0x0A]) n"

text \<open>\<^verbatim>\<open>StackFlow::send\<close> with its default URL.\<close>

definition node_send :: "node_env \<Rightarrow> string \<Rightarrow> json \<Rightarrow> string \<Rightarrow> string \<Rightarrow> vllm_llm \<Rightarrow> vllm_llm" where
  "node_send e object data error_msg work_id n =
     push_out (nl_out_url n) (jt_dump (ne_json e) (reply_body (ne_created e) (nl_request_id n) work_id object
       data (error_of error_msg)) @ [CHR 0x0A]) n"

definition send_client_message ::
  "node_env \<Rightarrow> string \<Rightarrow> string \<Rightarrow> string \<Rightarrow> string \<Rightarrow> json \<Rightarrow> int \<Rightarrow> string \<Rightarrow> vllm_llm \<Rightarrow> vllm_llm" where
  "send_client_message e request_id work_id output_url object data error_code err_msg n =
     (if output_url = [] then n
      else push_out output_url (jt_dump (ne_json e) (reply_body (ne_created e) request_id work_id object data
             (error_object error_code err_msg)) @ [CHR 0x0A]) n)"

definition task_output :: "node_env \<Rightarrow> out_message \<Rightarrow> vllm_llm \<Rightarrow> vllm_llm" where
  "task_output e m n =
     send_client_message e (msg_request_id m) (msg_work_id m) (msg_output_url m) (msg_object m) (msg_data m)
       (msg_error_code m) (msg_error_message m) n"

text \<open>The scheduler calls \<^verbatim>\<open>task_output\<close> for each message it emits.\<close>

definition run_task :: "node_env \<Rightarrow> vllm_task \<Rightarrow> vllm_llm \<Rightarrow> vllm_llm" where
  "run_task e t n = fold (task_output e) (tk_out t) (n\<lparr>nl_shared := Some (t\<lparr>tk_out := []\<rparr>)\<rparr>)"

section \<open>Sessions\<close>

definition make_session_context :: "int \<Rightarrow> string \<Rightarrow> json \<Rightarrow> SessionContext" where
  "make_session_context num work_id c =
     (let fmt = json_string_value c ''response_format'' ''llm.utf-8.stream'';
          stream0 = str_contains ''stream'' fmt
      in \<lparr>sc_work_id_num = num, sc_work_id = work_id, sc_model = json_string_value c ''model'' [],
          sc_response_format = fmt, sc_prompt = json_string_value c ''prompt'' [],
          sc_default_action = json_string_value c ''default_action'' ''chat'',
          sc_enoutput = json_bool_value c ''enoutput'' True,
          sc_enstream = json_bool_value c ''stream'' (json_bool_value c ''enstream'' stream0),
          sc_default_max_tokens = json_int_value c ''max_tokens'' (json_int_value c ''max_token_len'' 0),
          sc_default_timeout_ms = json_int_value c ''timeout_ms'' 0,
          sc_default_deadline_ms = json_int_value c ''deadline_ms'' 0,
          sc_default_max_retries = json_int_value c ''max_retries'' (json_int_value c ''retry_count'' (-1)),
          sc_default_priority = json_int_value c ''priority'' (-1),
          sc_allow_model_fallback =
            (case jget c ''degrade_policy'' of
               Some (JObj p) \<Rightarrow> json_bool_value (JObj p) ''allow_model_fallback'' True
             | _ \<Rightarrow> json_bool_value c ''allow_model_fallback'' True)\<rparr>)"

definition session_to_json :: "SessionContext \<Rightarrow> json" where
  "session_to_json s =
     JObj [(''work_id_num'', JInt (sc_work_id_num s)), (''work_id'', JStr (sc_work_id s)),
           (''model'', JStr (sc_model s)), (''response_format'', JStr (sc_response_format s)),
           (''default_action'', JStr (sc_default_action s)), (''enoutput'', JBool (sc_enoutput s)),
           (''enstream'', JBool (sc_enstream s)), (''default_max_tokens'', JInt (sc_default_max_tokens s)),
           (''default_timeout_ms'', JInt (sc_default_timeout_ms s)),
           (''default_deadline_ms'', JInt (sc_default_deadline_ms s)),
           (''default_max_retries'', JInt (sc_default_max_retries s)),
           (''default_priority'', JInt (sc_default_priority s)),
           (''allow_model_fallback'', JBool (sc_allow_model_fallback s))]"

text \<open>The scheduler that the first session creates: the error to report, or the running task.\<close>

definition create_shared :: "node_env \<Rightarrow> json \<Rightarrow> string + vllm_task" where
  "create_shared e c =
     (let (rc, t) = load_model (ne_db e) (ne_getenv e) (\<lambda>_. False) (ne_now e) c (new_task ''shared'' empty_store)
      in if rc \<noteq> 0
         then Inl (if cf_last_error (tk_cfg t) = [] then ''Model loading failed.'' else cf_last_error (tk_cfg t))
         else Inr (snd (task_start (set_output t))))"

definition get_channel :: "int \<Rightarrow> vllm_llm \<Rightarrow> llm_channel_obj result" where
  "get_channel num n = (case map_of (nl_channels n) num of None \<Rightarrow> Inl OutOfRange | Some ch \<Rightarrow> Inr ch)"

definition put_channel :: "int \<Rightarrow> llm_channel_obj \<Rightarrow> vllm_llm \<Rightarrow> vllm_llm" where
  "put_channel num ch n = n\<lparr>nl_channels := alist_put num ch (nl_channels n)\<rparr>"

text \<open>The part of \<^verbatim>\<open>setup\<close> under the session lock: a rejection with the code to report, or the node
  with the new session.\<close>

definition admit_session :: "node_env \<Rightarrow> int \<Rightarrow> SessionContext \<Rightarrow> json \<Rightarrow> vllm_llm \<Rightarrow> (int \<times> string) + vllm_llm" where
  "admit_session e num session c n =
     (if map_of (nl_sessions n) num \<noteq> None then Inl (-22, ''session already exists'')
      else if max_sessions \<le> length (nl_sessions n) then Inl (-21, ''session full'')
      else case (case nl_shared n of Some t \<Rightarrow> Inr t | None \<Rightarrow> create_shared e c) of
             Inl msg \<Rightarrow> Inl (-5, msg)
           | Inr t \<Rightarrow> Inr (n\<lparr>nl_shared := Some t, nl_sessions := alist_put num session (nl_sessions n)\<rparr>))"

definition session_setup :: "node_env \<Rightarrow> string \<Rightarrow> string \<Rightarrow> string \<Rightarrow> vllm_llm \<Rightarrow> int result \<times> vllm_llm" where
  "session_setup e work_id object data n =
     (case sample_get_work_id_num work_id of
        Inl ex \<Rightarrow> (Inl ex, n)
      | Inr num \<Rightarrow>
          (case jt_parse (ne_json e) data of
             Inl _ \<Rightarrow> (Inr (-2), send_error e work_id (-2) ''json format error.'' n)
           | Inr c \<Rightarrow>
               let session = make_session_context num work_id c
               in case admit_session e num session c n of
                    Inl (code, msg) \<Rightarrow> (Inr (-1), send_error e work_id code msg n)
                  | Inr n \<Rightarrow>
                      (case get_channel num n of
                         Inl ex \<Rightarrow> (Inl ex, n)
                       | Inr ch \<Rightarrow>
                           let ch = set_enstream (sc_enstream session) (set_enoutput (sc_enoutput session) ch);
                               ch = snd (subscriber_work_id (\<lambda>_. []) [] ch)
                           in (Inr 0, node_send e ''None'' (JStr ''None'') [] work_id (put_channel num ch n)))))"

definition node_taskinfo :: "node_env \<Rightarrow> string \<Rightarrow> string \<Rightarrow> string \<Rightarrow> vllm_llm \<Rightarrow> unit result \<times> vllm_llm" where
  "node_taskinfo e work_id object data n =
     (let query = (if data \<noteq> [] \<and> data \<noteq> ''None''
                   then case jt_parse (ne_json e) data of Inl _ \<Rightarrow> JObj [] | Inr q \<Rightarrow> q
                   else JObj []);
          head = [(''session_count'', JInt (int (length (nl_sessions n)))),
                  (''max_sessions'', JInt (int max_sessions)),
                  (''shared_scheduler_initialized'', JBool (nl_shared n \<noteq> None))];
          sched = (case nl_shared n of
                     Some t \<Rightarrow> taskinfo (ne_now e) query t
                   | None \<Rightarrow> JObj [(''status'', JStr ''not_initialized'')])
      in case sample_get_work_id_num work_id of
           Inl ex \<Rightarrow> (Inl ex, n)
         | Inr num \<Rightarrow>
             if num = WORK_ID_NONE
             then (Inr (), node_send e ''llm.tasklist''
                     (JObj (head @ [(''sessions'', JArr (map (session_to_json \<circ> snd) (nl_sessions n))),
                                    (''shared_scheduler'', sched)])) [] work_id n)
             else case map_of (nl_sessions n) num of
                    None \<Rightarrow> (Inr (), send_error e work_id (-6) ''Unit Does Not Exist'' n)
                  | Some s \<Rightarrow>
                      (Inr (), node_send e ''llm.taskinfo''
                         (JObj (head @ [(''session'', session_to_json s), (''shared_scheduler'', sched)])) [] work_id n))"

definition session_exit :: "node_env \<Rightarrow> string \<Rightarrow> string \<Rightarrow> string \<Rightarrow> vllm_llm \<Rightarrow> int result \<times> vllm_llm" where
  "session_exit e work_id object data n =
     (case sample_get_work_id_num work_id of
        Inl ex \<Rightarrow> (Inl ex, n)
      | Inr num \<Rightarrow>
          if map_of (nl_sessions n) num = None
          then (Inr (-1), send_error e work_id (-6) ''Unit Does Not Exist'' n)
          else let n = n\<lparr>nl_sessions := alist_erase num (nl_sessions n)\<rparr>
               in case get_channel num n of
                    Inl ex \<Rightarrow> (Inl ex, n)
                  | Inr ch \<Rightarrow> (Inr 0, node_send e ''None'' (JStr ''None'') [] work_id
                                (put_channel num (stop_subscriber [] ch) n)))"

text \<open>The destructor, up to the end of the scheduler's workers.\<close>

definition close_channel :: "int \<Rightarrow> vllm_llm \<Rightarrow> vllm_llm" where
  "close_channel num n = (case get_channel num n of Inl _ \<Rightarrow> n | Inr ch \<Rightarrow> put_channel num (stop_subscriber [] ch) n)"

definition node_destroy ::
  "node_env \<Rightarrow> (nat \<Rightarrow> worker_env) \<Rightarrow> nat \<Rightarrow> vllm_llm \<Rightarrow> (vllm_task option \<times> vllm_llm) option" where
  "node_destroy e envs fuel n =
     (let n' = fold close_channel (map fst (nl_sessions n)) (n\<lparr>nl_sessions := [], nl_shared := None\<rparr>)
      in case nl_shared n of
           None \<Rightarrow> Some (None, n')
         | Some t \<Rightarrow> map_option (\<lambda>t. (Some t, n')) (task_stop (ne_db e) (ne_json e) envs fuel (ne_now e) t))"

section \<open>RPC calls with a JSON body\<close>

text \<open>The common head of \<^verbatim>\<open>metrics_query\<close> and \<^verbatim>\<open>reload_config\<close>: the work id of the reply, and the body or
  the message of the error \<open>-2\<close>.\<close>

definition rpc_body :: "node_env \<Rightarrow> string \<Rightarrow> string \<Rightarrow> string \<times> (string + json)" where
  "rpc_body e name raw =
     (case jt_parse (ne_json e) raw of
        Inl _ \<Rightarrow> (''None'', Inl ''json format error.'')
      | Inr body \<Rightarrow>
          let w = json_string_value body ''work_id'' ''None'';
              work_id = (if w = [] then ''None'' else w)
          in (work_id,
              case jget body ''data'' of
                None \<Rightarrow> Inr body
              | Some (JObj kvs) \<Rightarrow> Inr (JObj kvs)
              | Some (JStr s) \<Rightarrow>
                  if s \<noteq> [] \<and> s \<noteq> ''None''
                  then case jt_parse (ne_json e) s of
                         Inl _ \<Rightarrow> Inl (name @ '' data json format error.'')
                       | Inr b \<Rightarrow> Inr b
                  else Inr (JObj [])
              | Some JNull \<Rightarrow> Inr (JObj [])
              | Some _ \<Rightarrow> Inl (name @ '' data must be a json object or json string.'')))"

definition node_metrics_query :: "node_env \<Rightarrow> string \<Rightarrow> string \<Rightarrow> vllm_llm \<Rightarrow> vllm_llm" where
  "node_metrics_query e zmq_url raw n =
     (let n = n\<lparr>nl_out_url := zmq_url\<rparr>
      in case rpc_body e ''metrics_query'' raw of
           (work_id, Inl msg) \<Rightarrow> send_error e work_id (-2) msg n
         | (work_id, Inr body) \<Rightarrow>
             (case nl_shared n of
                None \<Rightarrow> send_error e work_id (-45) ''shared scheduler not initialized'' n
              | Some t \<Rightarrow> node_send e ''llm.metrics'' (metrics_query (ne_db e) (ne_wall_ms e) body t) [] work_id n))"

definition node_reload_config :: "node_env \<Rightarrow> string \<Rightarrow> string \<Rightarrow> vllm_llm \<Rightarrow> vllm_llm" where
  "node_reload_config e zmq_url raw n =
     (let n = n\<lparr>nl_out_url := zmq_url\<rparr>
      in case rpc_body e ''reload_config'' raw of
           (work_id, Inl msg) \<Rightarrow> send_error e work_id (-2) msg n
         | (work_id, Inr body) \<Rightarrow>
             (case nl_shared n of
                None \<Rightarrow> send_error e work_id (-45) ''shared scheduler not initialized'' n
              | Some t \<Rightarrow>
                  (case reload_config (ne_db e) (ne_now e) body t of
                     (Inl err, t) \<Rightarrow>
                       send_error e work_id (-46) (if err = [] then ''reload_config failed'' else err)
                         (n\<lparr>nl_shared := Some t\<rparr>)
                   | (Inr _, t) \<Rightarrow>
                       node_send e ''llm.reload_config''
                         (JObj [(''config_update_count'', JInt (tk_config_update_count t)),
                                (''config_version'', JInt (tk_config_version t))]) [] work_id
                         (n\<lparr>nl_shared := Some t\<rparr>))))"

section \<open>Requests in fragments\<close>

definition kStreamInputTtlMs :: int where
  "kStreamInputTtlMs = 60000"

definition kMaxStreamInputChunks :: nat where
  "kMaxStreamInputChunks = 4096"

definition kMaxStreamInputBytes :: nat where
  "kMaxStreamInputBytes = 8 * 1024 * 1024"

definition cleanup_expired_stream_states_locked ::
  "int \<Rightarrow> (string \<times> StreamInputState) list \<Rightarrow> (string \<times> StreamInputState) list" where
  "cleanup_expired_stream_states_locked current_ms ss =
     filter (\<lambda>(k, st). \<not> kStreamInputTtlMs < current_ms - si_updated_ms st) ss"

definition stream_input_state ::
  "string \<Rightarrow> int \<Rightarrow> (string \<times> StreamInputState) list \<Rightarrow> StreamInputState \<times> (string \<times> StreamInputState) list" where
  "stream_input_state stream_key current_ms ss =
     (let ss = cleanup_expired_stream_states_locked current_ms ss
      in case map_of ss stream_key of
           Some st \<Rightarrow> (st, ss)
         | None \<Rightarrow> let st = \<lparr>si_chunks = [], si_updated_ms = current_ms, si_total_bytes = 0\<rparr>
                   in (st, alist_put stream_key st ss))"

definition erase_stream_input_state ::
  "string \<Rightarrow> (string \<times> StreamInputState) list \<Rightarrow> (string \<times> StreamInputState) list" where
  "erase_stream_input_state stream_key ss = alist_erase stream_key ss"

definition stream_chunk_index :: "json \<Rightarrow> int result" where
  "stream_chunk_index meta =
     (case jget meta ''index'' of
        None \<Rightarrow> Inl (RuntimeError ''missing stream index'')
      | Some (JInt i) \<Rightarrow> Inr (to_int32 i)
      | Some (JStr s) \<Rightarrow> stoi s
      | Some _ \<Rightarrow> Inl (RuntimeError ''invalid stream index''))"

text \<open>One fragment stored: the new state, and whether a limit is exceeded.\<close>

definition store_chunk :: "int \<Rightarrow> int \<Rightarrow> string \<Rightarrow> StreamInputState \<Rightarrow> StreamInputState" where
  "store_chunk current_ms index delta st =
     (let old = (case map_of (si_chunks st) index of Some c \<Rightarrow> length c | None \<Rightarrow> 0)
      in st\<lparr>si_chunks := alist_put index delta (si_chunks st),
            si_total_bytes := si_total_bytes st - old + length delta,
            si_updated_ms := current_ms\<rparr>)"

fun join_chunks :: "nat \<Rightarrow> nat \<Rightarrow> (int \<times> string) list \<Rightarrow> string \<Rightarrow> string + string" where
  "join_chunks 0 i chunks out = Inr out"
| "join_chunks (Suc n) i chunks out =
     (case map_of chunks (int i) of
        None \<Rightarrow> Inl (''stream input missing chunk index '' @ to_string (int i))
      | Some c \<Rightarrow> join_chunks n (Suc i) chunks (out @ c))"

datatype assembly = AsmMore | AsmError string | AsmDone string

definition assemble_stream_input ::
  "int \<Rightarrow> string \<Rightarrow> json \<Rightarrow> (string \<times> StreamInputState) list
     \<Rightarrow> assembly result \<times> (string \<times> StreamInputState) list" where
  "assemble_stream_input current_ms stream_key meta ss =
     (case stream_chunk_index meta of
        Inl ex \<Rightarrow> (Inl ex, ss)
      | Inr index \<Rightarrow>
          if index < 0 then (Inr (AsmError ''stream index must be non-negative''), ss)
          else let finish = json_bool_value meta ''finish'' False;
                   delta = json_string_value meta ''delta'' [];
                   (st, ss) = stream_input_state stream_key current_ms ss;
                   st = store_chunk current_ms index delta st;
                   ss = alist_put stream_key st ss
               in if kMaxStreamInputChunks < length (si_chunks st)
                  then (Inr (AsmError ''stream input has too many chunks''), ss)
                  else if kMaxStreamInputBytes < si_total_bytes st
                  then (Inr (AsmError ''stream input is too large''), ss)
                  else if \<not> finish then (Inr AsmMore, ss)
                  else let ss = erase_stream_input_state stream_key ss
                       in case join_chunks (length (si_chunks st)) 0 (si_chunks st) [] of
                            Inl err \<Rightarrow> (Inr (AsmError err), ss)
                          | Inr out \<Rightarrow> (Inr (AsmDone out), ss))"

section \<open>Requests\<close>

definition set_default :: "bool \<Rightarrow> string \<Rightarrow> json \<Rightarrow> json result \<Rightarrow> json result" where
  "set_default c key v r = (case r of Inl ex \<Rightarrow> Inl ex | Inr meta \<Rightarrow> if c \<and> \<not> contains meta key then jset meta key v else Inr meta)"

definition apply_session_defaults :: "SessionContext \<Rightarrow> json \<Rightarrow> json result" where
  "apply_session_defaults s meta =
     (let r = set_default (sc_model s \<noteq> []) ''model'' (JStr (sc_model s)) (Inr meta);
          r = (case r of Inl ex \<Rightarrow> Inl ex
               | Inr m \<Rightarrow> set_default (0 < sc_default_max_tokens s \<and> \<not> contains m ''max_token_len'') ''max_tokens''
                           (JInt (sc_default_max_tokens s)) (Inr m));
          r = set_default (0 < sc_default_timeout_ms s) ''timeout_ms'' (JInt (sc_default_timeout_ms s)) r;
          r = set_default (0 < sc_default_deadline_ms s) ''deadline_ms'' (JInt (sc_default_deadline_ms s)) r;
          r = set_default (0 \<le> sc_default_max_retries s) ''max_retries'' (JInt (sc_default_max_retries s)) r;
          r = set_default (0 \<le> sc_default_priority s) ''priority'' (JInt (sc_default_priority s)) r
      in case r of Inl ex \<Rightarrow> Inl ex
         | Inr m \<Rightarrow> set_default (\<not> contains m ''allow_degrade'') ''allow_model_fallback''
                     (JBool (sc_allow_model_fallback s)) (Inr m))"

definition session_options :: "SessionContext \<Rightarrow> RequestOptions" where
  "session_options s =
     \<lparr>ro_response_format = sc_response_format s, ro_system_prompt = sc_prompt s,
      ro_default_action = sc_default_action s, ro_enoutput = sc_enoutput s, ro_enstream = sc_enstream s\<rparr>"

text \<open>The end of \<^verbatim>\<open>task_user_data\<close>: the request goes to the scheduler.\<close>

definition submit ::
  "node_env \<Rightarrow> llm_channel_obj \<Rightarrow> SessionContext \<Rightarrow> string \<Rightarrow> string \<Rightarrow> json \<Rightarrow> vllm_task \<Rightarrow> vllm_llm
     \<Rightarrow> unit result \<times> vllm_llm" where
  "submit e ch session object prompt meta t n =
     (case apply_session_defaults session meta of
        Inl ex \<Rightarrow> (Inl ex, n)
      | Inr meta \<Rightarrow>
          (Inr (), run_task e (inference (ne_now e) (ch_request_id ch) (ch_work_id ch) (ch_output_url ch) object
             prompt meta (session_options session) t) n))"

definition task_user_data ::
  "node_env \<Rightarrow> llm_channel_obj option \<Rightarrow> string \<Rightarrow> string \<Rightarrow> vllm_llm \<Rightarrow> unit result \<times> vllm_llm" where
  "task_user_data e channel_weak object data n =
     (case channel_weak of
        None \<Rightarrow> (Inr (), n)
      | Some ch \<Rightarrow>
          let fail = (\<lambda>code msg n. (Inr (), send_client_message e (ch_request_id ch) (ch_work_id ch) (ch_output_url ch)
                        ''None'' (JStr ''None'') code msg n))
          in case sample_get_work_id_num (ch_work_id ch) of
               Inl ex \<Rightarrow> (Inl ex, n)
             | Inr num \<Rightarrow>
                 (case (nl_shared n, map_of (nl_sessions n) num) of
                    (Some t, Some session) \<Rightarrow>
                      if data = [] \<or> data = ''None'' then fail (-24) ''The inference data is empty.'' n
                      else let meta = (case jt_parse (ne_json e) data of Inl _ \<Rightarrow> JObj [] | Inr m \<Rightarrow> m)
                           in if str_contains ''stream'' object
                              then let key = ch_work_id ch @ '':'' @ ch_request_id ch;
                                       (r, ss) = assemble_stream_input (ne_now e) key meta (nl_streams n);
                                       n' = n\<lparr>nl_streams := ss\<rparr>;
                                       bad = (\<lambda>msg. fail (-25) msg
                                                (n\<lparr>nl_streams := erase_stream_input_state key ss\<rparr>))
                                   in case r of
                                        Inl _ \<Rightarrow> bad ''Stream data index error.''
                                      | Inr AsmMore \<Rightarrow> (Inr (), n')
                                      | Inr (AsmError msg) \<Rightarrow> bad msg
                                      | Inr (AsmDone prompt) \<Rightarrow> submit e ch session object prompt meta t n'
                              else submit e ch session object data meta t n
                  | _ \<Rightarrow> fail (-6) ''Unit Does Not Exist'' n))"

section \<open>Runs of the node\<close>

datatype node_op =
    NSetup node_env string string string
  | NExit node_env string string string
  | NTaskinfo node_env string string string
  | NMetrics node_env string string
  | NReload node_env string string
  | NData node_env "llm_channel_obj option" string string

fun node_step :: "node_op \<Rightarrow> vllm_llm \<Rightarrow> vllm_llm" where
  "node_step (NSetup e work_id object data) n = snd (session_setup e work_id object data n)"
| "node_step (NExit e work_id object data) n = snd (session_exit e work_id object data n)"
| "node_step (NTaskinfo e work_id object data) n = snd (node_taskinfo e work_id object data n)"
| "node_step (NMetrics e url raw) n = node_metrics_query e url raw n"
| "node_step (NReload e url raw) n = node_reload_config e url raw n"
| "node_step (NData e ch object data) n = snd (task_user_data e ch object data n)"

definition node_run :: "node_op list \<Rightarrow> vllm_llm \<Rightarrow> vllm_llm" where
  "node_run ops n = fold node_step ops n"

definition new_node :: vllm_llm where
  "new_node = \<lparr>nl_request_id = [], nl_out_url = [], nl_channels = [], nl_shared = None, nl_sessions = [],
     nl_streams = [], nl_sent = []\<rparr>"

definition sessions_ok :: "vllm_llm \<Rightarrow> bool" where
  "sessions_ok n \<longleftrightarrow> distinct (map fst (nl_sessions n)) \<and> length (nl_sessions n) \<le> max_sessions \<and>
     list_all (\<lambda>(k, s). sc_work_id_num s = k) (nl_sessions n) \<and> (nl_sessions n \<noteq> [] \<longrightarrow> nl_shared n \<noteq> None)"

definition stream_ok :: "StreamInputState \<Rightarrow> bool" where
  "stream_ok st \<longleftrightarrow> distinct (map fst (si_chunks st)) \<and>
     si_total_bytes st = sum_list (map (length \<circ> snd) (si_chunks st)) \<and> list_all (\<lambda>(i, c). 0 \<le> i) (si_chunks st)"

definition stream_bounded :: "StreamInputState \<Rightarrow> bool" where
  "stream_bounded st \<longleftrightarrow> length (si_chunks st) \<le> kMaxStreamInputChunks \<and> si_total_bytes st \<le> kMaxStreamInputBytes"

definition streams_ok :: "(string \<times> StreamInputState) list \<Rightarrow> bool" where
  "streams_ok ss \<longleftrightarrow> distinct (map fst ss) \<and> list_all (\<lambda>(k, st). stream_ok st \<and> stream_bounded st) ss"

text \<open>A concrete environment and a node with one free channel.\<close>

definition sample_env :: node_env where
  "sample_env = \<lparr>ne_json = \<lparr>jt_parse = (\<lambda>s. if s = ''cfg'' then Inr sample_config else Inl ''parse error''),
     jt_dump = (\<lambda>_. ''json'')\<rparr>, ne_db = sample_tsdb, ne_getenv = (\<lambda>_. []), ne_now = 0, ne_wall_ms = 0, ne_created = 0\<rparr>"

definition sample_node :: vllm_llm where
  "sample_node = new_node\<lparr>nl_out_url := ''ipc://o'', nl_shared := Some sample_task,
     nl_channels := [(1001, new_channel False False ''ipc://p'' ''ipc://i'' ''llm'')]\<rparr>"

section \<open>Sending\<close>

lemma push_out_frame [frame_simps]:
  "nl_sessions (push_out url raw n) = nl_sessions n" "nl_shared (push_out url raw n) = nl_shared n"
  "nl_streams (push_out url raw n) = nl_streams n" "nl_channels (push_out url raw n) = nl_channels n"
  "nl_out_url (push_out url raw n) = nl_out_url n" "nl_request_id (push_out url raw n) = nl_request_id n"
  "nl_sent (push_out url raw n) = nl_sent n @ [(url, raw)]"
  by (simp_all add: push_out_def)

lemma send_frame [frame_simps]:
  "nl_sessions (send_error e w c m n) = nl_sessions n" "nl_shared (send_error e w c m n) = nl_shared n"
  "nl_streams (send_error e w c m n) = nl_streams n" "nl_channels (send_error e w c m n) = nl_channels n"
  "nl_sessions (node_send e obj d err w n) = nl_sessions n" "nl_shared (node_send e obj d err w n) = nl_shared n"
  "nl_streams (node_send e obj d err w n) = nl_streams n" "nl_channels (node_send e obj d err w n) = nl_channels n"
  "nl_sessions (send_client_message e r w u obj d c m n) = nl_sessions n"
  "nl_shared (send_client_message e r w u obj d c m n) = nl_shared n"
  "nl_streams (send_client_message e r w u obj d c m n) = nl_streams n"
  "nl_channels (send_client_message e r w u obj d c m n) = nl_channels n"
  by (simp_all add: send_error_def node_send_def send_client_message_def frame_simps)

lemma fold_output_frame:
  "nl_sessions (fold (task_output e) ms n) = nl_sessions n" "nl_shared (fold (task_output e) ms n) = nl_shared n"
  "nl_streams (fold (task_output e) ms n) = nl_streams n" "nl_channels (fold (task_output e) ms n) = nl_channels n"
  by (induction ms arbitrary: n) (simp_all add: task_output_def frame_simps)

lemma run_task_frame [frame_simps]:
  "nl_sessions (run_task e t n) = nl_sessions n" "nl_shared (run_task e t n) = Some (t\<lparr>tk_out := []\<rparr>)"
  "nl_streams (run_task e t n) = nl_streams n" "nl_channels (run_task e t n) = nl_channels n"
  by (simp_all add: run_task_def fold_output_frame)

lemma put_channel_frame [frame_simps]:
  "nl_sessions (put_channel k ch n) = nl_sessions n" "nl_shared (put_channel k ch n) = nl_shared n"
  "nl_streams (put_channel k ch n) = nl_streams n" "nl_sent (put_channel k ch n) = nl_sent n"
  "nl_out_url (put_channel k ch n) = nl_out_url n"
  by (simp_all add: put_channel_def)

section \<open>Session tables\<close>

lemma admit_session_cases:
  assumes "admit_session e num s c n = Inr n'"
  shows "map_of (nl_sessions n) num = None \<and> length (nl_sessions n) < max_sessions \<and>
    (\<exists>t. n' = n\<lparr>nl_shared := Some t, nl_sessions := alist_put num s (nl_sessions n)\<rparr> \<and>
       (nl_shared n = Some t \<or> nl_shared n = None \<and> create_shared e c = Inr t))"
  using assms by (auto simp: admit_session_def split: if_splits sum.splits option.splits)

lemma session_num [simp]: "sc_work_id_num (make_session_context num w c) = num"
  by (simp add: make_session_context_def Let_def)

lemma sessions_ok_put:
  assumes "sessions_ok n" and "map_of (nl_sessions n) num = None" and "length (nl_sessions n) < max_sessions"
    and "sc_work_id_num s = num" and "n' = n\<lparr>nl_shared := Some t, nl_sessions := alist_put num s (nl_sessions n)\<rparr>"
  shows "sessions_ok n'"
proof -
  have "length (alist_put num s (nl_sessions n)) \<le> Suc (length (nl_sessions n))" by (simp add: length_alist_put)
  moreover have "list_all (\<lambda>(k, s). sc_work_id_num s = k) (alist_put num s (nl_sessions n))"
    using assms(1,4) in_alist_put [of _ num s "nl_sessions n"] by (fastforce simp: list_all_iff sessions_ok_def)
  ultimately show ?thesis using assms by (simp add: sessions_ok_def distinct_alist_put)
qed

lemma sessions_ok_cong:
  "nl_sessions n' = nl_sessions n \<Longrightarrow> nl_shared n' = nl_shared n \<or> nl_shared n' \<noteq> None \<Longrightarrow> sessions_ok n \<Longrightarrow> sessions_ok n'"
  by (auto simp: sessions_ok_def)

lemma set_alist_erase: "set (alist_erase k ps) \<subseteq> set ps"
  by (auto simp: alist_erase_def)

lemma alist_erase_Nil [simp]: "alist_erase k [] = []"
  by (simp add: alist_erase_def)

lemma sessions_ok_erase:
  assumes "sessions_ok n"
  shows "sessions_ok (n\<lparr>nl_sessions := alist_erase num (nl_sessions n)\<rparr>)"
proof -
  have "list_all (\<lambda>(k, s). sc_work_id_num s = k) (alist_erase num (nl_sessions n))"
    using assms set_alist_erase [of num "nl_sessions n"] by (auto simp: sessions_ok_def list_all_iff)
  moreover have "alist_erase num (nl_sessions n) \<noteq> [] \<Longrightarrow> nl_sessions n \<noteq> []" by auto
  ultimately show ?thesis using assms length_alist_erase [of num "nl_sessions n"]
    by (simp add: sessions_ok_def distinct_alist_erase)
qed

lemma setup_cases:
  assumes "session_setup e work_id object data n = (r, n')"
  shows "nl_streams n' = nl_streams n \<and> ((nl_sessions n' = nl_sessions n \<and> nl_shared n' = nl_shared n) \<or>
    (\<exists>num c n1. admit_session e num (make_session_context num work_id c) c n = Inr n1 \<and>
       nl_sessions n' = nl_sessions n1 \<and> nl_shared n' = nl_shared n1))"
proof (cases "sample_get_work_id_num work_id")
  case (Inl ex)
  then show ?thesis using assms by (simp add: session_setup_def)
next
  case num: (Inr num)
  show ?thesis
  proof (cases "jt_parse (ne_json e) data")
    case (Inl m)
    then have "n' = send_error e work_id (-2) ''json format error.'' n"
      using assms num by (simp add: session_setup_def)
    then show ?thesis by (simp add: frame_simps)
  next
    case c: (Inr c)
    show ?thesis
    proof (cases "admit_session e num (make_session_context num work_id c) c n")
      case (Inl p)
      then have "n' = send_error e work_id (fst p) (snd p) n"
        using assms num c by (simp add: session_setup_def split: prod.split_asm)
      then show ?thesis by (simp add: frame_simps)
    next
      case a: (Inr n1)
      have "nl_streams n1 = nl_streams n" using admit_session_cases [OF a] by auto
      moreover have "nl_sessions n' = nl_sessions n1 \<and> nl_shared n' = nl_shared n1 \<and> nl_streams n' = nl_streams n1"
        using assms num c a
        by (cases "get_channel num n1") (auto simp: session_setup_def Let_def frame_simps)
      ultimately show ?thesis using a
        by (intro conjI disjI2 exI [of _ num] exI [of _ c] exI [of _ n1]) simp_all
    qed
  qed
qed

lemma setup_sessions_ok: "sessions_ok n \<Longrightarrow> sessions_ok (snd (session_setup e work_id object data n))"
proof -
  assume ok: "sessions_ok n"
  obtain r n' where s: "session_setup e work_id object data n = (r, n')" by (meson surj_pair)
  from setup_cases [OF s] have "(nl_sessions n' = nl_sessions n \<and> nl_shared n' = nl_shared n) \<or>
    (\<exists>num c n1. admit_session e num (make_session_context num work_id c) c n = Inr n1 \<and>
       nl_sessions n' = nl_sessions n1 \<and> nl_shared n' = nl_shared n1)" ..
  then show ?thesis
  proof
    assume "\<exists>num c n1. admit_session e num (make_session_context num work_id c) c n = Inr n1 \<and>
      nl_sessions n' = nl_sessions n1 \<and> nl_shared n' = nl_shared n1"
    then obtain num c n1 where a: "admit_session e num (make_session_context num work_id c) c n = Inr n1"
      "nl_sessions n' = nl_sessions n1" "nl_shared n' = nl_shared n1" by blast
    have "sessions_ok n1" using admit_session_cases [OF a(1)] sessions_ok_put [OF ok] by auto
    then show ?thesis using s a sessions_ok_cong [of n' n1] by simp
  qed (use ok s sessions_ok_cong [of n' n] in simp)
qed

lemma exit_cases:
  assumes "session_exit e work_id object data n = (r, n')"
  shows "nl_streams n' = nl_streams n \<and> nl_shared n' = nl_shared n \<and>
    (nl_sessions n' = nl_sessions n \<or> (\<exists>num. nl_sessions n' = alist_erase num (nl_sessions n)))"
proof (cases "sample_get_work_id_num work_id")
  case (Inl ex)
  then show ?thesis using assms by (simp add: session_exit_def)
next
  case num: (Inr num)
  show ?thesis
  proof (cases "map_of (nl_sessions n) num")
    case None
    then have "n' = send_error e work_id (-6) ''Unit Does Not Exist'' n"
      using assms num by (simp add: session_exit_def)
    then show ?thesis by (simp add: frame_simps)
  next
    case (Some s)
    have "nl_streams n' = nl_streams n \<and> nl_shared n' = nl_shared n \<and> nl_sessions n' = alist_erase num (nl_sessions n)"
      using assms num Some
      by (cases "get_channel num (n\<lparr>nl_sessions := alist_erase num (nl_sessions n)\<rparr>)")
        (auto simp: session_exit_def Let_def frame_simps)
    then show ?thesis by blast
  qed
qed

lemma exit_sessions_ok: "sessions_ok n \<Longrightarrow> sessions_ok (snd (session_exit e work_id object data n))"
proof -
  assume ok: "sessions_ok n"
  obtain r n' where s: "session_exit e work_id object data n = (r, n')" by (meson surj_pair)
  from exit_cases [OF s] consider "nl_sessions n' = nl_sessions n" "nl_shared n' = nl_shared n"
    | num where "nl_sessions n' = alist_erase num (nl_sessions n)" "nl_shared n' = nl_shared n" by blast
  then show ?thesis
  proof cases
    case 1
    then show ?thesis using s ok sessions_ok_cong [of n' n] by simp
  next
    case 2
    then show ?thesis
      using s sessions_ok_erase [OF ok, of num] sessions_ok_cong [of n' "n\<lparr>nl_sessions := alist_erase num (nl_sessions n)\<rparr>"]
      by simp
  qed
qed

lemma taskinfo_frame:
  "nl_sessions (snd (node_taskinfo e w obj d n)) = nl_sessions n"
  "nl_shared (snd (node_taskinfo e w obj d n)) = nl_shared n"
  "nl_streams (snd (node_taskinfo e w obj d n)) = nl_streams n"
  by (simp_all add: node_taskinfo_def Let_def frame_simps split: sum.splits option.splits)

lemma rpc_frame:
  "nl_sessions (node_metrics_query e url raw n) = nl_sessions n"
  "nl_shared (node_metrics_query e url raw n) = nl_shared n"
  "nl_streams (node_metrics_query e url raw n) = nl_streams n"
  "nl_sessions (node_reload_config e url raw n) = nl_sessions n"
  "nl_streams (node_reload_config e url raw n) = nl_streams n"
  "nl_shared (node_reload_config e url raw n) = None \<longleftrightarrow> nl_shared n = None"
  by (simp_all add: node_metrics_query_def node_reload_config_def Let_def frame_simps
      split: prod.split sum.split option.split)

section \<open>Fragments\<close>

lemma sum_alist_put:
  "sum_list (map (length \<circ> snd) (alist_put k v ps)) + (case map_of ps k of Some c \<Rightarrow> length c | None \<Rightarrow> 0) =
   sum_list (map (length \<circ> snd) ps) + length v"
  by (induction ps) auto

lemma chunk_le_sum: "map_of ps k = Some c \<Longrightarrow> length c \<le> sum_list (map (length \<circ> snd) ps)"
  by (induction ps) (auto split: if_splits)

lemma store_chunk_ok:
  assumes "stream_ok st" and "0 \<le> index"
  shows "stream_ok (store_chunk now index delta st)"
proof -
  have "list_all (\<lambda>(i, c). 0 \<le> i) (alist_put index delta (si_chunks st))"
    using assms in_alist_put [of _ index delta "si_chunks st"] by (fastforce simp: stream_ok_def list_all_iff)
  moreover have "si_total_bytes (store_chunk now index delta st) =
      sum_list (map (length \<circ> snd) (alist_put index delta (si_chunks st)))"
    using assms(1) sum_alist_put [of index delta "si_chunks st"] chunk_le_sum [of "si_chunks st" index]
    by (cases "map_of (si_chunks st) index") (simp_all add: store_chunk_def stream_ok_def Let_def)
  ultimately show ?thesis using assms(1) by (simp add: stream_ok_def store_chunk_def distinct_alist_put Let_def)
qed

lemma streams_ok_put:
  "streams_ok ss \<Longrightarrow> stream_ok st \<Longrightarrow> stream_bounded st \<Longrightarrow> streams_ok (alist_put k st ss)"
  using in_alist_put [of _ k st ss] by (fastforce simp: streams_ok_def distinct_alist_put list_all_iff)

lemma streams_ok_erase: "streams_ok ss \<Longrightarrow> streams_ok (alist_erase k ss)"
  using set_alist_erase [of k ss] by (auto simp: streams_ok_def distinct_alist_erase list_all_iff)

lemma alist_erase_put: "alist_erase k (alist_put k v ps) = alist_erase k ps"
  by (induction ps) (auto simp: alist_erase_def)

lemma cleanup_ok: "streams_ok ss \<Longrightarrow> streams_ok (cleanup_expired_stream_states_locked now ss)"
  by (auto simp: streams_ok_def cleanup_expired_stream_states_locked_def list_all_iff distinct_map_filter)

lemma stream_input_state_ok:
  assumes "streams_ok ss" and "stream_input_state key now ss = (st, ss')"
  shows "streams_ok ss' \<and> stream_ok st \<and> stream_bounded st \<and> map_of ss' key = Some st"
proof -
  let ?ss = "cleanup_expired_stream_states_locked now ss"
  have ok: "streams_ok ?ss" using cleanup_ok [OF assms(1)] .
  show ?thesis
  proof (cases "map_of ?ss key")
    case None
    let ?st = "\<lparr>si_chunks = [], si_updated_ms = now, si_total_bytes = 0\<rparr>"
    have "st = ?st" "ss' = alist_put key ?st ?ss" using assms(2) None by (auto simp: stream_input_state_def Let_def)
    moreover have "stream_ok ?st" "stream_bounded ?st" by (simp_all add: stream_ok_def stream_bounded_def)
    ultimately show ?thesis using streams_ok_put [OF ok] by (simp add: map_of_alist_put)
  next
    case (Some st0)
    then have "st = st0" "ss' = ?ss" using assms(2) by (simp_all add: stream_input_state_def Let_def)
    then show ?thesis using ok Some map_of_SomeD [OF Some] by (auto simp: streams_ok_def list_all_iff)
  qed
qed

lemma assemble_ok:
  assumes "streams_ok ss" and "assemble_stream_input now key meta ss = (r, ss')"
  shows "streams_ok (alist_erase key ss') \<and> ((\<forall>m. r \<noteq> Inr (AsmError m)) \<longrightarrow> streams_ok ss')"
proof (cases "stream_chunk_index meta")
  case (Inl ex)
  then show ?thesis using assms streams_ok_erase by (simp add: assemble_stream_input_def)
next
  case idx: (Inr index)
  show ?thesis
  proof (cases "index < 0")
    case True
    then show ?thesis using assms idx streams_ok_erase by (auto simp: assemble_stream_input_def)
  next
    case pos: False
    obtain st0 ss0 where s0: "stream_input_state key now ss = (st0, ss0)" by (meson surj_pair)
    note ok0 = stream_input_state_ok [OF assms(1) s0]
    define st where "st = store_chunk now index (json_string_value meta ''delta'' []) st0"
    have ok: "stream_ok st" using store_chunk_ok ok0 pos by (simp add: st_def)
    have era: "streams_ok (alist_erase key (alist_put key st ss0))"
      using ok0 streams_ok_erase by (simp add: alist_erase_put)
    show ?thesis
    proof (cases "stream_bounded st")
      case False
      then have "(\<exists>m. r = Inr (AsmError m)) \<and> ss' = alist_put key st ss0"
        using assms(2) idx pos s0
        by (auto simp: assemble_stream_input_def Let_def st_def [symmetric] stream_bounded_def not_le split: if_splits)
      then show ?thesis using era by auto
    next
      case bnd: True
      have "ss' = alist_put key st ss0 \<or> ss' = alist_erase key (alist_put key st ss0)"
        using assms(2) idx pos s0 bnd
        by (auto simp: assemble_stream_input_def Let_def st_def [symmetric] stream_bounded_def erase_stream_input_state_def
            split: if_splits sum.splits)
      then show ?thesis using era streams_ok_put ok0 ok bnd streams_ok_erase [OF era] by auto
    qed
  qed
qed

lemma submit_frame:
  assumes "submit e ch session object prompt meta t n = (r, n')"
  shows "nl_sessions n' = nl_sessions n \<and> nl_streams n' = nl_streams n \<and> (nl_shared n' = nl_shared n \<or> nl_shared n' \<noteq> None)"
  using assms by (cases "apply_session_defaults session meta") (auto simp: submit_def frame_simps)

lemma task_user_data_ok:
  assumes "streams_ok (nl_streams n)" and "task_user_data e ch object data n = (r, n')"
  shows "streams_ok (nl_streams n') \<and> nl_sessions n' = nl_sessions n \<and> (nl_shared n' = nl_shared n \<or> nl_shared n' \<noteq> None)"
proof -
  define fine where "fine n' \<longleftrightarrow> streams_ok (nl_streams n') \<and> nl_sessions n' = nl_sessions n \<and>
    (nl_shared n' = nl_shared n \<or> nl_shared n' \<noteq> None)" for n' :: vllm_llm
  have sub: "fine (snd (submit e c s obj p m t n1))" if "fine n1" for c s obj p m t n1
    using submit_frame [of e c s obj p m t n1] that unfolding fine_def
    by (cases "submit e c s obj p m t n1") auto
  have msg: "fine (send_client_message e r w u obj d c m n1)" if "fine n1" for r w u obj d c m n1
    using that by (simp add: fine_def frame_simps)
  have self: "fine n" using assms(1) by (simp add: fine_def)
  have asm: "fine (n\<lparr>nl_streams := alist_erase key ss\<rparr>)" "\<forall>m. r \<noteq> Inr (AsmError m) \<Longrightarrow> fine (n\<lparr>nl_streams := ss\<rparr>)"
    if "assemble_stream_input now key meta (nl_streams n) = (r, ss)" for now key meta r ss
    using assemble_ok [OF assms(1) that] by (simp_all add: fine_def)
  have "fine (snd (task_user_data e ch object data n))"
    unfolding task_user_data_def Let_def erase_stream_input_state_def
    using self sub msg asm
    by (auto split: option.split sum.split prod.split assembly.split)
  then show ?thesis using assms(2) by (simp add: fine_def)
qed

section \<open>Assembly\<close>

text \<open>A fragment as a client sends it.\<close>

definition fragment :: "string \<Rightarrow> bool \<Rightarrow> nat \<Rightarrow> json" where
  "fragment d fin i = JObj [(''delta'', JStr d), (''finish'', JBool fin), (''index'', JInt (int i))]"

text \<open>The fragments of one stream, each with the time of its arrival, until one of them is not taken
  as a part.\<close>

fun assemble_run ::
  "string \<Rightarrow> (int \<times> json) list \<Rightarrow> (string \<times> StreamInputState) list
     \<Rightarrow> assembly result \<times> (string \<times> StreamInputState) list" where
  "assemble_run key [] ss = (Inr AsmMore, ss)"
| "assemble_run key ((now, meta) # ms) ss =
     (case assemble_stream_input now key meta ss of
        (Inr AsmMore, ss) \<Rightarrow> assemble_run key ms ss
      | r \<Rightarrow> r)"

text \<open>No pause exceeds the time to live.\<close>

fun timely :: "int \<Rightarrow> int list \<Rightarrow> bool" where
  "timely t0 [] = True"
| "timely t0 (now # ts) = (now - t0 \<le> kStreamInputTtlMs \<and> timely now ts)"

lemma timely_append: "timely t0 (ts @ [t]) \<longleftrightarrow> timely t0 ts \<and> t - last (t0 # ts) \<le> kStreamInputTtlMs"
  by (induction ts arbitrary: t0) auto

definition gathered :: "string list \<Rightarrow> nat list \<Rightarrow> string \<Rightarrow> int \<Rightarrow> (string \<times> StreamInputState) list \<Rightarrow> bool" where
  "gathered ds js key t0 ss \<longleftrightarrow> streams_ok ss \<and> (if js = [] then map_of ss key = None else
     (\<exists>st. map_of ss key = Some st \<and> si_updated_ms st = t0 \<and> holds ds js (si_chunks st)))"

lemma fragment_fields:
  "is_int32 (int i) \<Longrightarrow> stream_chunk_index (fragment d fin i) = Inr (int i)"
  "json_bool_value (fragment d fin i) ''finish'' False = fin" "json_string_value (fragment d fin i) ''delta'' [] = d"
  by (simp_all add: fragment_def stream_chunk_index_def json_bool_value_def json_string_value_def to_int32_id)

lemma holds_total:
  assumes "holds ds js buff" and "distinct js" and "set js \<subseteq> {..<length ds}"
  shows "sum_list (map (length \<circ> snd) buff) \<le> sum_list (map length ds)"
proof -
  have d: "distinct (map fst buff)" and m: "\<And>k c. (k, c) \<in> set buff \<Longrightarrow> k \<in> int ` set js \<and> c = ds ! nat k"
    using assms(1) by (auto simp: holds_def map_of_eq_Some_iff [symmetric] split: if_splits)
  have dist: "distinct buff" using d by (simp add: distinct_map)
  have "sum_list (map (length \<circ> snd) buff) = (\<Sum>p\<in>set buff. length (snd p))"
    using dist by (simp add: sum_list_distinct_conv_sum_set comp_def)
  also have "\<dots> = (\<Sum>p\<in>set buff. length (ds ! nat (fst p)))" using m by (intro sum.cong) auto
  also have "\<dots> = (\<Sum>k\<in>(\<lambda>p. nat (fst p)) ` set buff. length (ds ! k))"
  proof (subst sum.reindex)
    show "inj_on (\<lambda>p. nat (fst p)) (set buff)"
    proof (rule inj_onI)
      fix p q assume pq: "p \<in> set buff" "q \<in> set buff" "nat (fst p) = nat (fst q)"
      then have "fst p = fst q" using m [of "fst p" "snd p"] m [of "fst q" "snd q"] by auto
      then show "p = q" using d pq by (metis eq_key_imp_eq_value prod.collapse)
    qed
  qed (simp add: comp_def)
  also have "\<dots> \<le> (\<Sum>k\<in>{..<length ds}. length (ds ! k))"
    using m assms(3) by (intro sum_mono2) force+
  also have "\<dots> = sum_list (map length ds)" by (simp add: sum_list_sum_nth atLeast0LessThan)
  finally show ?thesis .
qed

lemma map_of_filter_distinct:
  "distinct (map fst ps) \<Longrightarrow> map_of ps k = Some v \<Longrightarrow> map_of (filter P ps) k = (if P (k, v) then Some v else None)"
proof (induction ps)
  case (Cons p ps)
  then show ?case by (cases p) (auto simp: map_of_eq_None_iff image_iff split: if_splits)
qed simp

lemma map_of_filter_None: "map_of ps k = None \<Longrightarrow> map_of (filter P ps) k = None"
  by (auto simp: map_of_eq_None_iff)

lemma join_chunks_all:
  assumes "\<And>k. k < n \<Longrightarrow> map_of buff (int (i + k)) = Some (ds ! (i + k))" and "i + n \<le> length ds"
  shows "join_chunks n i buff out = Inr (out @ concat (take n (drop i ds)))"
  using assms
proof (induction n arbitrary: i out)
  case (Suc n)
  have "map_of buff (int i) = Some (ds ! i)" using Suc.prems(1) [of 0] by simp
  moreover have "join_chunks n (Suc i) buff (out @ ds ! i) = Inr ((out @ ds ! i) @ concat (take n (drop (Suc i) ds)))"
  proof (rule Suc.IH)
    show "map_of buff (int (Suc i + k)) = Some (ds ! (Suc i + k))" if "k < n" for k
      using Suc.prems(1) [of "Suc k"] that by simp
  qed (use Suc.prems(2) in simp)
  moreover have "drop i ds = ds ! i # drop (Suc i) ds" using Suc.prems(2) by (simp add: Cons_nth_drop_Suc)
  ultimately show ?case by simp
qed simp

text \<open>The state in which a fragment finds its stream.\<close>

lemma gathered_input:
  assumes "gathered ds js key t0 ss" and "now - t0 \<le> kStreamInputTtlMs" and "stream_input_state key now ss = (st, ss')"
  shows "holds ds js (si_chunks st) \<and> streams_ok ss' \<and> stream_ok st"
proof -
  have ok: "streams_ok ss'" "stream_ok st" using stream_input_state_ok [OF _ assms(3)] assms(1) by (simp_all add: gathered_def)
  have d: "distinct (map fst ss)" using assms(1) by (simp add: gathered_def streams_ok_def)
  have "holds ds js (si_chunks st)"
  proof (cases "js = []")
    case True
    then have "map_of (cleanup_expired_stream_states_locked now ss) key = None"
      using assms(1) by (simp add: gathered_def cleanup_expired_stream_states_locked_def map_of_filter_None)
    then show ?thesis using assms(3) True by (auto simp: stream_input_state_def Let_def holds_def)
  next
    case False
    then obtain st0 where st0: "map_of ss key = Some st0" "si_updated_ms st0 = t0" "holds ds js (si_chunks st0)"
      using assms(1) by (auto simp: gathered_def)
    then have "map_of (cleanup_expired_stream_states_locked now ss) key = Some st0"
      using map_of_filter_distinct [OF d st0(1)] assms(2) by (simp add: cleanup_expired_stream_states_locked_def)
    then show ?thesis using assms(3) st0(3) by (auto simp: stream_input_state_def Let_def)
  qed
  then show ?thesis using ok by simp
qed

lemma assemble_fragment:
  assumes g: "gathered ds js key t0 ss" and t: "now - t0 \<le> kStreamInputTtlMs" and i: "i < length ds" "i \<notin> set js"
    and js: "distinct js" "set js \<subseteq> {..<length ds}"
    and lim: "length ds \<le> kMaxStreamInputChunks" "sum_list (map length ds) \<le> kMaxStreamInputBytes"
    and a: "assemble_stream_input now key (fragment (ds ! i) fin i) ss = (r, ss')"
  shows "if \<not> fin then r = Inr AsmMore \<and> gathered ds (js @ [i]) key now ss'
    else set (js @ [i]) = {..<length ds} \<longrightarrow> r = Inr (AsmDone (concat ds)) \<and> map_of ss' key = None"
proof -
  obtain st0 ss0 where s0: "stream_input_state key now ss = (st0, ss0)" by (meson surj_pair)
  note in0 = gathered_input [OF g t s0]
  define st where "st = store_chunk now (int i) (ds ! i) st0"
  have ch: "si_chunks st = alist_put (int i) (ds ! i) (si_chunks st0)" "si_updated_ms st = now"
    by (simp_all add: st_def store_chunk_def Let_def)
  have h: "holds ds (js @ [i]) (si_chunks st)" using holds_put in0 ch(1) by simp
  have dis: "distinct (js @ [i])" "set (js @ [i]) \<subseteq> {..<length ds}" using js i by auto
  have len: "length (si_chunks st) = length (js @ [i])" using holds_length [OF h dis(1)] .
  moreover have card: "length (js @ [i]) \<le> length ds"
    using card_mono [OF _ dis(2)] distinct_card [OF dis(1)] by simp
  ultimately have cnt: "length (si_chunks st) \<le> kMaxStreamInputChunks" using lim(1) by simp
  have okst: "stream_ok st" using store_chunk_ok in0 by (simp add: st_def)
  have byt: "si_total_bytes st \<le> kMaxStreamInputBytes"
    using holds_total [OF h dis] lim(2) okst by (simp add: stream_ok_def)
  have bnd: "stream_bounded st" using cnt byt by (simp add: stream_bounded_def)
  have idx: "is_int32 (int i)" using i(1) lim(1) by (simp add: is_int32_def INT_MIN_def INT_MAX_def kMaxStreamInputChunks_def)
  have res: "(r, ss') = (if \<not> fin then (Inr AsmMore, alist_put key st ss0)
      else case join_chunks (length (si_chunks st)) 0 (si_chunks st) [] of
        Inl err \<Rightarrow> (Inr (AsmError err), alist_erase key (alist_put key st ss0))
      | Inr out \<Rightarrow> (Inr (AsmDone out), alist_erase key (alist_put key st ss0)))"
    unfolding a [symmetric] assemble_stream_input_def fragment_fields(1) [OF idx] fragment_fields(2,3) sum.case s0 Let_def prod.case
      st_def [symmetric] erase_stream_input_state_def using cnt byt by simp
  show ?thesis
  proof (cases fin)
    case False
    have "gathered ds (js @ [i]) key now (alist_put key st ss0)"
      using streams_ok_put [OF _ okst bnd, of ss0 key] in0 h ch(2) by (simp add: gathered_def map_of_alist_put)
    then show ?thesis using res False by simp
  next
    case True
    have "r = Inr (AsmDone (concat ds)) \<and> map_of ss' key = None" if full: "set (js @ [i]) = {..<length ds}"
    proof -
      have n: "length (si_chunks st) = length ds" using full len distinct_card [OF dis(1)] by simp
      have "join_chunks (length ds) 0 (si_chunks st) [] = Inr ([] @ concat (take (length ds) (drop 0 ds)))"
        using h full by (intro join_chunks_all) (auto simp: holds_def)
      then have "(r, ss') = (Inr (AsmDone (concat ds)), alist_erase key (alist_put key st ss0))"
        using res True n by simp
      then show ?thesis by (simp add: map_of_alist_erase)
    qed
    then show ?thesis using True by simp
  qed
qed

lemma assemble_fragments:
  assumes lim: "length ds \<le> kMaxStreamInputChunks" "sum_list (map length ds) \<le> kMaxStreamInputBytes"
    and "gathered ds js key t0 ss" and "timely t0 (map fst ps)" and "distinct (js @ map snd ps)"
    and "set (js @ map snd ps) \<subseteq> {..<length ds}"
  shows "\<exists>ss'. assemble_run key (map (\<lambda>(t, i). (t, fragment (ds ! i) False i)) ps @ ms) ss = assemble_run key ms ss' \<and>
    gathered ds (js @ map snd ps) key (last (t0 # map fst ps)) ss'"
  using assms(3-)
proof (induction ps arbitrary: js t0 ss)
  case Nil
  then show ?case by auto
next
  case (Cons p ps)
  obtain t i where p: "p = (t, i)" by (cases p)
  obtain r ss1 where a: "assemble_stream_input t key (fragment (ds ! i) False i) ss = (r, ss1)" by (meson surj_pair)
  have pre: "t - t0 \<le> kStreamInputTtlMs" "i < length ds" "i \<notin> set js" "distinct js" "set js \<subseteq> {..<length ds}"
    using Cons.prems by (auto simp: p)
  have r: "r = Inr AsmMore" "gathered ds (js @ [i]) key t ss1"
    using assemble_fragment [OF Cons.prems(1) pre lim a] by simp_all
  have "\<exists>ss'. assemble_run key (map (\<lambda>(t, i). (t, fragment (ds ! i) False i)) ps @ ms) ss1 = assemble_run key ms ss' \<and>
      gathered ds ((js @ [i]) @ map snd ps) key (last (t # map fst ps)) ss'"
    using Cons.prems by (intro Cons.IH [OF r(2)]) (auto simp: p)
  then show ?case using a r(1) by (simp add: p)
qed

section \<open>Defaults\<close>

lemma set_default_obj:
  "set_default c key v (Inr (JObj kvs)) = Inr (JObj (if c \<and> map_of kvs key = None then alist_put key v kvs else kvs))"
  by (simp add: set_default_def)

text \<open>The value the session \<open>s\<close> has for field \<open>k\<close> of a request with the fields \<open>kvs\<close>.\<close>

definition session_default :: "SessionContext \<Rightarrow> (string \<times> json) list \<Rightarrow> string \<Rightarrow> json option" where
  "session_default s kvs k =
     (if k = ''model'' \<and> sc_model s \<noteq> [] then Some (JStr (sc_model s))
      else if k = ''max_tokens'' \<and> 0 < sc_default_max_tokens s \<and> map_of kvs ''max_token_len'' = None
        then Some (JInt (sc_default_max_tokens s))
      else if k = ''timeout_ms'' \<and> 0 < sc_default_timeout_ms s then Some (JInt (sc_default_timeout_ms s))
      else if k = ''deadline_ms'' \<and> 0 < sc_default_deadline_ms s then Some (JInt (sc_default_deadline_ms s))
      else if k = ''max_retries'' \<and> 0 \<le> sc_default_max_retries s then Some (JInt (sc_default_max_retries s))
      else if k = ''priority'' \<and> 0 \<le> sc_default_priority s then Some (JInt (sc_default_priority s))
      else if k = ''allow_model_fallback'' \<and> map_of kvs ''allow_degrade'' = None
        then Some (JBool (sc_allow_model_fallback s))
      else None)"

definition or_default :: "'a option \<Rightarrow> 'a option \<Rightarrow> 'a option" where
  "or_default given dflt = (case given of Some v \<Rightarrow> Some v | None \<Rightarrow> dflt)"

lemma apply_defaults_obj:
  "\<exists>kvs'. apply_session_defaults s (JObj kvs) = Inr (JObj kvs') \<and>
    (\<forall>k. map_of kvs' k = or_default (map_of kvs k) (session_default s kvs k))"
proof -
  define put where "put c key v kvs = (if c \<and> map_of kvs key = None then alist_put key v kvs else kvs)"
    for c key and v :: json and kvs :: "(string \<times> json) list"
  have mo: "map_of (put c key v kvs) k = or_default (map_of kvs k) (if k = key \<and> c then Some v else None)" for c key v kvs k
    by (simp add: put_def or_default_def map_of_alist_put split: option.split)
  have sd: "set_default c key v (Inr (JObj kvs)) = Inr (JObj (put c key v kvs))" for c key v kvs
    by (simp add: set_default_obj put_def)
  define k1 where "k1 = put (sc_model s \<noteq> []) ''model'' (JStr (sc_model s)) kvs"
  define k2 where "k2 = put (0 < sc_default_max_tokens s \<and> map_of k1 ''max_token_len'' = None) ''max_tokens''
    (JInt (sc_default_max_tokens s)) k1"
  define k3 where "k3 = put (0 < sc_default_timeout_ms s) ''timeout_ms'' (JInt (sc_default_timeout_ms s)) k2"
  define k4 where "k4 = put (0 < sc_default_deadline_ms s) ''deadline_ms'' (JInt (sc_default_deadline_ms s)) k3"
  define k5 where "k5 = put (0 \<le> sc_default_max_retries s) ''max_retries'' (JInt (sc_default_max_retries s)) k4"
  define k6 where "k6 = put (0 \<le> sc_default_priority s) ''priority'' (JInt (sc_default_priority s)) k5"
  define k7 where "k7 = put (map_of k6 ''allow_degrade'' = None) ''allow_model_fallback'' (JBool (sc_allow_model_fallback s)) k6"
  have ap: "apply_session_defaults s (JObj kvs) = Inr (JObj k7)"
    by (simp add: apply_session_defaults_def sd k1_def k2_def k3_def k4_def k5_def k6_def k7_def Let_def)
  have "map_of k7 k = or_default (map_of kvs k) (session_default s kvs k)" for k
    by (cases "map_of kvs k")
      (simp_all add: k1_def k2_def k3_def k4_def k5_def k6_def k7_def mo or_default_def session_default_def split: option.split)
  then show ?thesis using ap by blast
qed

lemma apply_defaults_null: "apply_session_defaults s JNull = apply_session_defaults s (JObj [])"
  by (simp add: apply_session_defaults_def set_default_def Let_def)

lemma apply_defaults_other:
  "\<not> is_object meta \<Longrightarrow> meta \<noteq> JNull \<Longrightarrow> apply_session_defaults s meta = Inl JsonTypeError"
  by (cases meta) (simp_all add: apply_session_defaults_def set_default_def Let_def)

section \<open>Outcome of a setup\<close>

lemma setup_accepted:
  assumes "sample_get_work_id_num w = Inr num" and "map_of (nl_channels n) num = Some ch"
    and "jt_parse (ne_json e) data = Inr c" and "admit_session e num (make_session_context num w c) c n = Inr n1"
    and "session_setup e w obj data n = (r, n')"
  shows "r = Inr 0 \<and> nl_sessions n' = nl_sessions n1 \<and> nl_shared n' = nl_shared n1 \<and>
    (\<exists>raw. nl_sent n' = nl_sent n @ [(nl_out_url n, raw)]) \<and>
    (\<exists>ch'. map_of (nl_channels n') num = Some ch' \<and> sock_at 0 ch' = Some (ZSub (ch_inference_url ch)))"
proof -
  obtain t where n1: "n1 = n\<lparr>nl_shared := Some t, nl_sessions :=
      alist_put num (make_session_context num w c) (nl_sessions n)\<rparr>"
    using admit_session_cases [OF assms(4)] by auto
  then have "get_channel num n1 = Inr ch" using assms(2) by (simp add: get_channel_def)
  then show ?thesis using assms n1
    by (auto simp: session_setup_def Let_def subscriber_work_id_def set_enoutput_def set_enstream_def node_send_def
        push_out_def put_channel_def map_of_alist_put sock_at_def)
qed

lemma setup_rejected:
  assumes "sample_get_work_id_num w = Inr num" and "session_setup e w obj data n = (r, n')"
    and "(\<exists>m. jt_parse (ne_json e) data = Inl m) \<or>
      (\<exists>c p. jt_parse (ne_json e) data = Inr c \<and> admit_session e num (make_session_context num w c) c n = Inl p)"
  shows "(\<exists>rc. r = Inr rc \<and> rc \<noteq> 0) \<and> (\<exists>raw. n' = n\<lparr>nl_sent := nl_sent n @ [(nl_out_url n, raw)]\<rparr>)"
  using assms by (auto simp: session_setup_def send_error_def push_out_def split: prod.splits)

lemma admit_iff:
  "(\<exists>n1. admit_session e num s c n = Inr n1) \<longleftrightarrow> map_of (nl_sessions n) num = None \<and>
     length (nl_sessions n) < max_sessions \<and> (nl_shared n \<noteq> None \<or> (\<exists>t. create_shared e c = Inr t))"
  by (auto simp: admit_session_def split: sum.splits option.splits)

lemma exit_accepted:
  assumes "sample_get_work_id_num w = Inr num" and "map_of (nl_sessions n) num \<noteq> None"
    and "map_of (nl_channels n) num = Some ch"
  shows "\<exists>n'. session_exit e w obj data n = (Inr 0, n') \<and> nl_sessions n' = alist_erase num (nl_sessions n) \<and>
    (\<exists>ch'. map_of (nl_channels n') num = Some ch' \<and> ch_zmq ch' = [])"
  using assms by (auto simp: session_exit_def get_channel_def put_channel_def node_send_def push_out_def
      stop_subscriber_def map_of_alist_put)

section \<open>Properties\<close>

lemma node_step_ok:
  assumes ok: "sessions_ok n" "streams_ok (nl_streams n)"
  shows "sessions_ok (node_step op n) \<and> streams_ok (nl_streams (node_step op n))"
proof (cases op)
  case (NSetup e w obj d)
  then show ?thesis using ok setup_sessions_ok [OF ok(1), of e w obj d] setup_cases [of e w obj d n]
    by (cases "session_setup e w obj d n") simp
next
  case (NExit e w obj d)
  then show ?thesis using ok exit_sessions_ok [OF ok(1), of e w obj d] exit_cases [of e w obj d n]
    by (cases "session_exit e w obj d n") simp
next
  case (NTaskinfo e w obj d)
  then show ?thesis using ok sessions_ok_cong [of _ n] by (simp add: taskinfo_frame)
next
  case (NMetrics e url raw)
  then show ?thesis using ok sessions_ok_cong [of _ n] by (simp add: rpc_frame)
next
  case (NReload e url raw)
  then show ?thesis using ok sessions_ok_cong [of "node_reload_config e url raw n" n] rpc_frame(6) [of e url raw n]
    by (cases "nl_shared n") (auto simp: rpc_frame)
next
  case (NData e ch obj d)
  then show ?thesis using ok task_user_data_ok [OF ok(2), of e ch obj d] sessions_ok_cong [of _ n]
    by (cases "task_user_data e ch obj d n") auto
qed

interpretation node_ops: invariant_of node_step "\<lambda>n. sessions_ok n \<and> streams_ok (nl_streams n)"
  by unfold_locales (use node_step_ok in blast)

text \<open>
  C18. Whatever calls and messages reach a node, it holds at most 1024 sessions, one per work id and
  filed under it, it has a scheduler whenever it has a session, and what it keeps of requests that
  arrive in fragments is bounded: for every stream at most 4096 fragments and 8 MiB, with a byte
  count that is exact.
\<close>
theorem node_bounded:
  "sessions_ok (node_run ops new_node) \<and> streams_ok (nl_streams (node_run ops new_node))"
proof -
  have "sessions_ok new_node \<and> streams_ok (nl_streams new_node)"
    by (simp add: new_node_def sessions_ok_def streams_ok_def)
  then show ?thesis unfolding node_run_def by (rule node_ops.run)
qed

text \<open>
  C37. A setup call for a work id with a channel is answered exactly once, at the caller's address. It
  succeeds exactly when its data is JSON, the id has no session, there are fewer than 1024 and the
  scheduler exists or can be created; then the session is stored, an existing scheduler is kept and
  the channel listens for requests, and an exit call for the same id succeeds, removes exactly
  this session and closes the channel's sockets. Otherwise the reply is the only thing that changes.
\<close>
theorem setup_outcome:
  assumes "sample_get_work_id_num w = Inr num" and "map_of (nl_channels n) num = Some ch"
    and "session_setup e w obj data n = (r, n')"
  shows "if \<exists>c. jt_parse (ne_json e) data = Inr c \<and> map_of (nl_sessions n) num = None \<and>
      length (nl_sessions n) < max_sessions \<and> (nl_shared n \<noteq> None \<or> (\<exists>t. create_shared e c = Inr t))
    then r = Inr 0 \<and> (\<exists>raw. nl_sent n' = nl_sent n @ [(nl_out_url n, raw)]) \<and>
      (\<exists>c. jt_parse (ne_json e) data = Inr c \<and>
         map_of (nl_sessions n') = (map_of (nl_sessions n))(num \<mapsto> make_session_context num w c)) \<and>
      (nl_shared n' = nl_shared n \<or> nl_shared n = None \<and> nl_shared n' \<noteq> None) \<and>
      (\<exists>ch'. map_of (nl_channels n') num = Some ch' \<and> sock_at 0 ch' = Some (ZSub (ch_inference_url ch))) \<and>
      (\<exists>n''. session_exit e' w obj' data' n' = (Inr 0, n'') \<and> map_of (nl_sessions n'') = map_of (nl_sessions n) \<and>
         (\<exists>ch'. map_of (nl_channels n'') num = Some ch' \<and> ch_zmq ch' = []))
    else (\<exists>rc. r = Inr rc \<and> rc \<noteq> 0) \<and> (\<exists>raw. n' = n\<lparr>nl_sent := nl_sent n @ [(nl_out_url n, raw)]\<rparr>)"
proof (cases "\<exists>c n1. jt_parse (ne_json e) data = Inr c \<and> admit_session e num (make_session_context num w c) c n = Inr n1")
  case True
  then obtain c n1 where c: "jt_parse (ne_json e) data = Inr c"
    and a: "admit_session e num (make_session_context num w c) c n = Inr n1" by blast
  note acc = setup_accepted [OF assms(1,2) c a assms(3)]
  note adm = admit_session_cases [OF a]
  obtain ch' where ch': "map_of (nl_channels n') num = Some ch'" using acc by blast
  have ss: "nl_sessions n' = alist_put num (make_session_context num w c) (nl_sessions n)" using acc adm by auto
  have "map_of (nl_sessions n') num \<noteq> None" by (simp add: ss map_of_alist_put)
  from exit_accepted [OF assms(1) this ch', of e' obj' data'] obtain n'' where
    x: "session_exit e' w obj' data' n' = (Inr 0, n'')" "nl_sessions n'' = alist_erase num (nl_sessions n')"
      "\<exists>ch'. map_of (nl_channels n'') num = Some ch' \<and> ch_zmq ch' = []" by blast
  have restored: "map_of (nl_sessions n'') = map_of (nl_sessions n)"
    using adm by (auto simp: x(2) ss map_of_alist_erase map_of_alist_put fun_eq_iff)
  have sh: "nl_shared n' = nl_shared n \<or> nl_shared n = None \<and> nl_shared n' \<noteq> None" using acc adm by auto
  have cond: "map_of (nl_sessions n) num = None \<and> length (nl_sessions n) < max_sessions \<and>
      (nl_shared n \<noteq> None \<or> (\<exists>t. create_shared e c = Inr t))" using admit_iff a by blast
  have r0: "r = Inr 0" "\<exists>raw. nl_sent n' = nl_sent n @ [(nl_out_url n, raw)]"
    "\<exists>ch'. map_of (nl_channels n') num = Some ch' \<and> sock_at 0 ch' = Some (ZSub (ch_inference_url ch))"
    using acc by simp_all
  have "map_of (nl_sessions n') = (map_of (nl_sessions n))(num \<mapsto> make_session_context num w c)"
    by (simp add: ss map_of_alist_put)
  then show ?thesis using r0 c x(1,3) restored sh cond by simp
next
  case False
  then have c: "\<not> (\<exists>c. jt_parse (ne_json e) data = Inr c \<and> map_of (nl_sessions n) num = None \<and>
      length (nl_sessions n) < max_sessions \<and> (nl_shared n \<noteq> None \<or> (\<exists>t. create_shared e c = Inr t)))"
    using admit_iff by blast
  have "(\<exists>m. jt_parse (ne_json e) data = Inl m) \<or>
      (\<exists>c p. jt_parse (ne_json e) data = Inr c \<and> admit_session e num (make_session_context num w c) c n = Inl p)"
    using False by (metis sum.exhaust)
  then show ?thesis unfolding if_not_P [OF c] by (rule setup_rejected [OF assms(1,3)])
qed

theorem setup_outcome_witness:
  "\<exists>n'. session_setup sample_env ''llm.1001'' ''llm.setup'' ''cfg'' sample_node = (Inr 0, n')"
proof -
  obtain r n' where s: "session_setup sample_env ''llm.1001'' ''llm.setup'' ''cfg'' sample_node = (r, n')" by (meson surj_pair)
  have num: "sample_get_work_id_num ''llm.1001'' = Inr 1001" by code_simp
  have ch: "map_of (nl_channels sample_node) 1001 = Some (new_channel False False ''ipc://p'' ''ipc://i'' ''llm'')"
    "map_of (nl_sessions sample_node) 1001 = None" "length (nl_sessions sample_node) < max_sessions"
    "nl_shared sample_node \<noteq> None" "jt_parse (ne_json sample_env) ''cfg'' = Inr sample_config"
    by (simp_all add: sample_node_def new_node_def max_sessions_def sample_env_def)
  then show ?thesis using setup_outcome [OF num ch(1) s] s by simp
qed

text \<open>
  C19. A request in fragments is put together whatever the order of arrival: if every index from 0
  occurs once, the fragment marked as the last one comes last, no pause is longer than a minute and
  the whole stays within 4096 fragments and 8 MiB, the result is the concatenation of the
  fragments in the order of their indices, and nothing of the stream is kept.
\<close>
theorem fragments_assembled:
  assumes "streams_ok ss" and "map_of ss key = None"
    and "length ds \<le> kMaxStreamInputChunks" and "sum_list (map length ds) \<le> kMaxStreamInputBytes"
    and "distinct (map snd ps @ [k])" and "set (map snd ps @ [k]) = {..<length ds}" and "timely t0 (map fst ps @ [t])"
  shows "\<exists>ss'. assemble_run key (map (\<lambda>(t, i). (t, fragment (ds ! i) False i)) ps @ [(t, fragment (ds ! k) True k)]) ss =
      (Inr (AsmDone (concat ds)), ss') \<and> map_of ss' key = None"
proof -
  have g: "gathered ds [] key t0 ss" using assms(1,2) by (simp add: gathered_def)
  have tm: "timely t0 (map fst ps)" "t - last (t0 # map fst ps) \<le> kStreamInputTtlMs"
    using assms(7) by (simp_all add: timely_append)
  obtain ss1 where s1: "assemble_run key (map (\<lambda>(t, i). (t, fragment (ds ! i) False i)) ps @ [(t, fragment (ds ! k) True k)]) ss =
      assemble_run key [(t, fragment (ds ! k) True k)] ss1" "gathered ds (map snd ps) key (last (t0 # map fst ps)) ss1"
    using assemble_fragments [OF assms(3,4) g tm(1), of "[(t, fragment (ds ! k) True k)]"] assms(5,6)
    by auto
  obtain r ss2 where a: "assemble_stream_input t key (fragment (ds ! k) True k) ss1 = (r, ss2)" by (meson surj_pair)
  have "k < length ds" "k \<notin> set (map snd ps)" "distinct (map snd ps)" "set (map snd ps) \<subseteq> {..<length ds}"
    using assms(5,6) by auto
  from assemble_fragment [OF s1(2) tm(2) this assms(3,4) a] assms(6)
  have "r = Inr (AsmDone (concat ds))" "map_of ss2 key = None" by simp_all
  then show ?thesis using s1(1) a by simp
qed

theorem fragments_assembled_witness:
  "\<exists>ss'. assemble_run ''llm.1:r'' [(5, fragment ''lo'' False 1), (9, fragment ''hel'' True 0)] [] =
    (Inr (AsmDone ''hello''), ss')"
  using fragments_assembled [of "[]" "''llm.1:r''" "[''hel'', ''lo'']" "[(5, 1)]" 0 0 9]
  by (auto simp: lessThan_Suc streams_ok_def kMaxStreamInputChunks_def kMaxStreamInputBytes_def kStreamInputTtlMs_def)

text \<open>
  C38. Session defaults fill gaps and nothing else: a request whose data is a JSON object (or null)
  keeps every field it has, whatever the session says, and gets the session's value for a field it
  lacks where the session has one. A request whose data is any other JSON value ends in a type error.
\<close>
theorem session_defaults_fill_gaps:
  "(meta = JNull \<and> kvs = [] \<or> meta = JObj kvs \<longrightarrow>
     (\<exists>kvs'. apply_session_defaults s meta = Inr (JObj kvs') \<and>
       (\<forall>k. map_of kvs' k = or_default (map_of kvs k) (session_default s kvs k)))) \<and>
   (apply_session_defaults s meta = Inl JsonTypeError \<longleftrightarrow> meta \<noteq> JNull \<and> \<not> is_object meta)"
proof (cases meta)
  case JNull
  then show ?thesis using apply_defaults_obj [of s "[]"] apply_defaults_null [of s] by (elim exE conjE) simp
next
  case (JObj kvs0)
  then show ?thesis using apply_defaults_obj [of s kvs0] by (elim exE conjE) (simp, blast)
qed (use apply_defaults_other [of meta s] in simp_all)

theorem session_defaults_fill_gaps_witness:
  "\<exists>kvs'. apply_session_defaults ((make_session_context 1 ''llm.1'' JNull)\<lparr>sc_default_priority := 3\<rparr>)
     (JObj [(''timeout_ms'', JInt 7)]) = Inr (JObj kvs') \<and> map_of kvs' ''timeout_ms'' = Some (JInt 7) \<and>
     map_of kvs' ''priority'' = Some (JInt 3)"
proof -
  let ?s = "(make_session_context 1 ''llm.1'' JNull)\<lparr>sc_default_priority := 3\<rparr>"
  obtain kvs' where a: "apply_session_defaults ?s (JObj [(''timeout_ms'', JInt 7)]) = Inr (JObj kvs')"
    and m: "\<And>k. map_of kvs' k = or_default (map_of [(''timeout_ms'', JInt 7)] k) (session_default ?s [(''timeout_ms'', JInt 7)] k)"
    using session_defaults_fill_gaps [of "JObj [(''timeout_ms'', JInt 7)]" "[(''timeout_ms'', JInt 7)]" ?s] by blast
  have "map_of kvs' ''timeout_ms'' = Some (JInt 7)" "map_of kvs' ''priority'' = Some (JInt 3)"
    by (simp_all add: m or_default_def session_default_def)
  then show ?thesis using a by blast
qed

text \<open>A prompt that is a JSON number is not an object: the exception leaves the message handler.\<close>

lemma numeric_prompt_throws:
  assumes "nl_shared n = Some t" and "map_of (nl_sessions n) 1001 = Some s" and "ch_work_id ch = ''llm.1001''"
    and "jt_parse (ne_json e) ''42'' = Inr (JInt 42)"
  shows "task_user_data e (Some ch) ''llm.utf-8'' ''42'' n = (Inl JsonTypeError, n)"
proof -
  have "sample_get_work_id_num ''llm.1001'' = Inr 1001" "\<not> str_contains ''stream'' ''llm.utf-8''" by code_simp+
  then show ?thesis using assms by (simp add: task_user_data_def Let_def submit_def apply_defaults_other)
qed

end
