(* ===== verification/Unit_Manager.thy ===== *)
theory Unit_Manager
  imports Channel
begin

text \<open>
  The unit manager (\<^verbatim>\<open>unit-manager/src\<close>): the store of typed values (\<^verbatim>\<open>all.h\<close>, \<^verbatim>\<open>config.cpp\<close>), the registry
  of units with its table of ports and the RPC calls on it (\<^verbatim>\<open>remote_server.cpp\<close>, \<^verbatim>\<open>unit_data.cpp\<close>), the
  dispatch of a client's message (\<^verbatim>\<open>unit_action_match\<close>, \<^verbatim>\<open>remote_action.cpp\<close>, \<^verbatim>\<open>zmq_bus.cpp\<close>) and the
  sessions of TCP clients (\<^verbatim>\<open>tcp_comm.cpp\<close>, \<^verbatim>\<open>session.h\<close>). The state of the process is the record
  \<open>manager\<close>. A unit is owned by its entry in the store, so the entry holds the object. What leaves the
  process is recorded: \<open>um_sent\<close> has the texts sent on a socket, \<open>um_calls\<close> the RPC calls made.
  Parameters are the simdjson document (\<open>simdjson\<close>), the JSON printer and the outcome of connecting to
  another unit's RPC socket.
\<close>

section \<open>C formatting\<close>

definition c_str :: "string \<Rightarrow> string" where
  "c_str s = takeWhile (\<lambda>c. c \<noteq> CHR 0x00) s"

text \<open>\<^verbatim>\<open>sprintf\<close> of a format with one \<^verbatim>\<open>int\<close> argument. A second conversion has no argument, and other
  conversions do not fit an \<^verbatim>\<open>int\<close>.\<close>

fun sprintf_int :: "string \<Rightarrow> int option \<Rightarrow> string result" where
  "sprintf_int [] arg = Inr []"
| "sprintf_int (c # cs) arg =
     (if c \<noteq> CHR ''%'' then map_sum (\<lambda>e. e) ((#) c) (sprintf_int cs arg)
      else case cs of
             [] \<Rightarrow> Inl UndefinedBehaviour
           | d # ds \<Rightarrow>
               if d = CHR ''%'' then map_sum (\<lambda>e. e) ((#) d) (sprintf_int ds arg)
               else if d = CHR ''i'' \<or> d = CHR ''d''
               then case arg of
                      None \<Rightarrow> Inl UndefinedBehaviour
                    | Some i \<Rightarrow> map_sum (\<lambda>e. e) ((@) (to_string i)) (sprintf_int ds None)
               else Inl UndefinedBehaviour)"

definition sprintf :: "string \<Rightarrow> int \<Rightarrow> string result" where
  "sprintf fmt i = sprintf_int (c_str fmt) (Some i)"

text \<open>The integer that \<^verbatim>\<open>%i\<close> reads: the base follows the prefix.\<close>

definition hex_digit :: "char \<Rightarrow> nat option" where
  "hex_digit c =
     (let n = of_char c
      in if 48 \<le> n \<and> n \<le> (57::nat) then Some (n - 48)
         else if 97 \<le> n \<and> n \<le> 102 then Some (n - 87)
         else if 65 \<le> n \<and> n \<le> 70 then Some (n - 55)
         else None)"

fun base_value :: "nat \<Rightarrow> nat \<Rightarrow> string \<Rightarrow> nat" where
  "base_value b acc [] = acc"
| "base_value b acc (c # cs) =
     (case hex_digit c of
        None \<Rightarrow> acc
      | Some d \<Rightarrow> if d < b then base_value b (b * acc + d) cs else acc)"

definition scan_magnitude :: "char \<Rightarrow> string \<Rightarrow> nat option" where
  "scan_magnitude conv s =
     (if conv = CHR ''i'' \<and> take 1 s = ''0''
      then if take 2 s = ''0x'' \<or> take 2 s = ''0X''
           then (case drop 2 s of
                   [] \<Rightarrow> None
                 | c # cs \<Rightarrow> if hex_digit c = None then None else Some (base_value 16 0 (c # cs)))
           else Some (base_value 8 0 s)
      else unsigned_prefix s)"

definition scan_conversion :: "char \<Rightarrow> string \<Rightarrow> int option" where
  "scan_conversion conv s =
     (let s = dropWhile is_space s
      in if take 1 s = ''-'' then map_option (\<lambda>n. - int n) (scan_magnitude conv (drop 1 s))
         else if take 1 s = ''+'' then map_option int (scan_magnitude conv (drop 1 s))
         else map_option int (scan_magnitude conv s))"

text \<open>\<^verbatim>\<open>sscanf\<close> up to the first conversion: its value, if the input gets that far and has one.\<close>

fun sscanf_int :: "string \<Rightarrow> string \<Rightarrow> int option" where
  "sscanf_int [] s = None"
| "sscanf_int (f # fs) s =
     (if is_space f then sscanf_int fs (dropWhile is_space s)
      else if f = CHR ''%''
      then case fs of
             [] \<Rightarrow> None
           | g # gs \<Rightarrow>
               if g = CHR ''%''
               then (case dropWhile is_space s of
                       [] \<Rightarrow> None
                     | c # cs \<Rightarrow> if c = CHR ''%'' then sscanf_int gs cs else None)
               else if g = CHR ''i'' \<or> g = CHR ''d'' then scan_conversion g s
               else None
      else case s of
             [] \<Rightarrow> None
           | c # cs \<Rightarrow> if c = f then sscanf_int fs cs else None)"

section \<open>State\<close>

record unit_data =
  ud_work_id :: string
  ud_output_url :: string
  ud_inference_url :: string
  ud_port :: int

datatype any = AnyInt int | AnyStr string | AnyUnit unit_data

record zmq_bus_com =
  zb_url :: string
  zb_exit_flage :: int
  zb_port :: int

record manager =
  um_key_sql :: "(string \<times> any) list"
  um_work_id_counter :: int
  um_port_list_start :: int
  um_port_list :: "bool list"
  um_zmq_s_format :: string
  um_zmq_c_format :: string
  um_counter_port :: int
  um_contexts :: "(nat \<times> zmq_bus_com) list"
  um_sent :: sent
  um_calls :: "(string \<times> string \<times> string) list"

text \<open>A document as simdjson gives it: \<open>sj_iterate\<close> tells whether the text starts a document, and
  \<open>sj_string\<close> is the string at a key of the top level object, if there is one.\<close>

record simdjson =
  sj_iterate :: "string \<Rightarrow> bool"
  sj_string :: "string \<Rightarrow> string \<Rightarrow> string option"

section \<open>The store of typed values\<close>

fun any_int :: "any option \<Rightarrow> int option" where
  "any_int (Some (AnyInt i)) = Some i"
| "any_int _ = None"

fun any_string :: "any option \<Rightarrow> string option" where
  "any_string (Some (AnyStr s)) = Some s"
| "any_string _ = None"

fun any_unit :: "any option \<Rightarrow> unit_data option" where
  "any_unit (Some (AnyUnit u)) = Some u"
| "any_unit _ = None"

text \<open>\<^verbatim>\<open>SAFE_READING\<close> keeps the variable when the key is missing or has another type.\<close>

definition safe_reading :: "(any option \<Rightarrow> 'a option) \<Rightarrow> string \<Rightarrow> 'a \<Rightarrow> manager \<Rightarrow> 'a" where
  "safe_reading cast key val m = (case cast (map_of (um_key_sql m) key) of Some v \<Rightarrow> v | None \<Rightarrow> val)"

definition safe_setting :: "string \<Rightarrow> any \<Rightarrow> manager \<Rightarrow> manager" where
  "safe_setting key val m = m\<lparr>um_key_sql := alist_put key val (um_key_sql m)\<rparr>"

definition safe_erase :: "string \<Rightarrow> manager \<Rightarrow> manager" where
  "safe_erase key m = m\<lparr>um_key_sql := alist_erase key (um_key_sql m)\<rparr>"

definition config_entry :: "(string \<times> json) \<Rightarrow> manager \<Rightarrow> manager" where
  "config_entry kv m =
     (case kv of
        (k, JInt i) \<Rightarrow> safe_setting k (AnyInt (to_int32 i)) m
      | (k, JFloat x) \<Rightarrow> safe_setting k (AnyInt (trunc_int x)) m
      | (k, JStr s) \<Rightarrow> safe_setting k (AnyStr s) m
      | _ \<Rightarrow> m)"

text \<open>\<open>file\<close> is the JSON value in the configuration file, if it can be opened and parsed. Keys exist
  for the members of an object only.\<close>

definition load_default_config :: "json option \<Rightarrow> manager \<Rightarrow> manager result" where
  "load_default_config file m =
     (case file of
        None \<Rightarrow> Inr m
      | Some JNull \<Rightarrow> Inr m
      | Some (JArr []) \<Rightarrow> Inr m
      | Some (JObj kvs) \<Rightarrow> Inr (fold config_entry kvs m)
      | Some _ \<Rightarrow> Inl (RuntimeError ''cannot use key() for non-object iterators''))"

definition sys_sql_select :: "string \<Rightarrow> manager \<Rightarrow> string" where
  "sys_sql_select key m = safe_reading any_string key [] m"

definition sys_sql_set :: "string \<Rightarrow> string \<Rightarrow> manager \<Rightarrow> manager" where
  "sys_sql_set key val m = safe_setting key (AnyStr val) m"

definition sys_sql_unset :: "string \<Rightarrow> manager \<Rightarrow> manager" where
  "sys_sql_unset key m = safe_erase key m"

section \<open>Units\<close>

definition allocate_zmq_port_locked :: "manager \<Rightarrow> int \<times> manager" where
  "allocate_zmq_port_locked m =
     (case find_index_of Not (um_port_list m) of
        Some i \<Rightarrow> (um_port_list_start m + int i, m\<lparr>um_port_list := (um_port_list m)[i := True]\<rparr>)
      | None \<Rightarrow> (-1, m))"

definition release_zmq_port_locked :: "int \<Rightarrow> manager \<Rightarrow> manager" where
  "release_zmq_port_locked port m =
     (let index = port - um_port_list_start m
      in if 0 \<le> index \<and> index < int (length (um_port_list m))
         then m\<lparr>um_port_list := (um_port_list m)[nat index := False]\<rparr>
         else m)"

definition parse_zmq_port :: "string \<Rightarrow> manager \<Rightarrow> int option" where
  "parse_zmq_port url m = sscanf_int (c_str (um_zmq_s_format m)) (c_str url)"

definition make_unit_zmq_url :: "string \<Rightarrow> string \<Rightarrow> int \<Rightarrow> manager \<Rightarrow> string result" where
  "make_unit_zmq_url unit sfx port m =
     (let fmt = um_zmq_s_format m;
          fmt = (if str_contains ''sock'' fmt then fmt @ ''.'' @ unit @ sfx else fmt)
      in sprintf fmt port)"

definition sys_allocate_unit :: "string \<Rightarrow> manager \<Rightarrow> unit_data option result \<times> manager" where
  "sys_allocate_unit unit m =
     (let (output_port, m) = allocate_zmq_port_locked m;
          (inference_port, m) = allocate_zmq_port_locked m
      in if output_port < 0 \<or> inference_port < 0
         then let m = (if 0 \<le> output_port then release_zmq_port_locked output_port m else m);
                  m = (if 0 \<le> inference_port then release_zmq_port_locked inference_port m else m)
              in (Inr None, m)
         else let num = um_work_id_counter m;
                  m = m\<lparr>um_work_id_counter := to_int32 (num + 1)\<rparr>;
                  work_id = unit @ ''.'' @ to_string num
              in case make_unit_zmq_url unit ''.output_url'' output_port m of
                   Inl e \<Rightarrow> (Inl e, m)
                 | Inr output_url \<Rightarrow>
                     (case make_unit_zmq_url unit ''.inference_url'' inference_port m of
                        Inl e \<Rightarrow> (Inl e, m)
                      | Inr inference_url \<Rightarrow>
                          let u = \<lparr>ud_work_id = work_id, ud_output_url = output_url,
                                   ud_inference_url = inference_url, ud_port = num\<rparr>
                          in (Inr (Some u),
                              safe_setting (work_id @ ''.out_port'') (AnyStr output_url)
                                (safe_setting work_id (AnyUnit u) m))))"

definition release_url_port :: "string \<Rightarrow> manager \<Rightarrow> manager" where
  "release_url_port url m = (case parse_zmq_port url m of Some port \<Rightarrow> release_zmq_port_locked port m | None \<Rightarrow> m)"

definition sys_release_unit :: "string \<Rightarrow> manager \<Rightarrow> int \<times> manager" where
  "sys_release_unit unit m =
     (case safe_reading (map_option Some \<circ> any_unit) unit None m of
        None \<Rightarrow> (-1, m)
      | Some u \<Rightarrow>
          (0, safe_erase (unit @ ''.out_port'') (safe_erase unit
             (release_url_port (ud_inference_url u) (release_url_port (ud_output_url u) m)))))"

section \<open>RPC calls on the registry\<close>

definition rpc_allocate_unit :: "string \<Rightarrow> manager \<Rightarrow> string result \<times> manager" where
  "rpc_allocate_unit raw m =
     (case sys_allocate_unit raw m of
        (Inl e, m) \<Rightarrow> (Inl e, m)
      | (Inr None, m) \<Rightarrow> (Inr (set_param ''-1'' (set_param [] [])), m)
      | (Inr (Some u), m) \<Rightarrow>
          (Inr (set_param (to_string (ud_port u)) (set_param (ud_output_url u) (ud_inference_url u))), m))"

definition rpc_release_unit :: "string \<Rightarrow> manager \<Rightarrow> string result \<times> manager" where
  "rpc_release_unit raw m = (Inr ''Success'', snd (sys_release_unit raw m))"

definition rpc_sql_select :: "string \<Rightarrow> manager \<Rightarrow> string result \<times> manager" where
  "rpc_sql_select raw m = (Inr (sys_sql_select raw m), m)"

definition rpc_sql_set :: "string \<Rightarrow> manager \<Rightarrow> string result \<times> manager" where
  "rpc_sql_set raw m =
     (let key = sample_json_str_get raw ''key''; val = sample_json_str_get raw ''val''
      in if key = [] then (Inr ''False'', m) else (Inr ''Success'', sys_sql_set key val m))"

definition rpc_sql_unset :: "string \<Rightarrow> manager \<Rightarrow> string result \<times> manager" where
  "rpc_sql_unset raw m = (Inr ''Success'', sys_sql_unset raw m)"

text \<open>\<^verbatim>\<open>port_list_end\<close> has no initialiser; a negative size is a huge one.\<close>

definition remote_server_work :: "manager \<Rightarrow> manager result" where
  "remote_server_work m =
     (let m = m\<lparr>um_work_id_counter := safe_reading any_int ''config_work_id'' (um_work_id_counter m) m\<rparr>;
          m = m\<lparr>um_port_list_start := safe_reading any_int ''config_zmq_min_port'' (um_port_list_start m) m\<rparr>
      in case any_int (map_of (um_key_sql m) ''config_zmq_max_port'') of
           None \<Rightarrow> Inl UndefinedBehaviour
         | Some port_list_end \<Rightarrow>
             let n = port_list_end - um_port_list_start m
             in if n < 0 then Inl LengthError
                else Inr (m\<lparr>um_port_list := take (nat n) (um_port_list m) @
                               replicate (nat n - length (um_port_list m)) False\<rparr>))"

definition all_work :: "manager \<Rightarrow> manager result" where
  "all_work m =
     (case (any_string (map_of (um_key_sql m) ''config_zmq_s_format''),
            any_string (map_of (um_key_sql m) ''config_zmq_c_format'')) of
        (Some s, Some c) \<Rightarrow> remote_server_work (m\<lparr>um_zmq_s_format := s, um_zmq_c_format := c\<rparr>)
      | _ \<Rightarrow> Inl (RuntimeError ''bad any_cast''))"

section \<open>Messages of a client\<close>

text \<open>The local buffer for the URL has 128 characters.\<close>

definition client_url :: "int \<Rightarrow> manager \<Rightarrow> string result" where
  "client_url com_id m =
     (case sprintf (um_zmq_c_format m) com_id of
        Inl e \<Rightarrow> Inl e
      | Inr url \<Rightarrow> if length url < 128 then Inr url else Inl UndefinedBehaviour)"

definition zmq_com_send :: "int \<Rightarrow> string \<Rightarrow> manager \<Rightarrow> unit result \<times> manager" where
  "zmq_com_send com_id out_str m =
     (case client_url com_id m of
        Inl e \<Rightarrow> (Inl e, m)
      | Inr url \<Rightarrow> (Inr (), m\<lparr>um_sent := um_sent m @ [(url, out_str @ [CHR 0x0A])]\<rparr>))"

definition usr_print_error ::
  "json_text \<Rightarrow> int \<Rightarrow> string \<Rightarrow> string \<Rightarrow> json \<Rightarrow> int \<Rightarrow> manager \<Rightarrow> unit result \<times> manager" where
  "usr_print_error jt created request_id work_id err zmq_out m =
     zmq_com_send zmq_out (jt_dump jt (reply_body created request_id work_id ''None'' (JStr ''None'') err)) m"

definition log_level :: int where
  "log_level = 6"

definition SAMPLE_LOG_WARN :: int where
  "SAMPLE_LOG_WARN = 4"

definition send_msg :: "string \<Rightarrow> unit_data \<Rightarrow> manager \<Rightarrow> manager" where
  "send_msg json_str u m = m\<lparr>um_sent := um_sent m @ [(ud_inference_url u, json_str)]\<rparr>"

text \<open>The \<^verbatim>\<open>else\<close> that follows the second log call belongs to the \<^verbatim>\<open>if\<close> inside that macro.\<close>

definition zmq_bus_publisher_push :: "string \<Rightarrow> string \<Rightarrow> manager \<Rightarrow> int \<times> manager" where
  "zmq_bus_publisher_push work_id json_str m =
     (if work_id = [] then (-1, m)
      else let m = (case safe_reading (map_option Some \<circ> any_unit) work_id None m of
                      Some u \<Rightarrow> send_msg json_str u m
                    | None \<Rightarrow> m)
           in if SAMPLE_LOG_WARN \<le> log_level then (0, m) else (-1, m))"

text \<open>\<open>connect\<close> is what opening the RPC socket of another unit returns.\<close>

definition remote_call ::
  "simdjson \<Rightarrow> (string \<Rightarrow> int) \<Rightarrow> int \<Rightarrow> string \<Rightarrow> manager \<Rightarrow> int result \<times> manager" where
  "remote_call sj connect com_id json_str m =
     (let work_id = (case sj_string sj json_str ''work_id'' of Some w \<Rightarrow> w | None \<Rightarrow> []);
          work_unit = sample_get_work_id_name work_id;
          action = (case sj_string sj json_str ''action'' of Some a \<Rightarrow> a | None \<Rightarrow> [])
      in if work_id = [] \<or> action = []
         then (Inl (RuntimeError ''Invalid JSON: missing work_id or action''), m)
         else case sprintf (um_zmq_c_format m) com_id of
                Inl e \<Rightarrow> (Inl e, m)
              | Inr url \<Rightarrow>
                  if work_unit = [] then (Inr (-1), m)
                  else if connect work_unit \<noteq> 0 then (Inr (connect work_unit), m)
                  else (Inr 0, m\<lparr>um_calls := um_calls m @
                          [(work_unit, action, set_param (take 254 url) json_str)]\<rparr>))"

fun fragments_loop :: "string \<Rightarrow> string \<Rightarrow> string list" where
  "fragments_loop fragment [] = (if fragment = [] then [] else [fragment])"
| "fragments_loop fragment (c # cs) =
     (if c \<noteq> CHR ''.'' then fragments_loop (fragment @ [c]) cs
      else fragment # fragments_loop [] cs)"

text \<open>The text that goes to the unit: the client's address in front of the members of the request.\<close>

definition inference_raw_data :: "string \<Rightarrow> string \<Rightarrow> string" where
  "inference_raw_data zmq_push_url json_str =
     [CHR 0x7B, quote_char] @ ''zmq_com'' @ [quote_char, CHR '':'', quote_char] @ zmq_push_url @
     [quote_char, CHR '',''] @ drop 1 json_str"

definition push_inference ::
  "json_text \<Rightarrow> int \<Rightarrow> int \<Rightarrow> string \<Rightarrow> string \<Rightarrow> string \<Rightarrow> manager \<Rightarrow> unit result \<times> manager" where
  "push_inference jt created com_id request_id work_id json_str m =
     (case client_url com_id m of
        Inl e \<Rightarrow> (Inl e, m)
      | Inr url \<Rightarrow>
          if json_str = [] then (Inl UndefinedBehaviour, m)
          else let (ret, m) = zmq_bus_publisher_push work_id (inference_raw_data url json_str) m
               in if ret \<noteq> 0
                  then usr_print_error jt created request_id work_id (error_object (-4) ''inference data push false'') com_id m
                  else (Inr (), m))"

definition call_unit ::
  "json_text \<Rightarrow> simdjson \<Rightarrow> (string \<Rightarrow> int) \<Rightarrow> int \<Rightarrow> int \<Rightarrow> string \<Rightarrow> string \<Rightarrow> string \<Rightarrow> manager
     \<Rightarrow> unit result \<times> manager" where
  "call_unit jt sj connect created com_id request_id work_id json_str m =
     (case fragments_loop [] work_id of
        [] \<Rightarrow> (Inl UndefinedBehaviour, m)
      | f # _ \<Rightarrow>
          if f = [] then (Inr (), m)
          else case remote_call sj connect com_id json_str m of
                 (Inl e, m) \<Rightarrow> (Inl e, m)
               | (Inr ret, m) \<Rightarrow>
                   if ret \<noteq> 0
                   then usr_print_error jt created request_id work_id (error_object (-9) ''unit call false'') com_id m
                   else (Inr (), m))"

definition unit_action_match ::
  "json_text \<Rightarrow> simdjson \<Rightarrow> (string \<Rightarrow> int) \<Rightarrow> int \<Rightarrow> int \<Rightarrow> string \<Rightarrow> manager \<Rightarrow> unit result \<times> manager" where
  "unit_action_match jt sj connect created com_id json_str m =
     (let bad = usr_print_error jt created ''0'' ''sys'' (error_object (-2) ''json format error'') com_id m
      in if \<not> sj_iterate sj json_str then bad
         else case sj_string sj json_str ''request_id'' of
                None \<Rightarrow> bad
              | Some request_id \<Rightarrow>
                  (case sj_string sj json_str ''work_id'' of
                     None \<Rightarrow> bad
                   | Some w \<Rightarrow>
                       let work_id = (if w = [] then ''sys'' else w)
                       in case sj_string sj json_str ''action'' of
                            None \<Rightarrow> bad
                          | Some action \<Rightarrow>
                              if action = ''inference''
                              then push_inference jt created com_id request_id work_id json_str m
                              else call_unit jt sj connect created com_id request_id work_id json_str m))"

section \<open>Sessions of TCP clients\<close>

definition bus_work :: "string \<Rightarrow> int \<Rightarrow> zmq_bus_com result" where
  "bus_work zmq_url_format port =
     (case sprintf zmq_url_format port of
        Inl e \<Rightarrow> Inl e
      | Inr url \<Rightarrow> Inr \<lparr>zb_url = url, zb_exit_flage = 1, zb_port = port\<rparr>)"

definition bus_stop :: "zmq_bus_com \<Rightarrow> zmq_bus_com" where
  "bus_stop z = z\<lparr>zb_exit_flage := 0\<rparr>"

definition select_json_str :: "string \<Rightarrow> string" where
  "select_json_str json_src =
     (if json_src \<noteq> [] \<and> last json_src = CHR 0x0A then butlast json_src else json_src)"

text \<open>A connection is named by a number; its context is the session.\<close>

definition onConnection :: "nat \<Rightarrow> bool \<Rightarrow> manager \<Rightarrow> unit result \<times> manager" where
  "onConnection conn up m =
     (if up
      then let port = um_counter_port m;
               next = port + 1;
               m = m\<lparr>um_counter_port := (if 65535 < next then 8000 else next)\<rparr>
           in case bus_work (um_zmq_s_format m) port of
                Inl e \<Rightarrow> (Inl e, m)
              | Inr z \<Rightarrow> (Inr (), m\<lparr>um_contexts := alist_put conn z (um_contexts m)\<rparr>)
      else case map_of (um_contexts m) conn of
             None \<Rightarrow> (Inl (RuntimeError ''boost::bad_any_cast''), m)
           | Some z \<Rightarrow> (Inr (), m\<lparr>um_contexts := alist_put conn (bus_stop z) (um_contexts m)\<rparr>))"

definition onMessage ::
  "json_text \<Rightarrow> simdjson \<Rightarrow> (string \<Rightarrow> int) \<Rightarrow> int \<Rightarrow> nat \<Rightarrow> string \<Rightarrow> manager \<Rightarrow> unit result \<times> manager" where
  "onMessage jt sj connect created conn msg m =
     (case map_of (um_contexts m) conn of
        None \<Rightarrow> (Inr (), m)
      | Some z \<Rightarrow> unit_action_match jt sj connect created (zb_port z) (select_json_str msg) m)"

text \<open>The pull socket of a session hands what arrives at its URL to the connection.\<close>

definition session_receive :: "string \<times> string \<Rightarrow> manager \<Rightarrow> (nat \<times> string) list" where
  "session_receive msg m =
     map (\<lambda>(conn, z). (conn, snd msg)) (filter (\<lambda>(conn, z). zb_exit_flage z \<noteq> 0 \<and> zb_url z = fst msg) (um_contexts m))"

section \<open>The registry\<close>

text \<open>A format for URLs that can be printed and read back: one \<^verbatim>\<open>%i\<close> between texts that a format
  copies, and no digit after it.\<close>

definition plain_char :: "char \<Rightarrow> bool" where
  "plain_char c \<longleftrightarrow> c \<noteq> CHR ''%'' \<and> c \<noteq> CHR 0x00 \<and> \<not> is_space c"

definition good_format :: "string \<Rightarrow> string \<Rightarrow> string \<Rightarrow> bool" where
  "good_format fmt pre post \<longleftrightarrow>
     fmt = pre @ ''%i'' @ post \<and> list_all plain_char pre \<and> list_all plain_char post \<and>
     (post = [] \<or> char_digit (hd post) = None)"

definition name_ok :: "string \<Rightarrow> bool" where
  "name_ok name \<longleftrightarrow> list_all (\<lambda>c. c \<noteq> CHR ''%'' \<and> c \<noteq> CHR 0x00) name"

definition unit_at :: "manager \<Rightarrow> string \<Rightarrow> unit_data option" where
  "unit_at m k = any_unit (map_of (um_key_sql m) k)"

text \<open>The ports of a unit, as a release finds them.\<close>

definition unit_ports :: "manager \<Rightarrow> unit_data \<Rightarrow> int set" where
  "unit_ports m u = {p. parse_zmq_port (ud_output_url u) m = Some p \<or> parse_zmq_port (ud_inference_url u) m = Some p}"

definition port_in_range :: "manager \<Rightarrow> int \<Rightarrow> bool" where
  "port_in_range m p \<longleftrightarrow> um_port_list_start m \<le> p \<and> p < um_port_list_start m + int (length (um_port_list m))"

definition unit_entry_ok :: "manager \<Rightarrow> string \<Rightarrow> unit_data \<Rightarrow> bool" where
  "unit_entry_ok m k u \<longleftrightarrow>
     (\<exists>p q. p \<noteq> q \<and> parse_zmq_port (ud_output_url u) m = Some p \<and> parse_zmq_port (ud_inference_url u) m = Some q \<and>
        port_in_range m p \<and> port_in_range m q) \<and>
     (\<exists>name. k = name @ ''.'' @ to_string (ud_port u)) \<and> ud_work_id u = k \<and>
     0 \<le> ud_port u \<and> ud_port u < um_work_id_counter m \<and>
     map_of (um_key_sql m) (k @ ''.out_port'') = Some (AnyStr (ud_output_url u))"

definition registry_ok :: "manager \<Rightarrow> bool" where
  "registry_ok m \<longleftrightarrow>
     0 < um_port_list_start m \<and> 0 \<le> um_work_id_counter m \<and> (\<exists>pre post. good_format (um_zmq_s_format m) pre post) \<and>
     (\<forall>k u. unit_at m k = Some u \<longrightarrow> unit_entry_ok m k u) \<and>
     (\<forall>k k' u u'. unit_at m k = Some u \<and> unit_at m k' = Some u' \<and> k \<noteq> k' \<longrightarrow>
        ud_port u \<noteq> ud_port u' \<and> unit_ports m u \<inter> unit_ports m u' = {}) \<and>
     (\<forall>i < length (um_port_list m).
        um_port_list m ! i \<longleftrightarrow> (\<exists>k u. unit_at m k = Some u \<and> um_port_list_start m + int i \<in> unit_ports m u))"

datatype registry_op =
    RegisterUnit string
  | ReleaseUnit string
  | SqlSet string string
  | SqlUnset string

fun registry_step :: "registry_op \<Rightarrow> manager \<Rightarrow> manager" where
  "registry_step (RegisterUnit unit) m = snd (rpc_allocate_unit unit m)"
| "registry_step (ReleaseUnit k) m = snd (rpc_release_unit k m)"
| "registry_step (SqlSet k v) m = sys_sql_set k v m"
| "registry_step (SqlUnset k) m = sys_sql_unset k m"

definition registry_run :: "registry_op list \<Rightarrow> manager \<Rightarrow> manager" where
  "registry_run ops m = fold registry_step ops m"

text \<open>Keys of live units and of their output URLs.\<close>

definition unit_key :: "manager \<Rightarrow> string \<Rightarrow> bool" where
  "unit_key m key \<longleftrightarrow> (\<exists>k u. unit_at m k = Some u \<and> (key = k \<or> key = k @ ''.out_port''))"

text \<open>The calls leave the entries of live units to the registry, names can be printed, and the counter of
  work ids does not wrap.\<close>

fun well_behaved :: "registry_op list \<Rightarrow> manager \<Rightarrow> bool" where
  "well_behaved [] m = True"
| "well_behaved (x # xs) m =
     ((case x of
         RegisterUnit unit \<Rightarrow> name_ok unit \<and> um_work_id_counter m < INT_MAX
       | ReleaseUnit _ \<Rightarrow> True
       | SqlSet key _ \<Rightarrow> \<not> unit_key m key
       | SqlUnset key \<Rightarrow> \<not> unit_key m key) \<and> well_behaved xs (registry_step x m))"

section \<open>Printing and reading URLs\<close>

lemma sprintf_int_plain: "list_all (\<lambda>c. c \<noteq> CHR ''%'') s \<Longrightarrow> sprintf_int s arg = Inr s"
  by (induction s) auto

lemma sprintf_int_append:
  "list_all (\<lambda>c. c \<noteq> CHR ''%'') pre \<Longrightarrow> sprintf_int (pre @ rest) arg = map_sum (\<lambda>e. e) ((@) pre) (sprintf_int rest arg)"
proof (induction pre)
  case Nil
  then show ?case by (cases "sprintf_int rest arg") simp_all
next
  case (Cons c pre)
  then show ?case by (cases "sprintf_int rest arg") simp_all
qed

lemma plain_char_all: "list_all plain_char s \<Longrightarrow> list_all (\<lambda>c. c \<noteq> CHR ''%'') s \<and> list_all (\<lambda>c. c \<noteq> CHR 0x00) s"
  by (auto simp: plain_char_def list_all_iff)

lemma name_ok_all: "name_ok s \<longleftrightarrow> list_all (\<lambda>c. c \<noteq> CHR ''%'') s \<and> list_all (\<lambda>c. c \<noteq> CHR 0x00) s"
  by (auto simp: name_ok_def list_all_iff)

lemma c_str_plain: "list_all (\<lambda>c. c \<noteq> CHR 0x00) s \<Longrightarrow> c_str s = s"
  by (simp add: c_str_def list_all_iff)

lemma sprintf_format:
  assumes "list_all plain_char pre" and "name_ok rest"
  shows "sprintf (pre @ ''%i'' @ rest) i = Inr (pre @ to_string i @ rest)"
proof -
  have "c_str (pre @ ''%i'' @ rest) = pre @ ''%i'' @ rest"
    using assms plain_char_all [of pre] by (intro c_str_plain) (simp add: name_ok_all)
  then show ?thesis
    using assms plain_char_all [of pre] sprintf_int_plain [of rest None]
    by (simp add: sprintf_def sprintf_int_append name_ok_all)
qed

lemma sscanf_literal: "list_all plain_char pre \<Longrightarrow> sscanf_int (pre @ fs) (pre @ s) = sscanf_int fs s"
  by (induction pre) (auto simp: plain_char_def)

lemma string_of_nat_hd_pos: "0 < n \<Longrightarrow> \<exists>d cs. 0 < d \<and> d < 10 \<and> string_of_nat n = digit_char d # cs"
proof (induction n rule: string_of_nat.induct)
  case (1 n)
  show ?case
  proof (cases "n < 10")
    case True
    then show ?thesis using "1.prems" by (auto simp: string_of_nat_small)
  next
    case False
    then obtain d cs where "0 < d" "d < 10" "string_of_nat (n div 10) = digit_char d # cs"
      using "1.IH" by (auto simp: div_greater_zero_iff)
    with False show ?thesis by (auto simp: string_of_nat_big)
  qed
qed

lemma unsigned_prefix_rest:
  assumes "rest = [] \<or> char_digit (hd rest) = None"
  shows "unsigned_prefix (string_of_nat n @ rest) = Some n"
proof -
  have "digits_value 0 (string_of_nat n @ rest) = digits_value (digits_value 0 (string_of_nat n)) rest"
    by (rule digits_value_append) (metis char_digit_digit_char option.distinct(1) string_of_nat_digits)
  also have "\<dots> = n" using assms by (cases rest) (simp_all add: digits_value_string_of_nat)
  finally show ?thesis
    using string_of_nat_hd [of n] by (auto simp: unsigned_prefix_def)
qed

lemma digit_char_not_zero: "0 < d \<Longrightarrow> d < 10 \<Longrightarrow> digit_char d \<noteq> CHR ''0''"
proof
  assume "0 < d" "d < 10" "digit_char d = CHR ''0''"
  then have "of_char (digit_char d) = (48::nat)" by simp
  with \<open>0 < d\<close> \<open>d < 10\<close> show False by (simp add: digit_char_def)
qed

lemma scan_to_string:
  assumes "0 < p" and "rest = [] \<or> char_digit (hd rest) = None"
  shows "scan_conversion (CHR ''i'') (to_string p @ rest) = Some p"
proof -
  obtain d cs where h: "0 < d" "d < 10" "string_of_nat (nat p) = digit_char d # cs"
    using string_of_nat_hd_pos [of "nat p"] assms(1) by auto
  have "unsigned_prefix (digit_char d # cs @ rest) = Some (nat p)"
    using unsigned_prefix_rest [OF assms(2), of "nat p"] h(3) by simp
  then show ?thesis
    using assms(1) h
    by (simp add: scan_conversion_def scan_magnitude_def to_string_def digit_char_not_space digit_char_not_minus
        digit_char_not_plus digit_char_not_zero)
qed

text \<open>The URL of a unit for a port, and the port that is read back from it.\<close>

lemma unit_url:
  assumes "good_format (um_zmq_s_format m) pre post" and "name_ok unit" and "name_ok sfx"
  shows "\<exists>rest. name_ok rest \<and> (rest = [] \<or> char_digit (hd rest) = None) \<and>
    (\<forall>p. make_unit_zmq_url unit sfx p m = Inr (pre @ to_string p @ rest))"
proof -
  have f: "um_zmq_s_format m = pre @ ''%i'' @ post" "list_all plain_char pre" "name_ok post"
    using assms(1) plain_char_all [of post] by (auto simp: good_format_def name_ok_all)
  show ?thesis
  proof (cases "str_contains ''sock'' (um_zmq_s_format m)")
    case True
    have n: "name_ok (post @ ''.'' @ unit @ sfx)" using f(3) assms(2,3) by (simp add: name_ok_def)
    have "make_unit_zmq_url unit sfx p m = Inr (pre @ to_string p @ post @ ''.'' @ unit @ sfx)" for p
      using sprintf_format [OF f(2) n, of p] True by (simp add: make_unit_zmq_url_def f(1))
    moreover have "char_digit (hd (post @ ''.'' @ unit @ sfx)) = None"
      using assms(1) by (cases post) (auto simp: good_format_def char_digit_def)
    ultimately show ?thesis using n by blast
  next
    case False
    have "make_unit_zmq_url unit sfx p m = Inr (pre @ to_string p @ post)" for p
      using sprintf_format [OF f(2,3), of p] False by (simp add: make_unit_zmq_url_def f(1))
    then show ?thesis using assms(1) f(3) by (auto simp: good_format_def)
  qed
qed

lemma to_string_no_nul: "list_all (\<lambda>c. c \<noteq> CHR 0x00) (to_string i)"
proof -
  have nd: "digit_char d \<noteq> CHR 0x00" if "d < 10" for d
  proof
    assume "digit_char d = CHR 0x00"
    then have "of_char (digit_char d) = (0::nat)" by simp
    with \<open>d < 10\<close> show False by (simp add: digit_char_def)
  qed
  have "c \<noteq> CHR 0x00" if "c \<in> set (to_string i)" for c
    using to_string_chars [OF that]
  proof (elim disjE exE conjE)
    fix d assume "d < 10" "c = digit_char d"
    show ?thesis unfolding \<open>c = digit_char d\<close> by (rule nd [OF \<open>d < 10\<close>])
  qed simp
  then show ?thesis by (simp add: list_all_iff)
qed

lemma parse_url:
  assumes "good_format (um_zmq_s_format m) pre post" and "0 < p" and "name_ok rest"
    and "rest = [] \<or> char_digit (hd rest) = None"
  shows "parse_zmq_port (pre @ to_string p @ rest) m = Some p"
proof -
  have f: "um_zmq_s_format m = pre @ ''%i'' @ post" "list_all plain_char pre" "list_all plain_char post"
    using assms(1) by (auto simp: good_format_def)
  have "c_str (um_zmq_s_format m) = pre @ ''%i'' @ post"
    unfolding f(1) using plain_char_all [OF f(2)] plain_char_all [OF f(3)] by (intro c_str_plain) simp
  moreover have "c_str (pre @ to_string p @ rest) = pre @ to_string p @ rest"
    using plain_char_all [OF f(2)] assms(3) to_string_no_nul [of p] by (intro c_str_plain) (simp add: name_ok_all)
  moreover have "sscanf_int (''%i'' @ post) (to_string p @ rest) = scan_conversion (CHR ''i'') (to_string p @ rest)"
    by (simp add: is_space_def)
  ultimately show ?thesis
    unfolding parse_zmq_port_def by (simp only: sscanf_literal [OF f(2)] scan_to_string [OF assms(2,4)])
qed

lemma make_parse_url:
  assumes "good_format (um_zmq_s_format m) pre post" and "0 < p" and "name_ok unit" and "name_ok sfx"
  shows "\<exists>url. make_unit_zmq_url unit sfx p m = Inr url \<and> parse_zmq_port url m = Some p"
  using unit_url [OF assms(1,3,4)] parse_url [OF assms(1,2)] by blast

section \<open>Ports\<close>

lemma filter_Not_update:
  "i < length ps \<Longrightarrow> \<not> ps ! i \<Longrightarrow> length (filter Not ps) = Suc (length (filter Not (ps[i := True])))"
proof (induction ps arbitrary: i)
  case (Cons p ps)
  then show ?case by (cases i) auto
qed simp

lemma allocate_port:
  shows "find_index_of Not (um_port_list m) = None \<Longrightarrow>
      allocate_zmq_port_locked m = (-1, m) \<and> filter Not (um_port_list m) = []"
    and "find_index_of Not (um_port_list m) = Some i \<Longrightarrow>
      allocate_zmq_port_locked m = (um_port_list_start m + int i, m\<lparr>um_port_list := (um_port_list m)[i := True]\<rparr>) \<and>
      i < length (um_port_list m) \<and> \<not> um_port_list m ! i"
  using find_index_of_Some [of Not "um_port_list m" i] find_index_of_None [of Not "um_port_list m"]
  by (auto simp: allocate_zmq_port_locked_def)

text \<open>The state after a successful registration that takes the table's entries \<open>i\<close> and \<open>j\<close>.\<close>

definition registered :: "string \<Rightarrow> nat \<Rightarrow> nat \<Rightarrow> unit_data \<Rightarrow> manager \<Rightarrow> manager" where
  "registered k i j u m =
     m\<lparr>um_port_list := (um_port_list m)[i := True, j := True], um_work_id_counter := to_int32 (um_work_id_counter m + 1),
       um_key_sql := alist_put (k @ ''.out_port'') (AnyStr (ud_output_url u)) (alist_put k (AnyUnit u) (um_key_sql m))\<rparr>"

lemma allocate_unit_fails:
  assumes "0 < um_port_list_start m" and "length (filter Not (um_port_list m)) < 2"
  shows "sys_allocate_unit unit m = (Inr None, m)"
proof (cases "find_index_of Not (um_port_list m)")
  case None
  then show ?thesis using allocate_port(1) [OF None] by (simp add: sys_allocate_unit_def)
next
  case (Some i)
  let ?m = "m\<lparr>um_port_list := (um_port_list m)[i := True]\<rparr>"
  note a = allocate_port(2) [OF Some]
  have "filter Not (um_port_list ?m) = []"
    using filter_Not_update [of i "um_port_list m"] a assms(2) by auto
  then have "find_index_of Not (um_port_list ?m) = None"
    by (simp add: find_index_of_None filter_empty_conv)
  then have b: "allocate_zmq_port_locked ?m = (-1, ?m)" using allocate_port(1) [of ?m] by blast
  have "(um_port_list m)[i := False] = um_port_list m"
    using a by (simp add: list_update_same_conv)
  then have "release_zmq_port_locked (um_port_list_start m + int i) ?m = m"
    using a by (simp add: release_zmq_port_locked_def)
  then show ?thesis using a b assms(1) by (simp add: sys_allocate_unit_def)
qed

lemma allocate_unit_succeeds:
  assumes "0 < um_port_list_start m" and "2 \<le> length (filter Not (um_port_list m))"
    and "good_format (um_zmq_s_format m) pre post" and "name_ok unit"
  obtains i j u where "i \<noteq> j" "i < length (um_port_list m)" "j < length (um_port_list m)"
    "\<not> um_port_list m ! i" "\<not> um_port_list m ! j"
    "parse_zmq_port (ud_output_url u) m = Some (um_port_list_start m + int i)"
    "parse_zmq_port (ud_inference_url u) m = Some (um_port_list_start m + int j)"
    "ud_work_id u = unit @ ''.'' @ to_string (um_work_id_counter m)" "ud_port u = um_work_id_counter m"
    "sys_allocate_unit unit m = (Inr (Some u), registered (ud_work_id u) i j u m)"
    "make_unit_zmq_url unit ''.output_url'' (um_port_list_start m + int i) m = Inr (ud_output_url u)"
proof -
  obtain i where fi: "find_index_of Not (um_port_list m) = Some i"
    using allocate_port(1) [of m] assms(2) by fastforce
  note i = allocate_port(2) [OF fi]
  let ?m = "m\<lparr>um_port_list := (um_port_list m)[i := True]\<rparr>"
  have "filter Not (um_port_list ?m) \<noteq> []"
    using filter_Not_update [of i "um_port_list m"] i assms(2) by auto
  then obtain j where fj: "find_index_of Not (um_port_list ?m) = Some j"
    using allocate_port(1) [of ?m] by fastforce
  note j = allocate_port(2) [OF fj]
  have ij: "i \<noteq> j" "j < length (um_port_list m)" "\<not> um_port_list m ! j"
    using i j by (auto simp: nth_list_update split: if_splits)
  let ?m3 = "m\<lparr>um_port_list := (um_port_list m)[i := True, j := True],
    um_work_id_counter := to_int32 (um_work_id_counter m + 1)\<rparr>"
  have mk: "make_unit_zmq_url unit sfx p ?m3 = make_unit_zmq_url unit sfx p m" for sfx p
    by (simp add: make_unit_zmq_url_def)
  have n: "name_ok ''.output_url''" "name_ok ''.inference_url''" by (simp_all add: name_ok_def)
  obtain ou where ou: "make_unit_zmq_url unit ''.output_url'' (um_port_list_start m + int i) m = Inr ou"
      "parse_zmq_port ou m = Some (um_port_list_start m + int i)"
    using make_parse_url [OF assms(3) _ assms(4) n(1), of "um_port_list_start m + int i"] assms(1) by auto
  obtain iu where iu: "make_unit_zmq_url unit ''.inference_url'' (um_port_list_start m + int j) m = Inr iu"
      "parse_zmq_port iu m = Some (um_port_list_start m + int j)"
    using make_parse_url [OF assms(3) _ assms(4) n(2), of "um_port_list_start m + int j"] assms(1) by auto
  define u where "u = \<lparr>ud_work_id = unit @ ''.'' @ to_string (um_work_id_counter m), ud_output_url = ou,
    ud_inference_url = iu, ud_port = um_work_id_counter m\<rparr>"
  have "sys_allocate_unit unit m = (Inr (Some u), registered (ud_work_id u) i j u m)"
    using assms(1) i j ou(1) iu(1) mk
    by (simp add: sys_allocate_unit_def u_def registered_def safe_setting_def Let_def)
  then show thesis
    using that [of i j u] i ij ou iu(2) by (simp add: u_def)
qed

section \<open>Keys of units\<close>

lemma work_id_number: "a @ ''.'' @ to_string i = b @ ''.'' @ to_string j \<Longrightarrow> i = j"
proof -
  have tw: "takeWhile (\<lambda>c. c \<noteq> CHR ''.'') (rev (a @ ''.'' @ to_string i)) = rev (to_string i)" for a i
  proof -
    have "takeWhile (\<lambda>c. c \<noteq> CHR ''.'') (rev (to_string i) @ CHR ''.'' # rev a) = rev (to_string i)"
      using dot_notin_to_string [of i] by (subst takeWhile_append2) auto
    then show ?thesis by simp
  qed
  assume "a @ ''.'' @ to_string i = b @ ''.'' @ to_string j"
  then have "rev (to_string i) = rev (to_string j)" using tw [of a i] tw [of b j] by simp
  then show "i = j" using to_string_inj by simp
qed

lemma out_port_key: "name @ ''.'' @ to_string i \<noteq> k @ ''.out_port''"
proof
  assume "name @ ''.'' @ to_string i = k @ ''.out_port''"
  then have "last (name @ ''.'' @ to_string i) = last (k @ ''.out_port'')" by (rule arg_cong)
  then have l: "last (to_string i) = CHR ''t''" by simp
  have "last (to_string i) \<in> set (to_string i)" by simp
  from to_string_chars [OF this] show False
  proof (elim disjE exE conjE)
    fix d assume "d < 10" "last (to_string i) = digit_char d"
    then have "digit_char d = CHR ''t''" using l by (simp only:)
    then have "of_char (digit_char d) = (of_char (CHR ''t'') :: nat)" by (rule arg_cong)
    then show False using \<open>d < 10\<close> by (simp add: digit_char_def)
  qed (use l in simp)
qed

lemma unit_ports_pair:
  "parse_zmq_port (ud_output_url u) m = Some p \<Longrightarrow> parse_zmq_port (ud_inference_url u) m = Some q \<Longrightarrow>
   unit_ports m u = {p, q}"
  by (auto simp: unit_ports_def)

lemma parse_cong: "um_zmq_s_format m' = um_zmq_s_format m \<Longrightarrow> parse_zmq_port url m' = parse_zmq_port url m"
  by (simp add: parse_zmq_port_def)

lemma unit_ports_cong: "um_zmq_s_format m' = um_zmq_s_format m \<Longrightarrow> unit_ports m' u = unit_ports m u"
  by (simp add: unit_ports_def parse_zmq_port_def)

lemma registry_unitD:
  assumes "registry_ok m" and "unit_at m k = Some u"
  shows "\<exists>p q. p \<noteq> q \<and> parse_zmq_port (ud_output_url u) m = Some p \<and> parse_zmq_port (ud_inference_url u) m = Some q \<and>
      port_in_range m p \<and> port_in_range m q \<and> unit_ports m u = {p, q}"
    and "\<exists>name. k = name @ ''.'' @ to_string (ud_port u)" and "0 \<le> ud_port u" and "ud_port u < um_work_id_counter m"
    and "map_of (um_key_sql m) (k @ ''.out_port'') = Some (AnyStr (ud_output_url u))" and "ud_work_id u = k"
proof -
  have ok: "unit_entry_ok m k u" using assms by (simp add: registry_ok_def)
  then obtain p q where "p \<noteq> q" "parse_zmq_port (ud_output_url u) m = Some p"
      "parse_zmq_port (ud_inference_url u) m = Some q" "port_in_range m p" "port_in_range m q"
    by (auto simp: unit_entry_ok_def)
  then show "\<exists>p q. p \<noteq> q \<and> parse_zmq_port (ud_output_url u) m = Some p \<and> parse_zmq_port (ud_inference_url u) m = Some q \<and>
      port_in_range m p \<and> port_in_range m q \<and> unit_ports m u = {p, q}"
    using unit_ports_pair by blast
qed (use assms in \<open>auto simp: registry_ok_def unit_entry_ok_def\<close>)

lemma registry_port_taken:
  assumes "registry_ok m" and "unit_at m k = Some u" and "p \<in> unit_ports m u"
  obtains i where "i < length (um_port_list m)" "p = um_port_list_start m + int i" "um_port_list m ! i"
proof -
  have r: "port_in_range m p" using registry_unitD(1) [OF assms(1,2)] assms(3) by auto
  define i where "i = nat (p - um_port_list_start m)"
  have i: "i < length (um_port_list m)" "p = um_port_list_start m + int i"
    using r by (auto simp: port_in_range_def i_def)
  then have "um_port_list m ! i" using assms by (auto simp: registry_ok_def)
  then show thesis using that i by blast
qed

lemma registry_unit_unique:
  "registry_ok m \<Longrightarrow> unit_at m k = Some u \<Longrightarrow> unit_at m k' = Some u' \<Longrightarrow> k \<noteq> k' \<Longrightarrow>
   ud_port u \<noteq> ud_port u' \<and> unit_ports m u \<inter> unit_ports m u' = {}"
  by (simp add: registry_ok_def)

lemma out_port_not_unit: "registry_ok m \<Longrightarrow> unit_at m (k @ ''.out_port'') = None"
proof (cases "unit_at m (k @ ''.out_port'')")
  case (Some u)
  assume ok: "registry_ok m"
  obtain name where "k @ ''.out_port'' = name @ ''.'' @ to_string (ud_port u)"
    using registry_unitD(2) [OF ok Some] by (elim exE)
  then show ?thesis using out_port_key [of name "ud_port u" k] by (simp only:)
qed

lemma fresh_key: "registry_ok m \<Longrightarrow> unit_at m (unit @ ''.'' @ to_string (um_work_id_counter m)) = None"
proof (cases "unit_at m (unit @ ''.'' @ to_string (um_work_id_counter m))")
  case (Some u)
  assume ok: "registry_ok m"
  obtain name where "unit @ ''.'' @ to_string (um_work_id_counter m) = name @ ''.'' @ to_string (ud_port u)"
    using registry_unitD(2) [OF ok Some] by (elim exE)
  then have "um_work_id_counter m = ud_port u" by (rule work_id_number)
  then show ?thesis using registry_unitD(4) [OF ok Some] by simp
qed simp

section \<open>The registry stays consistent\<close>

lemma unit_at_registered:
  assumes "registry_ok m"
  shows "unit_at (registered k i j u m) x = (if x = k then Some u else unit_at m x)"
  using out_port_not_unit [OF assms, of k] by (simp add: unit_at_def registered_def map_of_alist_put)

lemma registered_frame [simp]:
  "um_zmq_s_format (registered k i j u m) = um_zmq_s_format m"
  "um_port_list_start (registered k i j u m) = um_port_list_start m"
  "um_port_list (registered k i j u m) = (um_port_list m)[i := True, j := True]"
  "parse_zmq_port url (registered k i j u m) = parse_zmq_port url m"
  "unit_ports (registered k i j u m) v = unit_ports m v"
  "port_in_range (registered k i j u m) p = port_in_range m p"
  "um_work_id_counter (registered k i j u m) = to_int32 (um_work_id_counter m + 1)"
  by (simp_all add: registered_def parse_zmq_port_def unit_ports_def port_in_range_def)

lemma registered_entries:
  assumes ok: "registry_ok m" and k: "k = unit @ ''.'' @ to_string (ud_port u)" "ud_work_id u = k"
    and num: "ud_port u = um_work_id_counter m" "um_work_id_counter m < INT_MAX"
    and ij: "i \<noteq> j" "i < length (um_port_list m)" "j < length (um_port_list m)"
    and out: "parse_zmq_port (ud_output_url u) m = Some (um_port_list_start m + int i)"
    and inference: "parse_zmq_port (ud_inference_url u) m = Some (um_port_list_start m + int j)"
    and x: "unit_at (registered k i j u m) x = Some v"
  shows "unit_entry_ok (registered k i j u m) x v"
proof -
  have c: "to_int32 (um_work_id_counter m + 1) = um_work_id_counter m + 1" "0 \<le> um_work_id_counter m"
    using ok num(2) by (auto simp: to_int32_def registry_ok_def INT_MAX_def)
  have sql: "map_of (um_key_sql (registered k i j u m)) y =
      (if y = k @ ''.out_port'' then Some (AnyStr (ud_output_url u)) else if y = k then Some (AnyUnit u)
       else map_of (um_key_sql m) y)" for y
    by (simp add: registered_def map_of_alist_put)
  show ?thesis
  proof (cases "x = k")
    case True
    then have "v = u" using x by (simp add: unit_at_registered [OF ok])
    have "\<exists>name. k = name @ ''.'' @ to_string (ud_port u)" using k(1) by (rule exI)
    moreover have "map_of (um_key_sql (registered k i j u m)) (k @ ''.out_port'') = Some (AnyStr (ud_output_url u))"
      by (simp add: sql)
    ultimately show ?thesis unfolding \<open>v = u\<close> True using k(2) num ij c out inference
      by (auto simp: unit_entry_ok_def port_in_range_def)
  next
    case False
    then have v: "unit_at m x = Some v" using x by (simp add: unit_at_registered [OF ok])
    have "x @ ''.out_port'' \<noteq> k" unfolding k(1) using out_port_key by metis
    then show ?thesis using registry_unitD [OF ok v] False c
      by (auto simp: unit_entry_ok_def sql)
  qed
qed

lemma ex_update:
  "f k = None \<Longrightarrow> (\<exists>x v. (if x = k then Some u else f x) = Some v \<and> P v) \<longleftrightarrow> P u \<or> (\<exists>x v. f x = Some v \<and> P v)"
  by (metis option.distinct(1) option.inject)

lemma registered_ok:
  assumes ok: "registry_ok m" and k: "k = unit @ ''.'' @ to_string (ud_port u)" "ud_work_id u = k"
    and num: "ud_port u = um_work_id_counter m" "um_work_id_counter m < INT_MAX"
    and ij: "i \<noteq> j" "i < length (um_port_list m)" "j < length (um_port_list m)"
    and free: "\<not> um_port_list m ! i" "\<not> um_port_list m ! j"
    and out: "parse_zmq_port (ud_output_url u) m = Some (um_port_list_start m + int i)"
    and inference: "parse_zmq_port (ud_inference_url u) m = Some (um_port_list_start m + int j)"
  shows "registry_ok (registered k i j u m)"
proof -
  let ?m = "registered k i j u m"
  note at = unit_at_registered [OF ok, of k i j u]
  have fresh: "unit_at m k = None" using fresh_key [OF ok, of unit] k(1) num(1) by simp
  have pu: "unit_ports m u = {um_port_list_start m + int i, um_port_list_start m + int j}"
    by (rule unit_ports_pair [OF out inference])
  have new: "ud_port u \<noteq> ud_port v \<and> unit_ports m u \<inter> unit_ports m v = {}" if v: "unit_at m x = Some v" for x v
  proof -
    have "p \<notin> unit_ports m u" if p: "p \<in> unit_ports m v" for p
    proof -
      obtain l where "p = um_port_list_start m + int l" "um_port_list m ! l"
        by (rule registry_port_taken [OF ok v p])
      then show ?thesis using free pu by auto
    qed
    then show ?thesis using registry_unitD(4) [OF ok v] num(1) by auto
  qed
  have "unit_entry_ok ?m x v" if "unit_at ?m x = Some v" for x v
    by (rule registered_entries [OF ok k num ij out inference that])
  moreover have "ud_port v \<noteq> ud_port v' \<and> unit_ports ?m v \<inter> unit_ports ?m v' = {}"
    if "unit_at ?m x = Some v \<and> unit_at ?m x' = Some v' \<and> x \<noteq> x'" for x x' v v'
    using that new [of x v] new [of x' v'] registry_unit_unique [OF ok, of x v x' v'] by (auto simp: at split: if_splits)
  moreover have "um_port_list ?m ! l \<longleftrightarrow> (\<exists>x v. unit_at ?m x = Some v \<and> um_port_list_start ?m + int l \<in> unit_ports ?m v)"
    if l: "l < length (um_port_list ?m)" for l
  proof -
    have "(\<exists>x v. unit_at ?m x = Some v \<and> um_port_list_start m + int l \<in> unit_ports m v) \<longleftrightarrow>
        l = i \<or> l = j \<or> (\<exists>x v. unit_at m x = Some v \<and> um_port_list_start m + int l \<in> unit_ports m v)"
      using ex_update [of "unit_at m" k u "\<lambda>v. um_port_list_start m + int l \<in> unit_ports m v"] fresh
      by (simp add: at pu)
    also have "\<dots> \<longleftrightarrow> l = i \<or> l = j \<or> um_port_list m ! l" using ok l by (auto simp: registry_ok_def)
    finally show ?thesis using l ij by (auto simp: nth_list_update)
  qed
  moreover have "0 < um_port_list_start m" "0 \<le> to_int32 (um_work_id_counter m + 1)"
      "\<exists>pre post. good_format (um_zmq_s_format m) pre post"
    using ok num(2) by (auto simp: registry_ok_def to_int32_def INT_MAX_def)
  ultimately show ?thesis unfolding registry_ok_def by simp
qed

text \<open>The state after the release of a unit whose ports are the table's entries \<open>i\<close> and \<open>j\<close>.\<close>

definition released :: "string \<Rightarrow> nat \<Rightarrow> nat \<Rightarrow> manager \<Rightarrow> manager" where
  "released k i j m =
     m\<lparr>um_port_list := (um_port_list m)[i := False, j := False],
       um_key_sql := alist_erase (k @ ''.out_port'') (alist_erase k (um_key_sql m))\<rparr>"

lemma released_frame [simp]:
  "um_zmq_s_format (released k i j m) = um_zmq_s_format m"
  "um_port_list_start (released k i j m) = um_port_list_start m"
  "um_port_list (released k i j m) = (um_port_list m)[i := False, j := False]"
  "parse_zmq_port url (released k i j m) = parse_zmq_port url m"
  "unit_ports (released k i j m) v = unit_ports m v"
  "port_in_range (released k i j m) p = port_in_range m p"
  "um_work_id_counter (released k i j m) = um_work_id_counter m"
  by (simp_all add: released_def parse_zmq_port_def unit_ports_def port_in_range_def)

lemma release_url:
  assumes "parse_zmq_port url m = Some (um_port_list_start m + int i)" and "i < length (um_port_list m)"
  shows "release_url_port url m = m\<lparr>um_port_list := (um_port_list m)[i := False]\<rparr>"
  using assms by (simp add: release_url_port_def release_zmq_port_locked_def)

lemma sys_release_unit_live:
  assumes "registry_ok m" and "unit_at m k = Some u"
  obtains i j where "i \<noteq> j" "i < length (um_port_list m)" "j < length (um_port_list m)"
    "unit_ports m u = {um_port_list_start m + int i, um_port_list_start m + int j}"
    "sys_release_unit k m = (0, released k i j m)"
proof -
  obtain p q where pq: "p \<noteq> q" "parse_zmq_port (ud_output_url u) m = Some p"
      "parse_zmq_port (ud_inference_url u) m = Some q" "unit_ports m u = {p, q}"
    using registry_unitD(1) [OF assms] by blast
  obtain i where i: "i < length (um_port_list m)" "p = um_port_list_start m + int i"
    using registry_port_taken [OF assms, of p] pq(4) by blast
  obtain j where j: "j < length (um_port_list m)" "q = um_port_list_start m + int j"
    using registry_port_taken [OF assms, of q] pq(4) by blast
  let ?m = "m\<lparr>um_port_list := (um_port_list m)[i := False]\<rparr>"
  have "release_url_port (ud_output_url u) m = ?m" using release_url pq(2) i by simp
  moreover have "release_url_port (ud_inference_url u) ?m =
      ?m\<lparr>um_port_list := (um_port_list ?m)[j := False]\<rparr>"
    using pq(3) j by (intro release_url) (simp_all add: parse_zmq_port_def)
  ultimately have "sys_release_unit k m = (0, released k i j m)"
    using assms(2) by (simp add: sys_release_unit_def safe_reading_def unit_at_def released_def safe_erase_def)
  then show thesis using that [of i j] pq i j by auto
qed

lemma sys_release_unit_other: "unit_at m k = None \<Longrightarrow> sys_release_unit k m = (-1, m)"
  by (simp add: sys_release_unit_def safe_reading_def unit_at_def)

lemma unit_at_released:
  assumes "registry_ok m"
  shows "unit_at (released k i j m) x = (if x = k then None else unit_at m x)"
  using out_port_not_unit [OF assms, of k] by (simp add: unit_at_def released_def map_of_alist_erase)

lemma released_entries:
  assumes ok: "registry_ok m" and k: "unit_at m k = Some u" and x: "unit_at m x = Some v" "x \<noteq> k"
  shows "unit_entry_ok (released k i j m) x v"
proof -
  obtain name where "k = name @ ''.'' @ to_string (ud_port u)" using registry_unitD(2) [OF ok k] by (elim exE)
  then have "x @ ''.out_port'' \<noteq> k" using out_port_key [of name "ud_port u" x] by (simp only: not_sym)
  then have "map_of (um_key_sql (released k i j m)) (x @ ''.out_port'') = map_of (um_key_sql m) (x @ ''.out_port'')"
    using x(2) by (simp add: released_def map_of_alist_erase)
  then show ?thesis using registry_unitD [OF ok x(1)] by (auto simp: unit_entry_ok_def)
qed

lemma if_option_eq: "(if c then None else x) = Some v \<longleftrightarrow> \<not> c \<and> x = Some v"
  by simp

lemma released_ok:
  assumes ok: "registry_ok m" and k: "unit_at m k = Some u"
    and ij: "i < length (um_port_list m)" "j < length (um_port_list m)"
    and pu: "unit_ports m u = {um_port_list_start m + int i, um_port_list_start m + int j}"
  shows "registry_ok (released k i j m)"
proof -
  let ?m = "released k i j m"
  note at = unit_at_released [OF ok, of k i j]
  have "unit_entry_ok ?m x v" if "unit_at ?m x = Some v" for x v
    using that released_entries [OF ok k] by (simp add: at split: if_splits)
  moreover have "ud_port v \<noteq> ud_port v' \<and> unit_ports ?m v \<inter> unit_ports ?m v' = {}"
    if "unit_at ?m x = Some v \<and> unit_at ?m x' = Some v' \<and> x \<noteq> x'" for x x' v v'
    using that registry_unit_unique [OF ok, of x v x' v'] by (simp add: at split: if_splits)
  moreover have "um_port_list ?m ! l \<longleftrightarrow> (\<exists>x v. unit_at ?m x = Some v \<and> um_port_list_start ?m + int l \<in> unit_ports ?m v)"
    if l: "l < length (um_port_list ?m)" for l
  proof -
    have old: "um_port_list m ! l \<longleftrightarrow> (\<exists>x v. unit_at m x = Some v \<and> um_port_list_start m + int l \<in> unit_ports m v)"
      using ok l by (simp add: registry_ok_def)
    have own: "x \<noteq> k \<longleftrightarrow> l \<noteq> i \<and> l \<noteq> j" if x: "unit_at m x = Some v" "um_port_list_start m + int l \<in> unit_ports m v" for x v
    proof (cases "x = k")
      case True
      then show ?thesis using x k pu by simp
    next
      case False
      then show ?thesis using registry_unit_unique [OF ok k x(1)] x(2) pu by auto
    qed
    have "(\<exists>x v. x \<noteq> k \<and> unit_at m x = Some v \<and> um_port_list_start m + int l \<in> unit_ports m v) \<longleftrightarrow>
        l \<noteq> i \<and> l \<noteq> j \<and> um_port_list m ! l"
      unfolding old using own by metis
    moreover have "(um_port_list m)[i := False, j := False] ! l \<longleftrightarrow> l \<noteq> i \<and> l \<noteq> j \<and> um_port_list m ! l"
      using l ij by (simp add: nth_list_update)
    ultimately show ?thesis by (simp add: at if_option_eq)
  qed
  moreover have "0 < um_port_list_start m" "0 \<le> um_work_id_counter m"
      "\<exists>pre post. good_format (um_zmq_s_format m) pre post"
    using ok by (auto simp: registry_ok_def)
  ultimately show ?thesis unfolding registry_ok_def by simp
qed

lemma registry_ok_sql:
  assumes "registry_ok m" and "\<not> unit_key m key" and "m' = m\<lparr>um_key_sql := sql\<rparr>"
    and "map_of sql = (map_of (um_key_sql m))(key := v)" and "any_unit v = None"
  shows "registry_ok m'"
proof -
  have at: "unit_at m' x = unit_at m x" for x
  proof (cases "x = key")
    case True
    have "unit_at m key = None" using assms(2) unfolding unit_key_def by (metis not_None_eq)
    then show ?thesis using True assms(3-5) by (simp add: unit_at_def)
  qed (simp add: unit_at_def assms(3,4))
  have fld: "um_key_sql m' = sql" "um_work_id_counter m' = um_work_id_counter m" "um_port_list m' = um_port_list m"
      "um_port_list_start m' = um_port_list_start m" "um_zmq_s_format m' = um_zmq_s_format m"
    by (simp_all add: assms(3))
  have fr: "parse_zmq_port url m' = parse_zmq_port url m" "unit_ports m' w = unit_ports m w"
      "port_in_range m' p = port_in_range m p" for url w p
    by (simp_all add: assms(3) parse_zmq_port_def unit_ports_def port_in_range_def)
  have "unit_entry_ok m' x w = unit_entry_ok m x w" if "unit_at m x = Some w" for x w
  proof -
    have "x @ ''.out_port'' \<noteq> key" using assms(2) that unfolding unit_key_def by metis
    then show ?thesis by (simp add: unit_entry_ok_def fr fld assms(4))
  qed
  then show ?thesis using assms(1) unfolding registry_ok_def by (simp add: at fr fld)
qed

lemma registry_step_ok:
  assumes ok: "registry_ok m" and wb: "well_behaved [x] m"
  shows "registry_ok (registry_step x m)"
proof (cases x)
  case (RegisterUnit unit)
  have a: "name_ok unit" "um_work_id_counter m < INT_MAX" using wb RegisterUnit by simp_all
  obtain pre post where st: "0 < um_port_list_start m" "good_format (um_zmq_s_format m) pre post"
    using ok by (auto simp: registry_ok_def)
  show ?thesis
  proof (cases "length (filter Not (um_port_list m)) < 2")
    case True
    then show ?thesis using ok allocate_unit_fails [OF st(1) True, of unit] RegisterUnit by (simp add: rpc_allocate_unit_def)
  next
    case False
    then have "2 \<le> length (filter Not (um_port_list m))" by simp
    from allocate_unit_succeeds [OF st(1) this st(2) a(1)] obtain i j u
      where u: "i \<noteq> j" "i < length (um_port_list m)" "j < length (um_port_list m)"
        "\<not> um_port_list m ! i" "\<not> um_port_list m ! j"
        "parse_zmq_port (ud_output_url u) m = Some (um_port_list_start m + int i)"
        "parse_zmq_port (ud_inference_url u) m = Some (um_port_list_start m + int j)"
        "ud_work_id u = unit @ ''.'' @ to_string (um_work_id_counter m)" "ud_port u = um_work_id_counter m"
        "sys_allocate_unit unit m = (Inr (Some u), registered (ud_work_id u) i j u m)"
    "make_unit_zmq_url unit ''.output_url'' (um_port_list_start m + int i) m = Inr (ud_output_url u)" .
    have "registry_ok (registered (ud_work_id u) i j u m)"
      by (rule registered_ok [OF ok _ refl u(9) a(2) u(1-7)]) (simp add: u(8,9))
    then show ?thesis using u(10) RegisterUnit by (simp add: rpc_allocate_unit_def)
  qed
next
  case (ReleaseUnit k)
  show ?thesis
  proof (cases "unit_at m k")
    case None
    then show ?thesis using ok ReleaseUnit by (simp add: rpc_release_unit_def sys_release_unit_other)
  next
    case (Some u)
    obtain i j where "i < length (um_port_list m)" "j < length (um_port_list m)"
        "unit_ports m u = {um_port_list_start m + int i, um_port_list_start m + int j}"
        "sys_release_unit k m = (0, released k i j m)"
      by (rule sys_release_unit_live [OF ok Some])
    then show ?thesis using released_ok [OF ok Some] ReleaseUnit by (simp add: rpc_release_unit_def)
  qed
next
  case (SqlSet k v)
  then show ?thesis using wb
    by (intro registry_ok_sql [OF ok, of k _ "alist_put k (AnyStr v) (um_key_sql m)" "Some (AnyStr v)"])
      (simp_all add: sys_sql_set_def safe_setting_def map_of_alist_put)
next
  case (SqlUnset k)
  then show ?thesis using wb
    by (intro registry_ok_sql [OF ok, of k _ "alist_erase k (um_key_sql m)" None])
      (simp_all add: sys_sql_unset_def safe_erase_def map_of_alist_erase)
qed

definition sample_manager :: manager where
  "sample_manager =
     \<lparr>um_key_sql = [], um_work_id_counter = 0, um_port_list_start = 5010, um_port_list = [False, False, False],
      um_zmq_s_format = ''ipc:///tmp/llm/%i.sock'', um_zmq_c_format = ''ipc:///tmp/llm/%i.sock'',
      um_counter_port = 8000, um_contexts = [], um_sent = [], um_calls = []\<rparr>"

lemma sample_manager_ok: "registry_ok sample_manager"
proof -
  have "good_format ''ipc:///tmp/llm/%i.sock'' ''ipc:///tmp/llm/'' ''.sock''" by code_simp
  then have "\<exists>pre post. good_format ''ipc:///tmp/llm/%i.sock'' pre post" by blast
  moreover have "\<not> [False, False, False] ! i" if "i < 3" for i :: nat
    using that by (auto simp: less_Suc_eq numeral_eq_Suc)
  ultimately show ?thesis by (simp add: registry_ok_def sample_manager_def unit_at_def)
qed

section \<open>Dispatch\<close>

lemma fragments_hd:
  "frag @ w \<noteq> [] \<Longrightarrow> \<exists>fs. fragments_loop frag w = (frag @ takeWhile (\<lambda>c. c \<noteq> CHR ''.'') w) # fs"
proof (induction w arbitrary: frag)
  case (Cons c w)
  then show ?case using Cons.IH [of "frag @ [c]"] by simp
qed simp

lemma work_unit_name: "sample_get_work_id_name w = takeWhile (\<lambda>c. c \<noteq> CHR ''.'') w"
proof (cases "CHR ''.'' \<in> set w")
  case True
  then obtain a b where w: "w = a @ CHR ''.'' # b" "CHR ''.'' \<notin> set a" by (meson split_list_first)
  have "takeWhile (\<lambda>c. c \<noteq> CHR ''.'') (a @ CHR ''.'' # b) = a"
    using w(2) by (subst takeWhile_append2) auto
  then show ?thesis using w by (simp add: sample_get_work_id_name_def str_find_dot)
next
  case False
  then have tw: "takeWhile (\<lambda>c. c \<noteq> CHR ''.'') w = w" by (subst takeWhile_eq_all_conv) auto
  show ?thesis unfolding sample_get_work_id_name_def str_find_dot_None [OF False] tw by simp
qed

lemma usr_print_error_sent:
  "client_url com_id m = Inr url \<Longrightarrow> usr_print_error jt created request_id work_id err com_id m =
   (Inr (), m\<lparr>um_sent := um_sent m @ [(url, jt_dump jt (reply_body created request_id work_id ''None'' (JStr ''None'') err) @ [CHR 0x0A])]\<rparr>)"
  by (simp add: usr_print_error_def zmq_com_send_def)

lemma client_url_sprintf: "client_url com_id m = Inr url \<Longrightarrow> sprintf (um_zmq_c_format m) com_id = Inr url \<and> length url < 128"
  by (simp add: client_url_def split: sum.splits if_splits)

section \<open>Properties\<close>



text \<open>
  C39. A registration fails exactly when fewer than two ports are free: then the reply has the number
  \<open>-1\<close> and nothing changes. Otherwise the unit gets a new work id made of its name and the next
  number, and two ports that no live unit has; it is found under its key and its output URL under
  the other one, all other units are untouched, and releasing it again restores the port table and
  the units as they were.
\<close>
theorem unit_lifecycle:
  assumes ok: "registry_ok m" and a: "name_ok unit" "um_work_id_counter m < INT_MAX"
  shows "if length (filter Not (um_port_list m)) < 2
    then rpc_allocate_unit unit m = (Inr (set_param ''-1'' (set_param [] [])), m)
    else \<exists>u m'. sys_allocate_unit unit m = (Inr (Some u), m') \<and>
      ud_work_id u = sample_get_work_id (um_work_id_counter m) unit \<and> unit_at m (ud_work_id u) = None \<and>
      (\<forall>k. unit_at m' k = (if k = ud_work_id u then Some u else unit_at m k)) \<and>
      (\<forall>k v. unit_at m k = Some v \<longrightarrow> unit_ports m v \<inter> unit_ports m u = {}) \<and>
      sys_sql_select (ud_work_id u @ ''.out_port'') m' = ud_output_url u \<and>
      length (filter Not (um_port_list m)) = length (filter Not (um_port_list m')) + 2 \<and>
      um_port_list (snd (sys_release_unit (ud_work_id u) m')) = um_port_list m \<and>
      (\<forall>k. unit_at (snd (sys_release_unit (ud_work_id u) m')) k = unit_at m k)"
proof (cases "length (filter Not (um_port_list m)) < 2")
  case True
  then show ?thesis using ok allocate_unit_fails [OF _ True, of unit]
    by (simp add: rpc_allocate_unit_def registry_ok_def)
next
  case False
  obtain pre post where st: "0 < um_port_list_start m" "good_format (um_zmq_s_format m) pre post"
    using ok by (auto simp: registry_ok_def)
  have "2 \<le> length (filter Not (um_port_list m))" using False by simp
  from allocate_unit_succeeds [OF st(1) this st(2) a(1)] obtain i j u
    where u: "i \<noteq> j" "i < length (um_port_list m)" "j < length (um_port_list m)"
      "\<not> um_port_list m ! i" "\<not> um_port_list m ! j"
      "parse_zmq_port (ud_output_url u) m = Some (um_port_list_start m + int i)"
      "parse_zmq_port (ud_inference_url u) m = Some (um_port_list_start m + int j)"
      "ud_work_id u = unit @ ''.'' @ to_string (um_work_id_counter m)" "ud_port u = um_work_id_counter m"
      "sys_allocate_unit unit m = (Inr (Some u), registered (ud_work_id u) i j u m)"
    "make_unit_zmq_url unit ''.output_url'' (um_port_list_start m + int i) m = Inr (ud_output_url u)" .
  let ?k = "ud_work_id u" and ?m = "registered (ud_work_id u) i j u m"
  have ok': "registry_ok ?m" by (rule registered_ok [OF ok _ refl u(9) a(2) u(1-7)]) (simp add: u(8,9))
  have fresh: "unit_at m ?k = None" using fresh_key [OF ok] by (simp add: u(8))
  note at = unit_at_registered [OF ok, of ?k i j u]
  have disj: "unit_ports m v \<inter> unit_ports m u = {}" if "unit_at m x = Some v" for x v
    using registry_unit_unique [OF ok', of x v ?k u] that fresh by (cases "x = ?k") (simp_all add: at)
  have sel: "sys_sql_select (?k @ ''.out_port'') ?m = ud_output_url u"
    by (simp add: sys_sql_select_def safe_reading_def registered_def map_of_alist_put)
  have cnt: "length (filter Not (um_port_list m)) = length (filter Not (um_port_list ?m)) + 2"
    using filter_Not_update [OF u(2,4)] filter_Not_update [of j "(um_port_list m)[i := True]"] u(1,3,5) by simp
  obtain i' j' where r: "i' < length (um_port_list ?m)" "j' < length (um_port_list ?m)"
      "unit_ports ?m u = {um_port_list_start ?m + int i', um_port_list_start ?m + int j'}"
      "sys_release_unit ?k ?m = (0, released ?k i' j' ?m)"
    by (rule sys_release_unit_live [OF ok', of ?k u]) (simp_all add: at)
  have "{i', j'} = {i, j}" using r(3) unit_ports_pair [OF u(6,7)] by (auto simp: doubleton_eq_iff)
  then have pl: "um_port_list (released ?k i' j' ?m) = um_port_list m"
    using u(1-5) by (intro nth_equalityI) (auto simp: nth_list_update doubleton_eq_iff split: if_splits)
  have restored: "\<forall>x. unit_at (released ?k i' j' ?m) x = unit_at m x"
    using fresh by (simp add: unit_at_released [OF ok'] at)
  have "ud_work_id u = sample_get_work_id (um_work_id_counter m) unit" by (simp add: u(8) sample_get_work_id_def)
  moreover have "um_port_list (snd (sys_release_unit ?k ?m)) = um_port_list m"
      "\<forall>x. unit_at (snd (sys_release_unit ?k ?m)) x = unit_at m x"
    unfolding r(4) snd_conv by (rule pl, rule restored)
  ultimately show ?thesis unfolding if_not_P [OF False] using u(10) fresh at disj sel cnt
    by (intro exI [of _ u] exI [of _ ?m] conjI allI impI) blast+
qed

theorem unit_lifecycle_witness:
  "\<exists>u m'. sys_allocate_unit ''llm'' sample_manager = (Inr (Some u), m') \<and>
     um_port_list (snd (sys_release_unit (ud_work_id u) m')) = um_port_list sample_manager"
proof -
  have c: "name_ok ''llm''" "um_work_id_counter sample_manager < INT_MAX"
    "\<not> length (filter Not (um_port_list sample_manager)) < 2" by code_simp+
  show ?thesis using unit_lifecycle [OF sample_manager_ok c(1,2)] unfolding if_not_P [OF c(3)] by blast
qed

text \<open>
  C40. What a client's message does. A text that is no JSON document, or lacks one of the three strings
  \<open>request_id\<close>, \<open>work_id\<close>, \<open>action\<close>, is answered with the error \<open>-2\<close>. An inference request for a live unit is
  published once on that unit's inference URL, with the client's address in front; for any other
  work id nothing happens and the client is not told. Every other action with a unit name is one
  RPC call to that unit, carrying the client's address, or the error \<open>-9\<close> when the unit cannot be
  reached. A work id that starts with a dot is ignored; an empty one ends in an exception.
\<close>
theorem client_message_outcome:
  assumes url: "client_url com_id m = Inr url" and "json \<noteq> []"
    and reply: "\<And>rid wid err. reply rid wid err = m\<lparr>um_sent := um_sent m @
      [(url, jt_dump jt (reply_body created rid wid ''None'' (JStr ''None'') err) @ [CHR 0x0A])]\<rparr>"
  shows "(\<not> sj_iterate sj json \<or> sj_string sj json ''request_id'' = None \<or> sj_string sj json ''work_id'' = None \<or>
        sj_string sj json ''action'' = None \<longrightarrow>
      unit_action_match jt sj connect created com_id json m =
        (Inr (), reply ''0'' ''sys'' (error_object (-2) ''json format error''))) \<and>
    (sj_iterate sj json \<and> sj_string sj json ''request_id'' = Some rid \<and> sj_string sj json ''work_id'' = Some wid \<and>
        sj_string sj json ''action'' = Some action \<longrightarrow>
      unit_action_match jt sj connect created com_id json m =
       (if action = ''inference''
        then (Inr (), case unit_at m (if wid = [] then ''sys'' else wid) of
                Some u \<Rightarrow> m\<lparr>um_sent := um_sent m @ [(ud_inference_url u, inference_raw_data url json)]\<rparr>
              | None \<Rightarrow> m)
        else if wid = [] then (Inl (RuntimeError ''Invalid JSON: missing work_id or action''), m)
        else if sample_get_work_id_name wid = [] then (Inr (), m)
        else if action = [] then (Inl (RuntimeError ''Invalid JSON: missing work_id or action''), m)
        else if connect (sample_get_work_id_name wid) = 0
        then (Inr (), m\<lparr>um_calls := um_calls m @ [(sample_get_work_id_name wid, action, set_param url json)]\<rparr>)
        else (Inr (), reply rid wid (error_object (-9) ''unit call false''))))"
proof -
  note u = client_url_sprintf [OF url] and e = usr_print_error_sent [OF url]
  have push: "push_inference jt created com_id rid w json m =
      (Inr (), case unit_at m w of
          Some u \<Rightarrow> m\<lparr>um_sent := um_sent m @ [(ud_inference_url u, inference_raw_data url json)]\<rparr> | None \<Rightarrow> m)"
    if "w \<noteq> []" for w rid
    using that assms(2) url by (simp add: push_inference_def zmq_bus_publisher_push_def log_level_def SAMPLE_LOG_WARN_def
        safe_reading_def unit_at_def send_msg_def split: option.split)
  have call: "call_unit jt sj connect created com_id rid w json m =
      (if sample_get_work_id_name w = [] then (Inr (), m)
       else if sj_string sj json ''work_id'' = Some [] \<or> action = []
       then (Inl (RuntimeError ''Invalid JSON: missing work_id or action''), m)
       else if connect (sample_get_work_id_name w) = 0
       then (Inr (), m\<lparr>um_calls := um_calls m @ [(sample_get_work_id_name w, action, set_param url json)]\<rparr>)
       else (Inr (), reply rid w (error_object (-9) ''unit call false'')))"
    if w: "w \<noteq> []" "sj_string sj json ''work_id'' = Some wid" "w = (if wid = [] then ''sys'' else wid)"
      "sj_string sj json ''action'' = Some action" for w rid wid action
  proof -
    obtain fs where "fragments_loop [] w = sample_get_work_id_name w # fs"
      using fragments_hd [of "[]" w] w(1) by (auto simp: work_unit_name)
    then show ?thesis using w u e reply by (auto simp: call_unit_def remote_call_def)
  qed
  show ?thesis
    using push [of "if wid = [] then ''sys'' else wid" rid] call [of "if wid = [] then ''sys'' else wid" wid action rid] e reply
    by (auto simp: unit_action_match_def Let_def work_unit_name split: option.splits)
qed

definition sample_simdjson :: simdjson where
  "sample_simdjson =
     \<lparr>sj_iterate = \<lambda>_. True,
      sj_string = \<lambda>_ k. map_of [(''request_id'', ''1''), (''work_id'', ''llm.7''), (''action'', ''exit'')] k\<rparr>"

theorem client_message_outcome_witness:
  "unit_action_match \<lparr>jt_parse = \<lambda>_. Inl [], jt_dump = \<lambda>_. ''x''\<rparr> sample_simdjson (\<lambda>_. 0) 0 8000 ''{}'' sample_manager =
    (Inr (), sample_manager\<lparr>um_calls := [(''llm'', ''exit'', set_param ''ipc:///tmp/llm/8000.sock'' ''{}'')]\<rparr>)"
proof -
  let ?jt = "\<lparr>jt_parse = \<lambda>_. Inl [], jt_dump = \<lambda>_. ''x''\<rparr>"
  have url: "client_url 8000 sample_manager = Inr ''ipc:///tmp/llm/8000.sock''" by code_simp
  have n: "sample_get_work_id_name ''llm.7'' = ''llm''" "um_calls sample_manager = []" by code_simp+
  show ?thesis
    using client_message_outcome [OF url, of "''{}''" _ ?jt 0 sample_simdjson "\<lambda>_. 0" "''1''" "''llm.7''" "''exit''", OF _ refl]
    by (simp add: sample_simdjson_def n)
qed

section \<open>Limits of the dispatch\<close>

text \<open>An inference request for a work id without a unit changes nothing: no error reaches the client,
  although the code has one for this case.\<close>

lemma unknown_unit_not_reported:
  assumes "client_url com_id m = Inr url" and "json \<noteq> []" and "unit_at m w = None" and "w \<noteq> []"
  shows "push_inference jt created com_id rid w json m = (Inr (), m)"
  using assms by (simp add: push_inference_def zmq_bus_publisher_push_def log_level_def SAMPLE_LOG_WARN_def
      safe_reading_def unit_at_def)

text \<open>Two requests that arrive in one read are handled as one text: only the newline at the very end
  is removed.\<close>

lemma requests_in_one_read_merge:
  "select_json_str (a @ [CHR 0x0A] @ b @ [CHR 0x0A]) = a @ [CHR 0x0A] @ b"
  by (simp add: select_json_str_def butlast_append)

text \<open>A failed registration is a reply like any other: the number it carries is \<open>-1\<close> and both URLs are
  empty.\<close>

lemma failed_registration_reply:
  "get_param 0 [] (set_param ''-1'' (set_param [] [])) = Inr ''-1''"
  "get_param 1 [] (set_param ''-1'' (set_param [] [])) = Inr (set_param [] [])"
  by code_simp+

end
