(* ===== verification/Stack_Flow.thy ===== *)
theory Stack_Flow
  imports Sessions Unit_Manager
begin

text \<open>
  The life of a unit around its handlers: the RPC servers of \<^verbatim>\<open>hybrid-comm/include/pzmq.hpp\<close> and the base
  class \<^verbatim>\<open>StackFlow\<close> of \<^verbatim>\<open>infra-controller\<close>, here with the vLLM node as its subclass. RPC calls of
  clients put events into a queue that one thread works off; registering and releasing a unit are
  RPC calls to the unit manager. The record \<open>system\<close> is the node, its event queue and the manager. An
  exception that leaves the event thread or a message thread ends the node (\<open>sy_alive\<close>). A link says
  what becomes of a call to the manager: its socket cannot be opened, the reply does not arrive, or
  the call is served.
\<close>

section \<open>RPC servers\<close>

type_synonym 's rpc_fun = "string \<Rightarrow> 's \<Rightarrow> string result \<times> 's"

datatype 's rpc_action = ListAction | Action "'s rpc_fun"

type_synonym 's zmq_fun = "(string \<times> 's rpc_action) list"

text \<open>The list of actions; the map must not be empty.\<close>

fun list_names :: "string list \<Rightarrow> string result" where
  "list_names [] = Inl UndefinedBehaviour"
| "list_names [a] = Inr ([quote_char] @ a @ [quote_char] @ [CHR '']'', CHR 0x7D])"
| "list_names (a # b # as) =
     map_sum (\<lambda>e. e) (\<lambda>rest. [quote_char] @ a @ [quote_char] @ [CHR '',''] @ rest) (list_names (b # as))"

definition rpc_list_action :: "'s zmq_fun \<Rightarrow> string result" where
  "rpc_list_action fs =
     map_sum (\<lambda>e. e) (\<lambda>names. [CHR 0x7B, quote_char] @ ''actions'' @ [quote_char] @ '':['' @ names) (list_names (map fst fs))"

definition register_rpc_action :: "string \<Rightarrow> 's rpc_fun \<Rightarrow> 's zmq_fun \<Rightarrow> 's zmq_fun" where
  "register_rpc_action action raw_call fs =
     (if map_of fs action \<noteq> None then alist_put action (Action raw_call) fs
      else let fs = (if fs = [] then [(''list_action'', ListAction)] else fs)
           in alist_put action (Action raw_call) fs)"

definition unregister_rpc_action :: "string \<Rightarrow> 's zmq_fun \<Rightarrow> 's zmq_fun" where
  "unregister_rpc_action action fs = alist_erase action fs"

text \<open>One request in the loop of the server: the reply and the new state. Any exception, also one of
  the handler, becomes the reply \<^verbatim>\<open>NotAction\<close>.\<close>

definition rpc_dispatch :: "'s zmq_fun \<Rightarrow> string \<Rightarrow> string \<Rightarrow> 's \<Rightarrow> string \<times> 's" where
  "rpc_dispatch fs action payload s =
     (case map_of fs action of
        None \<Rightarrow> (''NotAction'', s)
      | Some ListAction \<Rightarrow> (case rpc_list_action fs of Inl _ \<Rightarrow> ''NotAction'' | Inr r \<Rightarrow> r, s)
      | Some (Action f) \<Rightarrow> (case f payload s of (Inl _, s) \<Rightarrow> (''NotAction'', s) | (Inr r, s) \<Rightarrow> (r, s)))"

definition sys_actions :: "manager zmq_fun" where
  "sys_actions =
     register_rpc_action ''sql_unset'' rpc_sql_unset
       (register_rpc_action ''sql_set'' rpc_sql_set
         (register_rpc_action ''release_unit'' rpc_release_unit
           (register_rpc_action ''register_unit'' rpc_allocate_unit
             (register_rpc_action ''sql_select'' rpc_sql_select []))))"

datatype rpc_link = LinkDown | LinkTimeout | LinkUp

text \<open>\<^verbatim>\<open>unit_call\<close> to the manager: the message the callback is given, if it is called.\<close>

definition unit_call :: "rpc_link \<Rightarrow> string \<Rightarrow> string \<Rightarrow> manager \<Rightarrow> string option \<times> manager" where
  "unit_call link action data m =
     (case link of
        LinkDown \<Rightarrow> (None, m)
      | LinkTimeout \<Rightarrow> (Some [], m)
      | LinkUp \<Rightarrow> let (r, m) = rpc_dispatch sys_actions action data m in (Some r, m))"

section \<open>State\<close>

datatype local_event = EVENT_NONE | EVENT_SETUP | EVENT_EXIT | EVENT_PAUSE | EVENT_TASKINFO

record system =
  sy_node :: vllm_llm
  sy_mgr :: manager
  sy_queue :: "(local_event \<times> string) list"
  sy_status :: int
  sy_alive :: bool

definition unit_name :: string where
  "unit_name = ''llm''"

section \<open>Registering and releasing the unit\<close>

text \<open>The callback of \<^verbatim>\<open>sys_register_unit\<close> on a reply: number, output and inference URL.\<close>

definition read_registration :: "string \<Rightarrow> (string \<times> string \<times> string) result" where
  "read_registration msg =
     (case get_param 1 [] msg of Inl e \<Rightarrow> Inl e
      | Inr str_port \<Rightarrow>
          (case get_param 0 str_port msg of Inl e \<Rightarrow> Inl e
           | Inr out_port \<Rightarrow>
               (case get_param 1 str_port msg of Inl e \<Rightarrow> Inl e
                | Inr inference_port \<Rightarrow>
                    (case get_param 0 [] msg of Inl e \<Rightarrow> Inl e
                     | Inr num \<Rightarrow> Inr (num, out_port, inference_port)))))"

definition sys_register_unit ::
  "rpc_link \<Rightarrow> string \<Rightarrow> vllm_llm \<times> manager \<Rightarrow> int result \<times> vllm_llm \<times> manager" where
  "sys_register_unit link name s =
     (let (n, m) = s; (reply, m) = unit_call link ''register_unit'' name m
      in case (case reply of None \<Rightarrow> Inr ([], [], []) | Some msg \<Rightarrow> read_registration msg) of
           Inl e \<Rightarrow> (Inl e, n, m)
         | Inr (str_port, out_port, inference_port) \<Rightarrow>
             (case stoi str_port of
                Inl e \<Rightarrow> (Inl e, n, m)
              | Inr num \<Rightarrow>
                  (Inr num, put_channel num (new_channel False False out_port inference_port unit_name) n, m)))"

definition node_release_unit ::
  "rpc_link \<Rightarrow> int \<Rightarrow> string \<Rightarrow> vllm_llm \<times> manager \<Rightarrow> bool result \<times> vllm_llm \<times> manager" where
  "node_release_unit link work_id_num work_id s =
     (let (n, m) = s;
          wid = (if work_id = [] then sample_get_work_id work_id_num unit_name else work_id)
      in case (if work_id = [] then Inr work_id_num else sample_get_work_id_num work_id) of
           Inl e \<Rightarrow> (Inl e, n, m)
         | Inr num \<Rightarrow>
             let (_, m) = unit_call link ''release_unit'' wid m
             in (Inr False, n\<lparr>nl_channels := alist_erase num (nl_channels n)\<rparr>, m))"

section \<open>Events\<close>

definition sf_setup ::
  "node_env \<Rightarrow> rpc_link \<Rightarrow> string \<Rightarrow> string \<Rightarrow> vllm_llm \<times> manager \<Rightarrow> int result \<times> vllm_llm \<times> manager" where
  "sf_setup e link zmq_url raw s =
     (case sys_register_unit link unit_name s of
        (Inl ex, n, m) \<Rightarrow> (Inl ex, n, m)
      | (Inr num, n, m) \<Rightarrow>
          let work_id = unit_name @ ''.'' @ to_string num
          in case get_channel num n of
               Inl ex \<Rightarrow> (Inl ex, n, m)
             | Inr ch \<Rightarrow>
                 let ch = (set_push_url zmq_url ch)\<lparr>ch_request_id := sample_json_str_get raw ''request_id'',
                                                    ch_work_id := work_id\<rparr>
                 in case session_setup e work_id (sample_json_str_get raw ''object'')
                           (sample_json_str_get raw ''data'') (put_channel num ch n) of
                      (Inl ex, n) \<Rightarrow> (Inl ex, n, m)
                    | (Inr rc, n) \<Rightarrow>
                        if rc \<noteq> 0
                        then (case node_release_unit link num work_id (n, m) of
                                (Inl ex, n, m) \<Rightarrow> (Inl ex, n, m)
                              | (Inr _, n, m) \<Rightarrow> (Inr 0, n, m))
                        else (Inr 0, n, m))"

text \<open>The reply channel of a known work id follows the caller; any exception is swallowed.\<close>

definition redirect_channel :: "string \<Rightarrow> string \<Rightarrow> vllm_llm \<Rightarrow> vllm_llm" where
  "redirect_channel zmq_url work_id n =
     (case sample_get_work_id_num work_id of
        Inl _ \<Rightarrow> n
      | Inr num \<Rightarrow> (case get_channel num n of Inl _ \<Rightarrow> n | Inr ch \<Rightarrow> put_channel num (set_push_url zmq_url ch) n))"

definition sf_exit ::
  "node_env \<Rightarrow> rpc_link \<Rightarrow> string \<Rightarrow> string \<Rightarrow> vllm_llm \<times> manager \<Rightarrow> int result \<times> vllm_llm \<times> manager" where
  "sf_exit e link zmq_url raw s =
     (let (n, m) = s; work_id = sample_json_str_get raw ''work_id'';
          n = redirect_channel zmq_url work_id n
      in case session_exit e work_id (sample_json_str_get raw ''object'') (sample_json_str_get raw ''data'') n of
           (Inl ex, n) \<Rightarrow> (Inl ex, n, m)
         | (Inr rc, n) \<Rightarrow>
             if rc = 0
             then (case node_release_unit link (-1) work_id (n, m) of
                     (Inl ex, n, m) \<Rightarrow> (Inl ex, n, m)
                   | (Inr b, n, m) \<Rightarrow> (Inr (if b then 1 else 0), n, m))
             else (Inr 0, n, m))"

text \<open>The default of \<^verbatim>\<open>pause\<close>, which the node does not override, passes a JSON object where a string is
  expected: the implicit conversion throws.\<close>

definition base_pause :: "node_env \<Rightarrow> string \<Rightarrow> string \<Rightarrow> string \<Rightarrow> vllm_llm \<Rightarrow> unit result \<times> vllm_llm" where
  "base_pause e work_id object data n =
     (case get_string (error_object (-18) ''not have unit action!'') of
        Inl _ \<Rightarrow> (Inl JsonTypeError, n)
      | Inr msg \<Rightarrow> (Inr (), node_send e ''None'' (JStr ''None'') msg work_id n))"

definition sf_pause :: "node_env \<Rightarrow> string \<Rightarrow> string \<Rightarrow> vllm_llm \<Rightarrow> unit result \<times> vllm_llm" where
  "sf_pause e zmq_url raw n =
     (let work_id = sample_json_str_get raw ''work_id'';
          n = redirect_channel zmq_url work_id n
      in base_pause e work_id (sample_json_str_get raw ''object'') (sample_json_str_get raw ''data'') n)"

definition sf_taskinfo :: "node_env \<Rightarrow> string \<Rightarrow> string \<Rightarrow> vllm_llm \<Rightarrow> unit result \<times> vllm_llm" where
  "sf_taskinfo e zmq_url raw n =
     (let work_id = sample_json_str_get raw ''work_id'';
          n = redirect_channel zmq_url work_id n
      in node_taskinfo e work_id (sample_json_str_get raw ''object'') (sample_json_str_get raw ''data'') n)"

definition with_ids :: "string \<Rightarrow> string \<Rightarrow> vllm_llm \<Rightarrow> vllm_llm" where
  "with_ids zmq_url data n = n\<lparr>nl_request_id := sample_json_str_get data ''request_id'', nl_out_url := zmq_url\<rparr>"

text \<open>\<open>d\<close> is the parameter that the handler takes as the data: 1, but 0 in \<^verbatim>\<open>_pause\<close>.\<close>

definition event_params :: "int \<Rightarrow> string \<Rightarrow> (string \<times> string) result" where
  "event_params d msg =
     (case get_param 0 [] msg of Inl e \<Rightarrow> Inl e
      | Inr zmq_url \<Rightarrow> (case get_param d [] msg of Inl e \<Rightarrow> Inl e | Inr data \<Rightarrow> Inr (zmq_url, data)))"

definition handle_setup :: "node_env \<Rightarrow> rpc_link \<Rightarrow> string \<Rightarrow> system \<Rightarrow> unit result \<times> system" where
  "handle_setup e link msg s =
     (case event_params 1 msg of
        Inl ex \<Rightarrow> (Inl ex, s)
      | Inr (zmq_url, data) \<Rightarrow>
          let n = with_ids zmq_url data (sy_node s)
          in if sy_status s = 0 then (Inr (), s\<lparr>sy_node := n\<rparr>)
             else let (r, n, m) = sf_setup e link zmq_url data (n, sy_mgr s)
                  in (map_sum (\<lambda>ex. ex) (\<lambda>_. ()) r, s\<lparr>sy_node := n, sy_mgr := m\<rparr>))"

definition handle_exit :: "node_env \<Rightarrow> rpc_link \<Rightarrow> string \<Rightarrow> system \<Rightarrow> unit result \<times> system" where
  "handle_exit e link msg s =
     (case event_params 1 msg of
        Inl ex \<Rightarrow> (Inl ex, s)
      | Inr (zmq_url, data) \<Rightarrow>
          let n = with_ids zmq_url data (sy_node s)
          in if sy_status s = 0 then (Inr (), s\<lparr>sy_node := n\<rparr>)
             else let (r, n, m) = sf_exit e link zmq_url data (n, sy_mgr s)
                  in (map_sum (\<lambda>ex. ex) (\<lambda>_. ()) r, s\<lparr>sy_node := n, sy_mgr := m\<rparr>))"

definition handle_pause :: "node_env \<Rightarrow> string \<Rightarrow> system \<Rightarrow> unit result \<times> system" where
  "handle_pause e msg s =
     (case event_params 0 msg of
        Inl ex \<Rightarrow> (Inl ex, s)
      | Inr (zmq_url, data) \<Rightarrow>
          let n = with_ids zmq_url data (sy_node s)
          in if sy_status s = 0 then (Inr (), s\<lparr>sy_node := n\<rparr>)
             else let (r, n) = sf_pause e zmq_url data n in (r, s\<lparr>sy_node := n\<rparr>))"

definition handle_taskinfo :: "node_env \<Rightarrow> string \<Rightarrow> system \<Rightarrow> unit result \<times> system" where
  "handle_taskinfo e msg s =
     (case event_params 1 msg of
        Inl ex \<Rightarrow> (Inl ex, s)
      | Inr (zmq_url, data) \<Rightarrow>
          let n = with_ids zmq_url data (sy_node s)
          in if sy_status s = 0 then (Inr (), s\<lparr>sy_node := n\<rparr>)
             else let (r, n) = sf_taskinfo e zmq_url data n in (r, s\<lparr>sy_node := n\<rparr>))"

text \<open>One event of the loop. An exception ends the process.\<close>

definition even_loop_step :: "node_env \<Rightarrow> rpc_link \<Rightarrow> system \<Rightarrow> system" where
  "even_loop_step e link s =
     (case sy_queue s of
        [] \<Rightarrow> s
      | (ev, msg) # q \<Rightarrow>
          let s = s\<lparr>sy_queue := q\<rparr>;
              (r, s) = (case ev of
                 EVENT_NONE \<Rightarrow> (Inr (), s)
               | EVENT_SETUP \<Rightarrow> handle_setup e link msg s
               | EVENT_EXIT \<Rightarrow> handle_exit e link msg s
               | EVENT_PAUSE \<Rightarrow> handle_pause e msg s
               | EVENT_TASKINFO \<Rightarrow> handle_taskinfo e msg s)
          in case r of Inl _ \<Rightarrow> s\<lparr>sy_alive := False\<rparr> | Inr _ \<Rightarrow> s)"

section \<open>The node's RPC server\<close>

definition rpc_enqueue :: "local_event \<Rightarrow> string \<Rightarrow> system \<Rightarrow> string result \<times> system" where
  "rpc_enqueue ev msg s = (Inr ''None'', s\<lparr>sy_queue := sy_queue s @ [(ev, msg)]\<rparr>)"

definition rpc_metrics_query :: "node_env \<Rightarrow> string \<Rightarrow> system \<Rightarrow> string result \<times> system" where
  "rpc_metrics_query e msg s =
     (case event_params 1 msg of
        Inl ex \<Rightarrow> (Inl ex, s)
      | Inr (zmq_url, raw) \<Rightarrow>
          (Inr ''None'', s\<lparr>sy_node := node_metrics_query e zmq_url raw (with_ids zmq_url raw (sy_node s))\<rparr>))"

definition rpc_reload_config :: "node_env \<Rightarrow> string \<Rightarrow> system \<Rightarrow> string result \<times> system" where
  "rpc_reload_config e msg s =
     (case event_params 1 msg of
        Inl ex \<Rightarrow> (Inl ex, s)
      | Inr (zmq_url, raw) \<Rightarrow>
          (Inr ''None'', s\<lparr>sy_node := node_reload_config e zmq_url raw (with_ids zmq_url raw (sy_node s))\<rparr>))"

definition node_actions :: "node_env \<Rightarrow> system zmq_fun" where
  "node_actions e =
     register_rpc_action ''metrics_query'' (rpc_metrics_query e)
       (register_rpc_action ''reload_config'' (rpc_reload_config e)
         (register_rpc_action ''taskinfo'' (rpc_enqueue EVENT_TASKINFO)
           (register_rpc_action ''exit'' (rpc_enqueue EVENT_EXIT)
             (register_rpc_action ''pause'' (rpc_enqueue EVENT_PAUSE)
               (register_rpc_action ''setup'' (rpc_enqueue EVENT_SETUP) [])))))"

text \<open>A call that the unit manager makes on behalf of a client.\<close>

definition node_rpc :: "node_env \<Rightarrow> string \<Rightarrow> string \<Rightarrow> system \<Rightarrow> string \<times> system" where
  "node_rpc e action payload s = rpc_dispatch (node_actions e) action payload s"

text \<open>A published text arrives at the subscriber of channel \<open>num\<close>.\<close>

definition channel_message :: "node_env \<Rightarrow> int \<Rightarrow> string \<Rightarrow> system \<Rightarrow> system" where
  "channel_message e num raw s =
     (case map_of (nl_channels (sy_node s)) num of
        None \<Rightarrow> s
      | Some ch \<Rightarrow>
          let ((object, data), ch) = subscriber_event_call raw ch;
              (r, n) = task_user_data e (Some ch) object data (put_channel num ch (sy_node s));
              s = s\<lparr>sy_node := n\<rparr>
          in case r of Inl _ \<Rightarrow> s\<lparr>sy_alive := False\<rparr> | Inr _ \<Rightarrow> s)"

text \<open>The destructor. Releasing a unit erases the map entry whose iterator is used right after.\<close>

definition sf_destroy :: "rpc_link \<Rightarrow> vllm_llm \<times> manager \<Rightarrow> unit result \<times> vllm_llm \<times> manager" where
  "sf_destroy link s =
     (case nl_channels (fst s) of
        [] \<Rightarrow> (Inr (), s)
      | (num, _) # _ \<Rightarrow>
          (case node_release_unit link num [] s of
             (Inl e, s) \<Rightarrow> (Inl e, s)
           | (Inr _, s) \<Rightarrow> (Inl UndefinedBehaviour, s)))"

section \<open>Runs of the system\<close>

text \<open>The URLs of a channel and whether a number has a session: what the node and the manager must agree
  on.\<close>

definition chan_urls :: "vllm_llm \<Rightarrow> int \<Rightarrow> (string \<times> string) option" where
  "chan_urls n num = map_option (\<lambda>ch. (ch_publisher_url ch, ch_inference_url ch)) (map_of (nl_channels n) num)"

definition has_session :: "vllm_llm \<Rightarrow> int \<Rightarrow> bool" where
  "has_session n num \<longleftrightarrow> map_of (nl_sessions n) num \<noteq> None"

abbreviation node_wid :: "int \<Rightarrow> string" where
  "node_wid num \<equiv> sample_get_work_id num unit_name"

definition coherent :: "vllm_llm \<Rightarrow> manager \<Rightarrow> bool" where
  "coherent n m \<longleftrightarrow>
     (\<forall>num p i. 0 \<le> num \<and> chan_urls n num = Some (p, i) \<longrightarrow>
        (\<exists>u. unit_at m (node_wid num) = Some u \<and> ud_output_url u = p \<and> ud_inference_url u = i)) \<and>
     (\<forall>num. 0 \<le> num \<and> has_session n num \<longrightarrow> chan_urls n num \<noteq> None)"

text \<open>Output URLs fit into the length byte of a reply.\<close>

definition short_urls :: "manager \<Rightarrow> bool" where
  "short_urls m \<longleftrightarrow> (\<forall>p url. port_in_range m p \<and> make_unit_zmq_url unit_name ''.output_url'' p m = Inr url \<longrightarrow> length url \<le> 127)"

definition system_ok :: "system \<Rightarrow> bool" where
  "system_ok s \<longleftrightarrow> registry_ok (sy_mgr s) \<and> short_urls (sy_mgr s) \<and> coherent (sy_node s) (sy_mgr s)"

text \<open>The steps of the whole: a call to the node, an event of its queue, a published request that
  arrives at a channel, progress of the scheduler, and what other units and clients make the manager
  do. Others do not release the node's units.\<close>

inductive sys_step :: "system \<Rightarrow> system \<Rightarrow> bool" where
  step_rpc: "sy_alive s \<Longrightarrow> sys_step s (snd (node_rpc e action payload s))"
| step_event: "sy_alive s \<Longrightarrow> um_work_id_counter (sy_mgr s) < INT_MAX \<Longrightarrow> sys_step s (even_loop_step e link s)"
| step_message: "sy_alive s \<Longrightarrow> sys_step s (channel_message e num raw s)"
| step_scheduler: "sy_alive s \<Longrightarrow> nl_shared (sy_node s) \<noteq> None \<Longrightarrow> sys_step s (s\<lparr>sy_node := run_task e t (sy_node s)\<rparr>)"
| step_manager: "well_behaved [x] (sy_mgr s) \<Longrightarrow>
    \<forall>num. chan_urls (sy_node s) num \<noteq> None \<longrightarrow> x \<noteq> ReleaseUnit (node_wid num) \<Longrightarrow>
    sys_step s (s\<lparr>sy_mgr := registry_step x (sy_mgr s)\<rparr>)"
| step_connection: "sys_step s (s\<lparr>sy_mgr := snd (onConnection conn up (sy_mgr s))\<rparr>)"
| step_client: "sys_step s (s\<lparr>sy_mgr := snd (onMessage jt sj connect created conn msg (sy_mgr s))\<rparr>)"

inductive_cases sys_stepE: "sys_step s s'"

section \<open>Replies of the manager\<close>

lemma sys_actions_lookup:
  "map_of sys_actions ''register_unit'' = Some (Action rpc_allocate_unit)"
  "map_of sys_actions ''release_unit'' = Some (Action rpc_release_unit)"
  "map_of sys_actions ''sql_select'' = Some (Action rpc_sql_select)"
  by (simp_all add: sys_actions_def register_rpc_action_def map_of_alist_put Let_def)

lemma get_param_message:
  assumes "length p0 \<le> 127"
  shows "get_param 0 [] (set_param p0 p1) = Inr p0" and "get_param 1 [] (set_param p0 p1) = Inr p1"
proof -
  have c: "signed_char (char_of_length (length p0)) = int (length p0)"
    using assms by (simp add: signed_char_of Let_def)
  show "get_param 0 [] (set_param p0 p1) = Inr p0" "get_param 1 [] (set_param p0 p1) = Inr p1"
    by (simp_all add: get_param_def set_param_def c string_at_def nat_add_distrib)
qed

lemma get_param_inner:
  assumes "length p0 \<le> 127"
  shows "get_param 0 (set_param p0 p1) msg = Inr p0" and "get_param 1 (set_param p0 p1) msg = Inr p1"
proof -
  have c: "int (length p0) = signed_char (char_of_length (length p0))"
    using assms by (simp add: signed_char_of Let_def)
  show "get_param 0 (set_param p0 p1) msg = Inr p0" "get_param 1 (set_param p0 p1) msg = Inr p1"
    using get_param_set [OF c, of p1 msg] by simp_all
qed

lemma read_registration_reply:
  "length a \<le> 127 \<Longrightarrow> length b \<le> 127 \<Longrightarrow> read_registration (set_param a (set_param b c)) = Inr (a, b, c)"
  by (simp add: read_registration_def get_param_message get_param_inner)

lemma to_string_length: "is_int32 i \<Longrightarrow> length (to_string i) \<le> 127"
  using string_of_nat_length [of "nat i" 9] string_of_nat_length [of "nat (- i)" 9]
  by (auto simp: to_string_def is_int32_def INT_MIN_def INT_MAX_def nat_less_iff)

lemma node_wid_num: "is_int32 num \<Longrightarrow> sample_get_work_id_num (node_wid num) = Inr num"
proof -
  assume "is_int32 num"
  moreover have "str_find ''.'' (unit_name @ CHR ''.'' # to_string num) = Some 3"
    by (subst str_find_dot) (simp_all add: unit_name_def)
  ultimately show ?thesis
    by (simp add: sample_get_work_id_num_def sample_get_work_id_def stoi_to_string unit_name_def)
qed

lemma node_wid_num_only: "sample_get_work_id_num (node_wid y) = Inr num \<Longrightarrow> y = num"
proof -
  have "str_find ''.'' (unit_name @ CHR ''.'' # to_string y) = Some 3"
    by (subst str_find_dot) (simp_all add: unit_name_def)
  moreover assume "sample_get_work_id_num (node_wid y) = Inr num"
  ultimately show ?thesis
    by (simp add: sample_get_work_id_num_def sample_get_work_id_def stoi_def parse_signed_to_string unit_name_def
        split: if_splits)
qed

lemma node_wid_inj: "node_wid a = node_wid b \<Longrightarrow> a = b"
  using to_string_inj by (simp add: sample_get_work_id_def)

section \<open>What the handlers change\<close>

text \<open>Two nodes with the same channel URLs and sessions.\<close>

definition same_view :: "vllm_llm \<Rightarrow> vllm_llm \<Rightarrow> bool" where
  "same_view n n' \<longleftrightarrow> chan_urls n' = chan_urls n \<and> has_session n' = has_session n"

lemma same_view_refl [simp]: "same_view n n"
  by (simp add: same_view_def)

lemma same_view_trans: "same_view a b \<Longrightarrow> same_view b c \<Longrightarrow> same_view a c"
  by (simp add: same_view_def)

lemma same_viewI: "nl_channels n' = nl_channels n \<Longrightarrow> nl_sessions n' = nl_sessions n \<Longrightarrow> same_view n n'"
  by (simp add: same_view_def chan_urls_def has_session_def fun_eq_iff)

lemma chan_urls_put:
  "chan_urls (put_channel num ch n) = (chan_urls n)(num \<mapsto> (ch_publisher_url ch, ch_inference_url ch))"
  by (simp add: chan_urls_def put_channel_def map_of_alist_put fun_eq_iff)

lemma has_session_put [simp]: "has_session (put_channel num ch n) = has_session n"
  by (simp add: has_session_def put_channel_def fun_eq_iff)

lemma same_view_put:
  "map_of (nl_channels n) num = Some ch \<Longrightarrow> ch_publisher_url ch' = ch_publisher_url ch \<Longrightarrow>
   ch_inference_url ch' = ch_inference_url ch \<Longrightarrow> same_view n (put_channel num ch' n)"
  by (auto simp: same_view_def chan_urls_put chan_urls_def fun_eq_iff)

lemma channel_urls [simp]:
  "ch_publisher_url (set_push_url url ch) = ch_publisher_url ch" "ch_inference_url (set_push_url url ch) = ch_inference_url ch"
  "ch_publisher_url (stop_subscriber url ch) = ch_publisher_url ch"
  "ch_inference_url (stop_subscriber url ch) = ch_inference_url ch"
  "ch_publisher_url (set_enoutput b ch) = ch_publisher_url ch" "ch_inference_url (set_enoutput b ch) = ch_inference_url ch"
  "ch_publisher_url (set_enstream b ch) = ch_publisher_url ch" "ch_inference_url (set_enstream b ch) = ch_inference_url ch"
  "ch_publisher_url (snd (subscriber_work_id f w ch)) = ch_publisher_url ch"
  "ch_inference_url (snd (subscriber_work_id f w ch)) = ch_inference_url ch"
  "ch_publisher_url (snd (subscriber_event_call raw ch)) = ch_publisher_url ch"
  "ch_inference_url (snd (subscriber_event_call raw ch)) = ch_inference_url ch"
  by (simp_all add: set_push_url_def stop_subscriber_def set_enoutput_def set_enstream_def subscriber_work_id_def
      subscriber_event_call_def Let_def split: option.splits sum.splits)

lemma same_view_taskinfo: "same_view n (snd (node_taskinfo e w obj d n))"
proof -
  have "nl_channels (snd (node_taskinfo e w obj d n)) = nl_channels n"
    by (simp add: node_taskinfo_def Let_def frame_simps split: sum.splits option.splits)
  then show ?thesis by (intro same_viewI) (simp_all add: taskinfo_frame)
qed

lemma same_view_metrics: "same_view n (node_metrics_query e url raw n)"
proof -
  have "nl_channels (node_metrics_query e url raw n) = nl_channels n"
    by (simp add: node_metrics_query_def Let_def frame_simps split: prod.split sum.split option.split)
  then show ?thesis by (intro same_viewI) (simp_all add: rpc_frame)
qed

lemma same_view_reload: "same_view n (node_reload_config e url raw n)"
proof -
  have "nl_channels (node_reload_config e url raw n) = nl_channels n"
    by (simp add: node_reload_config_def Let_def frame_simps split: prod.split sum.split option.split)
  then show ?thesis by (intro same_viewI) (simp_all add: rpc_frame)
qed

lemma same_view_ids: "same_view n (with_ids url d n)"
  by (rule same_viewI) (simp_all add: with_ids_def)

lemma same_view_run_task: "same_view n (run_task e t n)"
  by (rule same_viewI) (simp_all add: frame_simps)

lemma same_view_redirect: "same_view n (redirect_channel url w n)"
proof (cases "\<exists>num ch. sample_get_work_id_num w = Inr num \<and> map_of (nl_channels n) num = Some ch")
  case True
  then obtain num ch where "sample_get_work_id_num w = Inr num" "map_of (nl_channels n) num = Some ch" by blast
  then show ?thesis using same_view_put [of n num ch "set_push_url url ch"]
    by (simp add: redirect_channel_def get_channel_def)
next
  case False
  then have "redirect_channel url w n = n"
    by (auto simp: redirect_channel_def get_channel_def split: sum.split option.split)
  then show ?thesis by simp
qed

lemma same_view_submit: "same_view n (snd (submit e ch s obj p meta t n))"
proof (cases "apply_session_defaults s meta")
  case (Inl ex)
  then show ?thesis by (simp add: submit_def)
next
  case (Inr m)
  then show ?thesis by (simp add: submit_def same_view_run_task)
qed

lemma same_view_message: "same_view n n1 \<Longrightarrow> same_view n (send_client_message e r w u obj d c msg n1)"
  by (rule same_view_trans, assumption, rule same_viewI) (simp_all add: frame_simps)

lemma same_view_streams: "same_view n (n\<lparr>nl_streams := ss\<rparr>)"
  by (rule same_viewI) simp_all

lemma same_view_data: "same_view n (snd (task_user_data e ch obj d n))"
proof -
  have sub: "same_view n (snd (submit e c s o' p m t n1))" if "same_view n n1" for c s o' p m t n1
    using that same_view_submit same_view_trans by blast
  show ?thesis
    unfolding task_user_data_def Let_def erase_stream_input_state_def
    using sub [OF same_view_refl] sub [OF same_view_streams] same_view_message [OF same_view_refl]
      same_view_message [OF same_view_streams] same_view_streams
    by (simp split: option.split sum.split prod.split assembly.split)
qed

text \<open>Setup and exit change the view at their own number only.\<close>

lemma setup_view:
  assumes "sample_get_work_id_num w = Inr num" and "map_of (nl_channels n) num = Some ch"
    and "session_setup e w obj data n = (r, n')"
  shows "chan_urls n' = chan_urls n \<and>
    (\<exists>rc. r = Inr rc \<and> (if rc = 0 then has_session n' = (has_session n)(num := True) else has_session n' = has_session n))"
proof (cases "\<exists>c n1. jt_parse (ne_json e) data = Inr c \<and> admit_session e num (make_session_context num w c) c n = Inr n1")
  case True
  then obtain c n1 where c: "jt_parse (ne_json e) data = Inr c"
    and a: "admit_session e num (make_session_context num w c) c n = Inr n1" by blast
  obtain t where n1: "n1 = n\<lparr>nl_shared := Some t, nl_sessions :=
      alist_put num (make_session_context num w c) (nl_sessions n)\<rparr>"
    using admit_session_cases [OF a] by auto
  let ?s = "make_session_context num w c"
  let ?ch = "snd (subscriber_work_id (\<lambda>_. []) [] (set_enstream (sc_enstream ?s) (set_enoutput (sc_enoutput ?s) ch)))"
  have g: "get_channel num n1 = Inr ch" using n1 assms(2) by (simp add: get_channel_def)
  have r: "r = Inr 0" "n' = node_send e ''None'' (JStr ''None'') [] w (put_channel num ?ch n1)"
    using assms c a g by (simp_all add: session_setup_def Let_def)
  have "chan_urls n' = chan_urls (put_channel num ?ch n1)" "has_session n' = has_session (put_channel num ?ch n1)"
    by (simp_all add: r(2) chan_urls_def has_session_def frame_simps fun_eq_iff)
  moreover have "chan_urls n1 = chan_urls n" "has_session n1 = (has_session n)(num := True)"
    by (simp_all add: n1 chan_urls_def has_session_def map_of_alist_put fun_eq_iff)
  moreover have "chan_urls n num = Some (ch_publisher_url ch, ch_inference_url ch)" using assms(2) by (simp add: chan_urls_def)
  ultimately show ?thesis using r(1) by (simp add: chan_urls_put fun_upd_idem)
next
  case False
  then have "(\<exists>m. jt_parse (ne_json e) data = Inl m) \<or>
      (\<exists>c p. jt_parse (ne_json e) data = Inr c \<and> admit_session e num (make_session_context num w c) c n = Inl p)"
    by (metis sum.exhaust)
  from setup_rejected [OF assms(1,3) this] obtain rc raw where "r = Inr rc" "rc \<noteq> 0"
      "n' = n\<lparr>nl_sent := nl_sent n @ [(nl_out_url n, raw)]\<rparr>" by blast
  then show ?thesis by (simp add: chan_urls_def has_session_def fun_eq_iff)
qed

lemma exit_view:
  assumes "session_exit e w obj data n = (r, n')"
  shows "chan_urls n' = chan_urls n \<and>
    (has_session n' = has_session n \<and> r \<noteq> Inr 0 \<or>
     (\<exists>num. sample_get_work_id_num w = Inr num \<and> has_session n' = (has_session n)(num := False)))"
proof (cases "sample_get_work_id_num w")
  case (Inl ex)
  then show ?thesis using assms by (auto simp: session_exit_def)
next
  case num: (Inr num)
  show ?thesis
  proof (cases "map_of (nl_sessions n) num")
    case None
    then have "r = Inr (-1)" "n' = send_error e w (-6) ''Unit Does Not Exist'' n"
      using assms num by (simp_all add: session_exit_def)
    then show ?thesis by (simp add: chan_urls_def has_session_def frame_simps fun_eq_iff)
  next
    case (Some s)
    let ?n = "n\<lparr>nl_sessions := alist_erase num (nl_sessions n)\<rparr>"
    have hs: "has_session ?n = (has_session n)(num := False)"
      by (simp add: has_session_def map_of_alist_erase fun_eq_iff)
    show ?thesis
    proof (cases "map_of (nl_channels n) num")
      case None
      then have "n' = ?n" using assms num Some by (simp add: session_exit_def get_channel_def Let_def)
      then show ?thesis using num hs by (simp add: chan_urls_def fun_eq_iff)
    next
      case ch: (Some ch)
      then have n': "n' = node_send e ''None'' (JStr ''None'') [] w (put_channel num (stop_subscriber [] ch) ?n)"
        using assms num Some by (simp add: session_exit_def get_channel_def Let_def)
      have "same_view ?n (put_channel num (stop_subscriber [] ch) ?n)"
        by (rule same_view_put [of _ _ ch]) (simp_all add: ch)
      moreover have "same_view (put_channel num (stop_subscriber [] ch) ?n) n'"
        by (rule same_viewI) (simp_all add: n' frame_simps)
      ultimately have "chan_urls n' = chan_urls ?n" "has_session n' = has_session ?n" by (simp_all add: same_view_def)
      then show ?thesis using num hs by (simp add: chan_urls_def fun_eq_iff)
    qed
  qed
qed

section \<open>The node and the manager agree\<close>

lemma coherent_view: "same_view n n' \<Longrightarrow> coherent n m \<Longrightarrow> coherent n' m"
  by (simp add: coherent_def same_view_def)

lemma coherent_units:
  "coherent n m \<Longrightarrow> (\<And>num. 0 \<le> num \<Longrightarrow> chan_urls n num \<noteq> None \<Longrightarrow> unit_at m' (node_wid num) = unit_at m (node_wid num)) \<Longrightarrow>
   coherent n m'"
  by (simp add: coherent_def)

definition same_registry :: "manager \<Rightarrow> manager \<Rightarrow> bool" where
  "same_registry m m' \<longleftrightarrow> um_key_sql m' = um_key_sql m \<and> um_work_id_counter m' = um_work_id_counter m \<and>
     um_port_list_start m' = um_port_list_start m \<and> um_port_list m' = um_port_list m \<and>
     um_zmq_s_format m' = um_zmq_s_format m"

lemma same_registry_facts:
  assumes "same_registry m m'"
  shows "unit_at m' = unit_at m" and "registry_ok m' = registry_ok m" and "short_urls m' = short_urls m"
    and "coherent n m' = coherent n m"
proof -
  show u: "unit_at m' = unit_at m" using assms by (simp add: same_registry_def unit_at_def fun_eq_iff)
  have f: "parse_zmq_port url m' = parse_zmq_port url m" "unit_ports m' w = unit_ports m w"
      "port_in_range m' p = port_in_range m p" "unit_entry_ok m' k w = unit_entry_ok m k w"
      "make_unit_zmq_url a b p m' = make_unit_zmq_url a b p m" for url w p k a b
    using assms by (simp_all add: same_registry_def parse_zmq_port_def unit_ports_def port_in_range_def unit_entry_ok_def
        make_unit_zmq_url_def)
  show "registry_ok m' = registry_ok m" unfolding registry_ok_def u f using assms by (simp add: same_registry_def)
  show "short_urls m' = short_urls m" by (simp add: short_urls_def f)
  show "coherent n m' = coherent n m" by (simp add: coherent_def u)
qed

lemma same_registry_refl [simp]: "same_registry m m"
  by (simp add: same_registry_def)

lemma same_registry_send: "same_registry m (snd (zmq_com_send c out m))"
  by (simp add: zmq_com_send_def same_registry_def split: sum.split)

lemma same_registry_push: "same_registry m (snd (push_inference jt created c r w j m))"
proof -
  have "same_registry m (case u of None \<Rightarrow> m | Some u \<Rightarrow> send_msg raw u m)" for raw u
    by (simp add: same_registry_def send_msg_def split: option.split)
  then show ?thesis
    by (simp add: push_inference_def zmq_bus_publisher_push_def log_level_def SAMPLE_LOG_WARN_def Let_def usr_print_error_def
        same_registry_send split: sum.split)
qed

lemma same_registry_call: "same_registry m (snd (call_unit jt sj con created c r w j m))"
proof -
  obtain x m1 where rc: "remote_call sj con c j m = (x, m1)" by (meson surj_pair)
  have m1: "same_registry m m1"
    using rc by (auto simp: remote_call_def same_registry_def Let_def split: if_splits sum.splits)
  have "same_registry m (snd (usr_print_error jt created r w err c m1))" for err
    using m1 by (simp add: usr_print_error_def zmq_com_send_def same_registry_def split: sum.split)
  then show ?thesis using rc m1 by (simp add: call_unit_def split: list.split sum.split)
qed

lemma same_registry_client: "same_registry m (snd (onMessage jt sj con created conn msg m))"
  by (simp add: onMessage_def unit_action_match_def Let_def usr_print_error_def same_registry_send same_registry_push
      same_registry_call split: option.split)

lemma same_registry_connection: "same_registry m (snd (onConnection conn up m))"
  by (simp add: onConnection_def same_registry_def Let_def split: sum.split option.split)

lemma short_urls_cong:
  "um_zmq_s_format m' = um_zmq_s_format m \<Longrightarrow> um_port_list_start m' = um_port_list_start m \<Longrightarrow>
   length (um_port_list m') = length (um_port_list m) \<Longrightarrow> short_urls m \<Longrightarrow> short_urls m'"
  by (simp add: short_urls_def port_in_range_def make_unit_zmq_url_def)

text \<open>A registration that the manager refuses looks like a successful one with the number \<open>-1\<close> and empty
  URLs.\<close>

lemma registration_failure_unnoticed:
  assumes "0 < um_port_list_start m" and "length (filter Not (um_port_list m)) < 2"
  shows "sys_register_unit LinkUp unit_name (n, m) =
    (Inr (-1), put_channel (-1) (new_channel False False [] [] unit_name) n, m)"
proof -
  have "read_registration (set_param ''-1'' (set_param [] [])) = Inr (''-1'', [], [])"
    by (rule read_registration_reply) simp_all
  moreover have "stoi ''-1'' = Inr (-1)" by code_simp
  ultimately show ?thesis
    using allocate_unit_fails [OF assms, of unit_name]
    by (simp add: sys_register_unit_def unit_call_def rpc_dispatch_def sys_actions_lookup rpc_allocate_unit_def)
qed

lemma register_up:
  assumes ok: "registry_ok m" "short_urls m" and c: "um_work_id_counter m < INT_MAX"
  shows "\<exists>num p i m'. sys_register_unit LinkUp unit_name (n, m) =
      (Inr num, put_channel num (new_channel False False p i unit_name) n, m') \<and>
    registry_ok m' \<and> short_urls m' \<and> is_int32 num \<and>
    (num = -1 \<and> m' = m \<or> 0 \<le> num \<and> unit_at m (node_wid num) = None \<and>
       (\<exists>u. unit_at m' = (unit_at m)(node_wid num \<mapsto> u) \<and> ud_output_url u = p \<and> ud_inference_url u = i))"
proof (cases "length (filter Not (um_port_list m)) < 2")
  case True
  have st: "0 < um_port_list_start m" using ok(1) by (simp add: registry_ok_def)
  have "sys_register_unit LinkUp unit_name (n, m) =
      (Inr (-1), put_channel (-1) (new_channel False False [] [] unit_name) n, m)"
    by (rule registration_failure_unnoticed [OF st True])
  then show ?thesis using ok
    by (intro exI [of _ "-1"] exI [of _ "[]"] exI [of _ m]) (simp add: is_int32_def INT_MIN_def INT_MAX_def)
next
  case False
  obtain pre post where st: "0 < um_port_list_start m" "good_format (um_zmq_s_format m) pre post"
    using ok(1) by (auto simp: registry_ok_def)
  have nm: "name_ok unit_name" by (simp add: unit_name_def name_ok_def)
  have "2 \<le> length (filter Not (um_port_list m))" using False by simp
  from allocate_unit_succeeds [OF st(1) this st(2) nm] obtain i j u
    where u: "i \<noteq> j" "i < length (um_port_list m)" "j < length (um_port_list m)"
      "\<not> um_port_list m ! i" "\<not> um_port_list m ! j"
      "parse_zmq_port (ud_output_url u) m = Some (um_port_list_start m + int i)"
      "parse_zmq_port (ud_inference_url u) m = Some (um_port_list_start m + int j)"
      "ud_work_id u = unit_name @ ''.'' @ to_string (um_work_id_counter m)" "ud_port u = um_work_id_counter m"
      "sys_allocate_unit unit_name m = (Inr (Some u), registered (ud_work_id u) i j u m)"
      "make_unit_zmq_url unit_name ''.output_url'' (um_port_list_start m + int i) m = Inr (ud_output_url u)" .
  let ?m = "registered (ud_work_id u) i j u m" and ?num = "um_work_id_counter m"
  have num: "0 \<le> ?num" "is_int32 ?num" using ok(1) c by (auto simp: registry_ok_def is_int32_def INT_MIN_def)
  have wid: "ud_work_id u = node_wid ?num" by (simp add: u(8) sample_get_work_id_def)
  have ok': "registry_ok ?m" by (rule registered_ok [OF ok(1) _ refl u(9) c u(1-7)]) (simp add: u(8,9))
  have "port_in_range m (um_port_list_start m + int i)" using u(2) by (simp add: port_in_range_def)
  then have "length (ud_output_url u) \<le> 127" using ok(2) u(11) unfolding short_urls_def by blast
  then have "read_registration (set_param (to_string ?num) (set_param (ud_output_url u) (ud_inference_url u))) =
      Inr (to_string ?num, ud_output_url u, ud_inference_url u)"
    by (intro read_registration_reply to_string_length num(2))
  then have reg: "sys_register_unit LinkUp unit_name (n, m) =
      (Inr ?num, put_channel ?num (new_channel False False (ud_output_url u) (ud_inference_url u) unit_name) n, ?m)"
    using u(9,10) num(2)
    by (simp add: sys_register_unit_def unit_call_def rpc_dispatch_def sys_actions_lookup rpc_allocate_unit_def stoi_to_string)
  have at: "unit_at ?m = (unit_at m)(node_wid ?num \<mapsto> u)"
    using unit_at_registered [OF ok(1), of "ud_work_id u" i j u] by (simp add: wid fun_eq_iff)
  have "unit_at m (node_wid ?num) = None" using fresh_key [OF ok(1), of unit_name] by (simp add: sample_get_work_id_def)
  moreover have "short_urls ?m" by (rule short_urls_cong [OF _ _ _ ok(2)]) simp_all
  ultimately show ?thesis using reg ok' num at
    by blast
qed

text \<open>Releasing a unit of the node, with whatever link to the manager.\<close>

lemma release_call:
  assumes "registry_ok m" and "short_urls m"
  shows "registry_ok (snd (unit_call link ''release_unit'' k m)) \<and> short_urls (snd (unit_call link ''release_unit'' k m)) \<and>
    (\<forall>x. x \<noteq> k \<longrightarrow> unit_at (snd (unit_call link ''release_unit'' k m)) x = unit_at m x)"
proof (cases "link = LinkUp \<and> unit_at m k \<noteq> None")
  case True
  then obtain u where u: "unit_at m k = Some u" by auto
  obtain i j where r: "i < length (um_port_list m)" "j < length (um_port_list m)"
      "unit_ports m u = {um_port_list_start m + int i, um_port_list_start m + int j}"
      "sys_release_unit k m = (0, released k i j m)"
    by (rule sys_release_unit_live [OF assms(1) u])
  have "snd (unit_call link ''release_unit'' k m) = released k i j m"
    using True r(4) by (simp add: unit_call_def rpc_dispatch_def sys_actions_lookup rpc_release_unit_def)
  moreover have "registry_ok (released k i j m)" by (rule released_ok [OF assms(1) u r(1-3)])
  moreover have "short_urls (released k i j m)" by (rule short_urls_cong [OF _ _ _ assms(2)]) simp_all
  ultimately show ?thesis by (simp add: unit_at_released [OF assms(1)])
next
  case False
  then have "snd (unit_call link ''release_unit'' k m) = m"
    by (cases link) (auto simp: unit_call_def rpc_dispatch_def sys_actions_lookup rpc_release_unit_def sys_release_unit_other)
  then show ?thesis using assms by simp
qed

lemma release_unit_coherent:
  assumes num: "(if w = [] then Inr x else sample_get_work_id_num w) = Inr num" and ok: "registry_ok m" "short_urls m"
    and co: "coherent n m" and ses: "0 \<le> num \<longrightarrow> \<not> has_session n num"
    and r: "node_release_unit link x w (n, m) = (r, n', m')"
  shows "r = Inr False \<and> registry_ok m' \<and> short_urls m' \<and> coherent n' m'"
proof -
  let ?w = "if w = [] then node_wid x else w"
  obtain y m1 where uc: "unit_call link ''release_unit'' ?w m = (y, m1)" by (meson surj_pair)
  have e: "r = Inr False" "n' = n\<lparr>nl_channels := alist_erase num (nl_channels n)\<rparr>" "m' = m1"
    using r unfolding node_release_unit_def Let_def prod.case num uc by simp_all
  have cu: "chan_urls n' = (chan_urls n)(num := None)" "has_session n' = has_session n"
    by (simp_all add: e(2) chan_urls_def has_session_def map_of_alist_erase fun_eq_iff)
  note rel = release_call [OF ok, of link ?w, unfolded uc snd_conv]
  have own: "y = num" if "node_wid y = ?w" for y
    using that num node_wid_inj node_wid_num_only by (auto split: if_splits)
  have "coherent n' m" using co ses by (auto simp: coherent_def cu)
  then have "coherent n' m'"
  proof (rule coherent_units)
    fix y :: int assume "0 \<le> y" "chan_urls n' y \<noteq> None"
    then have "node_wid y \<noteq> ?w" using own [of y] by (auto simp: cu(1) split: if_splits)
    then show "unit_at m' (node_wid y) = unit_at m (node_wid y)" unfolding e(3) using rel by blast
  qed
  then show ?thesis using rel e by simp
qed

lemma setup_event_coherent:
  assumes ok: "registry_ok m" "short_urls m" and c: "um_work_id_counter m < INT_MAX" and co: "coherent n m"
    and r: "sf_setup e LinkUp url raw (n, m) = (r, n', m')"
  shows "r = Inr 0 \<and> registry_ok m' \<and> short_urls m' \<and> coherent n' m'"
proof -
  obtain num p i m1 where reg: "sys_register_unit LinkUp unit_name (n, m) =
      (Inr num, put_channel num (new_channel False False p i unit_name) n, m1)"
    and ok1: "registry_ok m1" "short_urls m1" and i32: "is_int32 num"
    and new: "num = -1 \<and> m1 = m \<or> 0 \<le> num \<and> unit_at m (node_wid num) = None \<and>
       (\<exists>u. unit_at m1 = (unit_at m)(node_wid num \<mapsto> u) \<and> ud_output_url u = p \<and> ud_inference_url u = i)"
    using register_up [OF ok c, of n] by blast
  let ?w = "node_wid num"
  let ?ch = "(set_push_url url (new_channel False False p i unit_name))\<lparr>ch_request_id := sample_json_str_get raw ''request_id'',
    ch_work_id := ?w\<rparr>"
  let ?n1 = "put_channel num ?ch (put_channel num (new_channel False False p i unit_name) n)"
  have w: "unit_name @ CHR ''.'' # to_string num = ?w" by (simp add: sample_get_work_id_def)
  have n1: "chan_urls ?n1 = (chan_urls n)(num \<mapsto> (p, i))" "has_session ?n1 = has_session n"
    by (simp_all add: chan_urls_put new_channel_def fun_eq_iff)
  have fresh: "\<not> has_session n num" if "0 \<le> num"
    using that new co by (fastforce simp: coherent_def)
  have co1: "coherent ?n1 m1"
    using new co by (auto simp: coherent_def n1 dest: node_wid_inj)
  obtain r2 n2 where s: "session_setup e ?w (sample_json_str_get raw ''object'') (sample_json_str_get raw ''data'') ?n1 = (r2, n2)"
    by (meson surj_pair)
  have "map_of (nl_channels ?n1) num = Some ?ch" by (simp add: put_channel_def map_of_alist_put)
  from setup_view [OF node_wid_num [OF i32] this s] obtain rc where rc: "r2 = Inr rc" and v: "chan_urls n2 = chan_urls ?n1"
    "if rc = 0 then has_session n2 = (has_session ?n1)(num := True) else has_session n2 = has_session ?n1" by blast
  have g: "get_channel num (put_channel num (new_channel False False p i unit_name) n) = Inr (new_channel False False p i unit_name)"
    by (simp add: get_channel_def put_channel_def map_of_alist_put)
  show ?thesis
  proof (cases "rc = 0")
    case True
    have "r = Inr 0" "n' = n2" "m' = m1" using r reg g s rc True by (simp_all add: sf_setup_def Let_def w)
    moreover have "coherent n2 m1" using co1 v True by (auto simp: coherent_def n1)
    ultimately show ?thesis using ok1 by simp
  next
    case False
    have co2: "coherent n2 m1" by (rule coherent_view [OF _ co1]) (use v False in \<open>simp add: same_view_def\<close>)
    obtain x n3 m3 where rl: "node_release_unit LinkUp num ?w (n2, m1) = (x, n3, m3)" by (metis prod_cases3)
    have "(if ?w = [] then Inr num else sample_get_work_id_num ?w) = Inr num"
      using node_wid_num [OF i32] by (simp add: sample_get_work_id_def)
    from release_unit_coherent [OF this ok1 co2 _ rl]
    have "x = Inr False \<and> registry_ok m3 \<and> short_urls m3 \<and> coherent n3 m3"
      using fresh v(2) False n1(2) by auto
    moreover have "r = Inr 0" "n' = n3" "m' = m3"
      using r reg g s rc False rl calculation by (simp_all add: sf_setup_def Let_def w)
    ultimately show ?thesis by simp
  qed
qed

lemma setup_event_unreached:
  assumes "link \<noteq> LinkUp" and "sf_setup e link url raw (n, m) = (r, n', m')"
  shows "(\<exists>ex. r = Inl ex) \<and> n' = n \<and> m' = m"
proof -
  have "read_registration [] = Inl UndefinedBehaviour" "stoi [] = Inl InvalidArgument" by code_simp+
  then have "\<exists>ex. sys_register_unit link unit_name (n, m) = (Inl ex, n, m)"
    using assms(1) by (cases link) (simp_all add: sys_register_unit_def unit_call_def)
  then show ?thesis using assms(2) by (auto simp: sf_setup_def)
qed

lemma exit_event_coherent:
  assumes ok: "registry_ok m" "short_urls m" and co: "coherent n m"
    and r: "sf_exit e link url raw (n, m) = (r, n', m')"
  shows "registry_ok m' \<and> short_urls m' \<and> coherent n' m'"
proof -
  let ?w = "sample_json_str_get raw ''work_id''"
  let ?n = "redirect_channel url ?w n"
  obtain r1 n1 where x: "session_exit e ?w (sample_json_str_get raw ''object'') (sample_json_str_get raw ''data'') ?n = (r1, n1)"
    by (meson surj_pair)
  have co0: "coherent ?n m" by (rule coherent_view [OF same_view_redirect co])
  note v = exit_view [OF x]
  have co1: "coherent n1 m" using v co0 by (auto simp: coherent_def split: if_splits)
  show ?thesis
  proof (cases "r1 = Inr 0")
    case False
    then have "n' = n1" "m' = m" using r x by (auto simp: sf_exit_def Let_def split: sum.splits)
    then show ?thesis using ok co1 by simp
  next
    case True
    then obtain num where num: "sample_get_work_id_num ?w = Inr num" "has_session n1 = (has_session ?n)(num := False)"
      using v by blast
    obtain x n2 m2 where rl: "node_release_unit link (-1) ?w (n1, m) = (x, n2, m2)" by (metis prod_cases3)
    have "r = map_sum (\<lambda>e. e) (\<lambda>b. if b then 1 else 0) x" "n' = n2" "m' = m2"
      using r x True rl by (auto simp: sf_exit_def Let_def split: sum.splits)
    moreover have "registry_ok m2 \<and> short_urls m2 \<and> coherent n2 m2"
    proof (cases "?w = []")
      case True
      then show ?thesis using release_unit_coherent [OF _ ok co1 _ rl, of "-1"] by simp
    next
      case False
      then show ?thesis using release_unit_coherent [OF _ ok co1 _ rl, of num] num by simp
    qed
    ultimately show ?thesis by simp
  qed
qed

lemma system_view: "system_ok s \<Longrightarrow> same_view (sy_node s) n \<Longrightarrow> system_ok (s\<lparr>sy_node := n\<rparr>)"
  using coherent_view by (auto simp: system_ok_def)

lemma system_view_ok: "system_ok s \<Longrightarrow> same_view (sy_node s) (sy_node s') \<Longrightarrow> sy_mgr s' = sy_mgr s \<Longrightarrow> system_ok s'"
  using coherent_view by (auto simp: system_ok_def)

lemma handle_setup_ok:
  assumes ok: "system_ok s" and c: "um_work_id_counter (sy_mgr s) < INT_MAX"
  shows "system_ok (snd (handle_setup e link msg s))"
proof (cases "event_params 1 msg")
  case (Inl ex)
  then show ?thesis using ok by (simp add: handle_setup_def)
next
  case (Inr p)
  obtain url d where p: "p = (url, d)" by (cases p)
  let ?n = "with_ids url d (sy_node s)"
  have co: "registry_ok (sy_mgr s)" "short_urls (sy_mgr s)" "coherent ?n (sy_mgr s)"
    using ok coherent_view [OF same_view_ids] by (auto simp: system_ok_def)
  show ?thesis
  proof (cases "sy_status s = 0")
    case True
    then show ?thesis using Inr p system_view [OF ok same_view_ids] by (simp add: handle_setup_def Let_def)
  next
    case False
    obtain r n m where f: "sf_setup e link url d (?n, sy_mgr s) = (r, n, m)" by (metis prod_cases3)
    have "registry_ok m \<and> short_urls m \<and> coherent n m"
    proof (cases "link = LinkUp")
      case True
      then show ?thesis using setup_event_coherent [OF co(1,2) c co(3)] f by simp
    next
      case nl: False
      then show ?thesis using setup_event_unreached [OF nl f] co by simp
    qed
    then show ?thesis using Inr p False f by (simp add: handle_setup_def system_ok_def)
  qed
qed

lemma handle_exit_ok:
  assumes ok: "system_ok s"
  shows "system_ok (snd (handle_exit e link msg s))"
proof (cases "event_params 1 msg")
  case (Inl ex)
  then show ?thesis using ok by (simp add: handle_exit_def)
next
  case (Inr p)
  obtain url d where p: "p = (url, d)" by (cases p)
  let ?n = "with_ids url d (sy_node s)"
  have co: "registry_ok (sy_mgr s)" "short_urls (sy_mgr s)" "coherent ?n (sy_mgr s)"
    using ok coherent_view [OF same_view_ids] by (auto simp: system_ok_def)
  obtain r n m where f: "sf_exit e link url d (?n, sy_mgr s) = (r, n, m)" by (metis prod_cases3)
  from exit_event_coherent [OF co f] system_view [OF ok same_view_ids, of url d]
  show ?thesis using Inr p f by (simp add: handle_exit_def system_ok_def Let_def)
qed

lemma handle_pause_ok: "system_ok s \<Longrightarrow> system_ok (snd (handle_pause e msg s))"
proof -
  assume ok: "system_ok s"
  have "same_view n (snd (sf_pause e url d n))" for url d n
    using same_view_redirect by (simp add: sf_pause_def base_pause_def get_string_def error_object_def Let_def)
  then have v: "same_view (sy_node s) (snd (sf_pause e url d (with_ids url d (sy_node s))))" for url d
    using same_view_trans [OF same_view_ids] by blast
  show ?thesis
    using system_view [OF ok v] system_view [OF ok same_view_ids] ok
    by (simp add: handle_pause_def Let_def case_prod_beta split: sum.split)
qed

lemma handle_taskinfo_ok: "system_ok s \<Longrightarrow> system_ok (snd (handle_taskinfo e msg s))"
proof -
  assume ok: "system_ok s"
  have "same_view n (snd (sf_taskinfo e url d n))" for url d n
    using same_view_trans [OF same_view_redirect same_view_taskinfo] by (simp add: sf_taskinfo_def Let_def)
  then have v: "same_view (sy_node s) (snd (sf_taskinfo e url d (with_ids url d (sy_node s))))" for url d
    using same_view_trans [OF same_view_ids] by blast
  show ?thesis
    using system_view [OF ok v] system_view [OF ok same_view_ids] ok
    by (simp add: handle_taskinfo_def Let_def case_prod_beta split: sum.split)
qed

lemma even_loop_ok:
  assumes ok: "system_ok s" and c: "um_work_id_counter (sy_mgr s) < INT_MAX"
  shows "system_ok (even_loop_step e link s)"
proof (cases "sy_queue s")
  case Nil
  then show ?thesis using ok by (simp add: even_loop_step_def)
next
  case (Cons p q)
  obtain ev msg where p: "p = (ev, msg)" by (cases p)
  let ?s = "s\<lparr>sy_queue := q\<rparr>"
  have ok': "system_ok ?s" "um_work_id_counter (sy_mgr ?s) < INT_MAX" using ok c by (simp_all add: system_ok_def)
  obtain r s1 where h: "(case ev of EVENT_NONE \<Rightarrow> (Inr (), ?s) | EVENT_SETUP \<Rightarrow> handle_setup e link msg ?s
      | EVENT_EXIT \<Rightarrow> handle_exit e link msg ?s | EVENT_PAUSE \<Rightarrow> handle_pause e msg ?s
      | EVENT_TASKINFO \<Rightarrow> handle_taskinfo e msg ?s) = (r, s1)" by (meson surj_pair)
  have "system_ok s1"
    using h ok' handle_setup_ok [OF ok', of e link msg] handle_exit_ok [OF ok'(1), of e link msg]
      handle_pause_ok [OF ok'(1), of e msg] handle_taskinfo_ok [OF ok'(1), of e msg]
    by (cases ev) simp_all
  then have "system_ok (s1\<lparr>sy_alive := False\<rparr>)" by (simp add: system_ok_def)
  then show ?thesis using Cons p h \<open>system_ok s1\<close> by (simp add: even_loop_step_def Let_def split: sum.split)
qed

lemma node_actions_lookup:
  "map_of (node_actions e) a = Some f \<Longrightarrow> f = ListAction \<or> f = Action (rpc_metrics_query e) \<or> f = Action (rpc_reload_config e) \<or>
     (\<exists>ev. f = Action (rpc_enqueue ev))"
  by (auto simp: node_actions_def register_rpc_action_def map_of_alist_put Let_def split: if_splits)

lemma node_rpc_ok: "system_ok s \<Longrightarrow> system_ok (snd (node_rpc e action payload s))"
proof -
  assume ok: "system_ok s"
  have m: "system_ok (snd (rpc_metrics_query e payload s))"
    using ok system_view [OF ok same_view_trans [OF same_view_ids same_view_metrics]]
    by (simp add: rpc_metrics_query_def split: sum.split)
  have r: "system_ok (snd (rpc_reload_config e payload s))"
    using ok system_view [OF ok same_view_trans [OF same_view_ids same_view_reload]]
    by (simp add: rpc_reload_config_def split: sum.split)
  have q: "system_ok (snd (rpc_enqueue ev payload s))" for ev
    using ok by (simp add: rpc_enqueue_def system_ok_def)
  have act: "system_ok (snd (rpc_dispatch fs action payload s))"
    if "map_of fs action = Some (Action f)" "system_ok (snd (f payload s))" for f fs
    using that by (cases "f payload s") (simp add: rpc_dispatch_def split: sum.split)
  show ?thesis
  proof (cases "map_of (node_actions e) action")
    case None
    then show ?thesis using ok by (simp add: node_rpc_def rpc_dispatch_def)
  next
    case (Some f)
    from node_actions_lookup [OF Some] show ?thesis
      using Some ok act [of "node_actions e"] m r q by (auto simp: node_rpc_def rpc_dispatch_def [where action = action])
  qed
qed

lemma channel_message_ok: "system_ok s \<Longrightarrow> system_ok (channel_message e num raw s)"
proof (cases "map_of (nl_channels (sy_node s)) num")
  case (Some ch)
  assume ok: "system_ok s"
  obtain obj d ch' where c: "subscriber_event_call raw ch = ((obj, d), ch')" by (metis prod.exhaust)
  obtain r n where t: "task_user_data e (Some ch') obj d (put_channel num ch' (sy_node s)) = (r, n)" by (meson surj_pair)
  have "same_view (sy_node s) (put_channel num ch' (sy_node s))"
    using Some c channel_urls(11,12) [of raw ch] by (intro same_view_put [of _ _ ch]) simp_all
  then have "same_view (sy_node s) n"
    using same_view_trans same_view_data [of "put_channel num ch' (sy_node s)" e "Some ch'" obj d] t by simp
  from system_view [OF ok this] show ?thesis
    using Some c t by (cases r) (simp_all add: channel_message_def system_ok_def)
qed (simp add: channel_message_def)

lemma live_key: "unit_at m k \<noteq> None \<Longrightarrow> unit_key m k"
  unfolding unit_key_def by blast

lemma register_step_units:
  assumes ok: "registry_ok m" "short_urls m" and wb: "well_behaved [RegisterUnit unit] m"
  shows "short_urls (registry_step (RegisterUnit unit) m) \<and>
    (\<forall>k. unit_at m k \<noteq> None \<longrightarrow> unit_at (registry_step (RegisterUnit unit) m) k = unit_at m k)"
proof (cases "length (filter Not (um_port_list m)) < 2")
  case True
  have "0 < um_port_list_start m" using ok(1) by (simp add: registry_ok_def)
  from allocate_unit_fails [OF this True, of unit] show ?thesis using ok(2) by (simp add: rpc_allocate_unit_def)
next
  case False
  obtain pre post where st: "0 < um_port_list_start m" "good_format (um_zmq_s_format m) pre post"
    using ok(1) by (auto simp: registry_ok_def)
  have "2 \<le> length (filter Not (um_port_list m))" "name_ok unit" using False wb by simp_all
  from allocate_unit_succeeds [OF st(1) this(1) st(2) this(2)] obtain i j u
    where u: "ud_work_id u = unit @ ''.'' @ to_string (um_work_id_counter m)"
      "sys_allocate_unit unit m = (Inr (Some u), registered (ud_work_id u) i j u m)" by metis
  have "short_urls (registered (ud_work_id u) i j u m)" by (rule short_urls_cong [OF _ _ _ ok(2)]) simp_all
  moreover have "unit_at m (ud_work_id u) = None" using fresh_key [OF ok(1)] by (simp add: u(1))
  ultimately show ?thesis using u(2) unit_at_registered [OF ok(1), of "ud_work_id u" i j u]
    by (auto simp: rpc_allocate_unit_def)
qed

lemma manager_step_ok:
  assumes ok: "system_ok s" and wb: "well_behaved [x] (sy_mgr s)"
    and x: "\<forall>num. chan_urls (sy_node s) num \<noteq> None \<longrightarrow> x \<noteq> ReleaseUnit (node_wid num)"
  shows "system_ok (s\<lparr>sy_mgr := registry_step x (sy_mgr s)\<rparr>)"
proof -
  let ?m = "sy_mgr s" and ?m' = "registry_step x (sy_mgr s)"
  have r: "registry_ok ?m" "short_urls ?m" "coherent (sy_node s) ?m" using ok by (simp_all add: system_ok_def)
  have r': "registry_ok ?m'" by (rule registry_step_ok [OF r(1) wb])
  have live: "unit_at ?m (node_wid num) \<noteq> None" if "0 \<le> num" "chan_urls (sy_node s) num \<noteq> None" for num
    using r(3) that by (fastforce simp: coherent_def)
  have "short_urls ?m' \<and> (\<forall>num. 0 \<le> num \<longrightarrow> chan_urls (sy_node s) num \<noteq> None \<longrightarrow>
      unit_at ?m' (node_wid num) = unit_at ?m (node_wid num))"
  proof (cases x)
    case (RegisterUnit unit)
    then show ?thesis using register_step_units [OF r(1,2)] wb live by blast
  next
    case (ReleaseUnit k)
    have "?m' = snd (unit_call LinkUp ''release_unit'' k ?m)"
      by (simp add: ReleaseUnit unit_call_def rpc_dispatch_def sys_actions_lookup rpc_release_unit_def)
    then show ?thesis using release_call [OF r(1,2), of LinkUp k] x ReleaseUnit by metis
  next
    case (SqlSet k v)
    have "node_wid num \<noteq> k" if "0 \<le> num" "chan_urls (sy_node s) num \<noteq> None" for num
      using live_key [OF live [OF that]] wb SqlSet by auto
    then show ?thesis using short_urls_cong [OF _ _ _ r(2), of ?m']
      by (simp add: SqlSet sys_sql_set_def safe_setting_def unit_at_def map_of_alist_put)
  next
    case (SqlUnset k)
    have "node_wid num \<noteq> k" if "0 \<le> num" "chan_urls (sy_node s) num \<noteq> None" for num
      using live_key [OF live [OF that]] wb SqlUnset by auto
    then show ?thesis using short_urls_cong [OF _ _ _ r(2), of ?m']
      by (simp add: SqlUnset sys_sql_unset_def safe_erase_def unit_at_def map_of_alist_erase)
  qed
  then show ?thesis using r' coherent_units [OF r(3), of ?m'] by (simp add: system_ok_def)
qed

section \<open>Properties\<close>


definition sample_system :: system where
  "sample_system = \<lparr>sy_node = new_node, sy_mgr = sample_manager, sy_queue = [], sy_status = 1, sy_alive = True\<rparr>"

lemma sample_system_ok: "system_ok sample_system"
proof -
  have "length url \<le> 127" if p: "port_in_range sample_manager p"
    and u: "make_unit_zmq_url unit_name ''.output_url'' p sample_manager = Inr url" for p url
  proof -
    have "p = 5010 \<or> p = 5011 \<or> p = 5012" using p by (auto simp: port_in_range_def sample_manager_def)
    moreover have "make_unit_zmq_url unit_name ''.output_url'' 5010 sample_manager = Inr ''ipc:///tmp/llm/5010.sock.llm.output_url''"
      "make_unit_zmq_url unit_name ''.output_url'' 5011 sample_manager = Inr ''ipc:///tmp/llm/5011.sock.llm.output_url''"
      "make_unit_zmq_url unit_name ''.output_url'' 5012 sample_manager = Inr ''ipc:///tmp/llm/5012.sock.llm.output_url''"
      by code_simp+
    ultimately show ?thesis using u by auto
  qed
  then have "short_urls sample_manager" unfolding short_urls_def by blast
  then show ?thesis using sample_manager_ok
    by (simp add: system_ok_def sample_system_def coherent_def chan_urls_def has_session_def new_node_def)
qed


section \<open>Events that end the node\<close>

text \<open>A pause call: the default handler throws in the event thread.\<close>

lemma pause_ends_node:
  assumes "sy_queue s = (EVENT_PAUSE, msg) # q" and "event_params 0 msg = Inr p" and "sy_status s \<noteq> 0"
  shows "\<not> sy_alive (even_loop_step e link s)"
  using assms by (cases p) (simp add: even_loop_step_def handle_pause_def sf_pause_def base_pause_def get_string_def error_object_def Let_def)

text \<open>A work id whose number is no number: the conversion throws in the event thread.\<close>

lemma malformed_work_id_ends_node:
  assumes "sy_queue s = (EVENT_TASKINFO, msg) # q" and "event_params 1 msg = Inr (url, raw)" and "sy_status s \<noteq> 0"
    and "sample_json_str_get raw ''work_id'' = ''llm.x''"
  shows "\<not> sy_alive (even_loop_step e link s)"
proof -
  have "sample_get_work_id_num ''llm.x'' = Inl InvalidArgument" by code_simp
  then show ?thesis using assms
    by (simp add: even_loop_step_def handle_taskinfo_def sf_taskinfo_def node_taskinfo_def redirect_channel_def Let_def)
qed

end
