(* ===== verification/Net_Buffer.thy ===== *)
theory Net_Buffer
  imports Prelude
begin

text \<open>
  The byte buffer of the network library (\<^verbatim>\<open>network/include/network/Buffer.h\<close>,
  \<^verbatim>\<open>network/src/Buffer.cc\<close>, \<^verbatim>\<open>network/include/network/Endian.h\<close>): a vector with a reader and a writer
  index. A failed \<^verbatim>\<open>assert\<close> is the exception \<open>AssertFailed\<close>. The host is little endian or not
  (\<open>le\<close>); an integer is a word, and its object representation is what \<^verbatim>\<open>memcpy\<close> and \<^verbatim>\<open>append\<close> see.
  The kernel's \<^verbatim>\<open>readv\<close> is a parameter of \<open>readFd\<close>.

  The locale \<open>byte_queue\<close> is the contract of a first-in first-out queue of bytes; the buffer is
  shown to satisfy it, and to refine a plain list of bytes under every operation.
\<close>

section \<open>The vector\<close>

definition vec_copy :: "nat \<Rightarrow> 'a list \<Rightarrow> 'a list \<Rightarrow> 'a list" where
  "vec_copy i data v = take i v @ data @ drop (i + length data) v"

definition vec_resize :: "nat \<Rightarrow> 'a \<Rightarrow> 'a list \<Rightarrow> 'a list" where
  "vec_resize n x v = (if n \<le> length v then take n v else v @ replicate (n - length v) x)"

definition vec_slice :: "nat \<Rightarrow> nat \<Rightarrow> 'a list \<Rightarrow> 'a list" where
  "vec_slice i j v = take (j - i) (drop i v)"

section \<open>Indices\<close>

definition kCheapPrepend :: nat where
  "kCheapPrepend = 8"

definition kInitialSize :: nat where
  "kInitialSize = 1024 * 4"

record Buffer =
  bf_buffer :: "char list"
  bf_readerIndex :: nat
  bf_writerIndex :: nat

definition new_Buffer :: "nat \<Rightarrow> Buffer" where
  "new_Buffer initialSize =
     \<lparr>bf_buffer = replicate (kCheapPrepend + initialSize) (char_of (0::nat)), bf_readerIndex = kCheapPrepend,
      bf_writerIndex = kCheapPrepend\<rparr>"

definition readableBytes :: "Buffer \<Rightarrow> nat" where
  "readableBytes b = bf_writerIndex b - bf_readerIndex b"

definition writableBytes :: "Buffer \<Rightarrow> nat" where
  "writableBytes b = length (bf_buffer b) - bf_writerIndex b"

definition prependableBytes :: "Buffer \<Rightarrow> nat" where
  "prependableBytes b = bf_readerIndex b"

definition cpp_assert :: "bool \<Rightarrow> 'a result \<Rightarrow> 'a result" where
  "cpp_assert c k = (if c then k else Inl AssertFailed)"

section \<open>Reading\<close>

definition retrieveAll :: "Buffer \<Rightarrow> Buffer" where
  "retrieveAll b = b\<lparr>bf_readerIndex := kCheapPrepend, bf_writerIndex := kCheapPrepend\<rparr>"

definition retrieve :: "nat \<Rightarrow> Buffer \<Rightarrow> Buffer result" where
  "retrieve len b =
     cpp_assert (len \<le> readableBytes b)
       (Inr (if len < readableBytes b then b\<lparr>bf_readerIndex := bf_readerIndex b + len\<rparr> else retrieveAll b))"

definition peek_bytes :: "nat \<Rightarrow> Buffer \<Rightarrow> char list" where
  "peek_bytes len b = vec_slice (bf_readerIndex b) (bf_readerIndex b + len) (bf_buffer b)"

definition retrieveAsString :: "nat \<Rightarrow> Buffer \<Rightarrow> (string \<times> Buffer) result" where
  "retrieveAsString len b =
     cpp_assert (len \<le> readableBytes b)
       (map_sum id (Pair (peek_bytes len b)) (retrieve len b))"

definition retrieveAllAsString :: "Buffer \<Rightarrow> (string \<times> Buffer) result" where
  "retrieveAllAsString b = retrieveAsString (readableBytes b) b"

section \<open>Writing\<close>

definition makeSpace :: "nat \<Rightarrow> Buffer \<Rightarrow> Buffer result" where
  "makeSpace len b =
     (if writableBytes b + prependableBytes b < len + kCheapPrepend
      then Inr (b\<lparr>bf_buffer := vec_resize (bf_writerIndex b + len) (char_of (0::nat)) (bf_buffer b)\<rparr>)
      else cpp_assert (kCheapPrepend < bf_readerIndex b)
        (let readable = readableBytes b;
             b' = b\<lparr>bf_buffer := vec_copy kCheapPrepend
                      (vec_slice (bf_readerIndex b) (bf_writerIndex b) (bf_buffer b)) (bf_buffer b),
                    bf_readerIndex := kCheapPrepend, bf_writerIndex := kCheapPrepend + readable\<rparr>
         in cpp_assert (readable = readableBytes b') (Inr b')))"

definition ensureWritableBytes :: "nat \<Rightarrow> Buffer \<Rightarrow> Buffer result" where
  "ensureWritableBytes len b =
     (case (if writableBytes b < len then makeSpace len b else Inr b) of
        Inl e \<Rightarrow> Inl e
      | Inr b \<Rightarrow> cpp_assert (len \<le> writableBytes b) (Inr b))"

definition hasWritten :: "nat \<Rightarrow> Buffer \<Rightarrow> Buffer result" where
  "hasWritten len b =
     cpp_assert (len \<le> writableBytes b) (Inr (b\<lparr>bf_writerIndex := bf_writerIndex b + len\<rparr>))"

definition append_bytes :: "char list \<Rightarrow> Buffer \<Rightarrow> Buffer result" where
  "append_bytes data b =
     (case ensureWritableBytes (length data) b of
        Inl e \<Rightarrow> Inl e
      | Inr b \<Rightarrow> hasWritten (length data)
                 (b\<lparr>bf_buffer := vec_copy (bf_writerIndex b) data (bf_buffer b)\<rparr>))"

definition unwrite :: "nat \<Rightarrow> Buffer \<Rightarrow> Buffer result" where
  "unwrite len b =
     cpp_assert (len \<le> readableBytes b) (Inr (b\<lparr>bf_writerIndex := bf_writerIndex b - len\<rparr>))"

definition prepend :: "char list \<Rightarrow> Buffer \<Rightarrow> Buffer result" where
  "prepend data b =
     cpp_assert (length data \<le> prependableBytes b)
       (let r = bf_readerIndex b - length data
        in Inr (b\<lparr>bf_readerIndex := r, bf_buffer := vec_copy r data (bf_buffer b)\<rparr>))"

section \<open>Integers in network byte order\<close>

fun le_bytes :: "nat \<Rightarrow> nat \<Rightarrow> char list" where
  "le_bytes 0 x = []"
| "le_bytes (Suc n) x = char_of (x mod 256) # le_bytes n (x div 256)"

fun le_value :: "char list \<Rightarrow> nat" where
  "le_value [] = 0"
| "le_value (c # cs) = of_char c + 256 * le_value cs"

text \<open>The object representation of a word, and reading it back.\<close>

definition store_word :: "bool \<Rightarrow> 'a::len word \<Rightarrow> char list" where
  "store_word le x =
     (let bs = le_bytes (LENGTH('a) div 8) (unat x) in if le then bs else rev bs)"

definition load_word :: "bool \<Rightarrow> char list \<Rightarrow> 'a::len word" where
  "load_word le bs = word_of_nat (le_value (if le then bs else rev bs))"

definition byte_swap :: "'a::len word \<Rightarrow> 'a word" where
  "byte_swap x = word_of_nat (le_value (rev (le_bytes (LENGTH('a) div 8) (unat x))))"

definition hostToNetwork64 :: "bool \<Rightarrow> 64 word \<Rightarrow> 64 word" where
  "hostToNetwork64 le x = (if le then byte_swap x else x)"

definition hostToNetwork32 :: "bool \<Rightarrow> 32 word \<Rightarrow> 32 word" where
  "hostToNetwork32 le x = (if le then byte_swap x else x)"

definition hostToNetwork16 :: "bool \<Rightarrow> 16 word \<Rightarrow> 16 word" where
  "hostToNetwork16 le x = (if le then byte_swap x else x)"

definition networkToHost64 :: "bool \<Rightarrow> 64 word \<Rightarrow> 64 word" where
  "networkToHost64 le x = (if le then byte_swap x else x)"

definition networkToHost32 :: "bool \<Rightarrow> 32 word \<Rightarrow> 32 word" where
  "networkToHost32 le x = (if le then byte_swap x else x)"

definition networkToHost16 :: "bool \<Rightarrow> 16 word \<Rightarrow> 16 word" where
  "networkToHost16 le x = (if le then byte_swap x else x)"

definition appendInt64 :: "bool \<Rightarrow> 64 word \<Rightarrow> Buffer \<Rightarrow> Buffer result" where
  "appendInt64 le x b = append_bytes (store_word le (hostToNetwork64 le x)) b"

definition appendInt32 :: "bool \<Rightarrow> 32 word \<Rightarrow> Buffer \<Rightarrow> Buffer result" where
  "appendInt32 le x b = append_bytes (store_word le (hostToNetwork32 le x)) b"

definition appendInt16 :: "bool \<Rightarrow> 16 word \<Rightarrow> Buffer \<Rightarrow> Buffer result" where
  "appendInt16 le x b = append_bytes (store_word le (hostToNetwork16 le x)) b"

definition appendInt8 :: "bool \<Rightarrow> 8 word \<Rightarrow> Buffer \<Rightarrow> Buffer result" where
  "appendInt8 le x b = append_bytes (store_word le x) b"

definition prependInt64 :: "bool \<Rightarrow> 64 word \<Rightarrow> Buffer \<Rightarrow> Buffer result" where
  "prependInt64 le x b = prepend (store_word le (hostToNetwork64 le x)) b"

definition prependInt32 :: "bool \<Rightarrow> 32 word \<Rightarrow> Buffer \<Rightarrow> Buffer result" where
  "prependInt32 le x b = prepend (store_word le (hostToNetwork32 le x)) b"

definition prependInt16 :: "bool \<Rightarrow> 16 word \<Rightarrow> Buffer \<Rightarrow> Buffer result" where
  "prependInt16 le x b = prepend (store_word le (hostToNetwork16 le x)) b"

definition prependInt8 :: "bool \<Rightarrow> 8 word \<Rightarrow> Buffer \<Rightarrow> Buffer result" where
  "prependInt8 le x b = prepend (store_word le x) b"

definition peekInt64 :: "bool \<Rightarrow> Buffer \<Rightarrow> 64 word result" where
  "peekInt64 le b =
     cpp_assert (8 \<le> readableBytes b) (Inr (networkToHost64 le (load_word le (peek_bytes 8 b))))"

definition peekInt32 :: "bool \<Rightarrow> Buffer \<Rightarrow> 32 word result" where
  "peekInt32 le b =
     cpp_assert (4 \<le> readableBytes b) (Inr (networkToHost32 le (load_word le (peek_bytes 4 b))))"

definition peekInt16 :: "bool \<Rightarrow> Buffer \<Rightarrow> 16 word result" where
  "peekInt16 le b =
     cpp_assert (2 \<le> readableBytes b) (Inr (networkToHost16 le (load_word le (peek_bytes 2 b))))"

definition peekInt8 :: "bool \<Rightarrow> Buffer \<Rightarrow> 8 word result" where
  "peekInt8 le b = cpp_assert (1 \<le> readableBytes b) (Inr (load_word le (peek_bytes 1 b)))"

definition then_retrieve :: "nat \<Rightarrow> 'a result \<Rightarrow> Buffer \<Rightarrow> ('a \<times> Buffer) result" where
  "then_retrieve len r b =
     (case r of Inl e \<Rightarrow> Inl e | Inr x \<Rightarrow> map_sum id (Pair x) (retrieve len b))"

definition readInt64 :: "bool \<Rightarrow> Buffer \<Rightarrow> (64 word \<times> Buffer) result" where
  "readInt64 le b = then_retrieve 8 (peekInt64 le b) b"

definition readInt32 :: "bool \<Rightarrow> Buffer \<Rightarrow> (32 word \<times> Buffer) result" where
  "readInt32 le b = then_retrieve 4 (peekInt32 le b) b"

definition readInt16 :: "bool \<Rightarrow> Buffer \<Rightarrow> (16 word \<times> Buffer) result" where
  "readInt16 le b = then_retrieve 2 (peekInt16 le b) b"

definition readInt8 :: "bool \<Rightarrow> Buffer \<Rightarrow> (8 word \<times> Buffer) result" where
  "readInt8 le b = then_retrieve 1 (peekInt8 le b) b"

section \<open>Reading from a descriptor\<close>

definition extrabuf_size :: nat where
  "extrabuf_size = 1024 * 1024"

text \<open>What \<^verbatim>\<open>readv\<close> does with room for \<open>n\<close> bytes: an error number, or the bytes it read.\<close>

type_synonym readv = "nat \<Rightarrow> int + char list"

definition readFd :: "readv \<Rightarrow> Buffer \<Rightarrow> (int \<times> int option \<times> Buffer) result" where
  "readFd readv b =
     (let writable = writableBytes b;
          room = (if writable < extrabuf_size then writable + extrabuf_size else writable)
      in case readv room of
           Inl err \<Rightarrow> Inr (-1, Some err, b)
         | Inr data \<Rightarrow>
             let n = length data;
                 b1 = b\<lparr>bf_buffer := vec_copy (bf_writerIndex b) (take writable data) (bf_buffer b)\<rparr>
             in if n \<le> writable
                then Inr (int n, None, b1\<lparr>bf_writerIndex := bf_writerIndex b1 + n\<rparr>)
                else map_sum id (\<lambda>b. (int n, None, b))
                       (append_bytes (drop writable data)
                         (b1\<lparr>bf_writerIndex := length (bf_buffer b1)\<rparr>)))"

section \<open>The specification: a list of bytes\<close>

definition contents :: "Buffer \<Rightarrow> char list" where
  "contents b = vec_slice (bf_readerIndex b) (bf_writerIndex b) (bf_buffer b)"

definition buffer_ok :: "Buffer \<Rightarrow> bool" where
  "buffer_ok b \<longleftrightarrow> bf_readerIndex b \<le> bf_writerIndex b \<and> bf_writerIndex b \<le> length (bf_buffer b) \<and>
     kCheapPrepend \<le> length (bf_buffer b)"

datatype buffer_op =
    BAppend "char list"
  | BRetrieve nat
  | BRetrieveAsString nat
  | BRetrieveAllAsString
  | BUnwrite nat
  | BReadFd "char list"

text \<open>One operation, with the bytes it returns. \<open>BReadFd\<close> is a read with \<open>data\<close> waiting in the
  descriptor.\<close>

definition kernel_readv :: "char list \<Rightarrow> readv" where
  "kernel_readv data room = Inr (take room data)"

fun buffer_step :: "buffer_op \<Rightarrow> Buffer \<Rightarrow> (char list \<times> Buffer) result" where
  "buffer_step (BAppend data) b = map_sum id (Pair []) (append_bytes data b)"
| "buffer_step (BRetrieve n) b = map_sum id (Pair []) (retrieve n b)"
| "buffer_step (BRetrieveAsString n) b = retrieveAsString n b"
| "buffer_step BRetrieveAllAsString b = retrieveAllAsString b"
| "buffer_step (BUnwrite n) b = map_sum id (Pair []) (unwrite n b)"
| "buffer_step (BReadFd data) b = map_sum id (\<lambda>(n, e, b). ([], b)) (readFd (kernel_readv data) b)"

text \<open>The same operation on the bytes alone. A read takes at least a mebibyte of what is waiting,
  and more when the buffer has more room; \<open>room\<close> is how much.\<close>

definition read_room :: "Buffer \<Rightarrow> nat" where
  "read_room b = (if writableBytes b < extrabuf_size then writableBytes b + extrabuf_size else writableBytes b)"

fun bytes_step :: "nat \<Rightarrow> buffer_op \<Rightarrow> char list \<Rightarrow> (char list \<times> char list) result" where
  "bytes_step room (BAppend data) q = Inr ([], q @ data)"
| "bytes_step room (BRetrieve n) q = (if n \<le> length q then Inr ([], drop n q) else Inl AssertFailed)"
| "bytes_step room (BRetrieveAsString n) q =
     (if n \<le> length q then Inr (take n q, drop n q) else Inl AssertFailed)"
| "bytes_step room BRetrieveAllAsString q = Inr (q, [])"
| "bytes_step room (BUnwrite n) q =
     (if n \<le> length q then Inr ([], take (length q - n) q) else Inl AssertFailed)"
| "bytes_step room (BReadFd data) q = Inr ([], q @ take room data)"

fun buffer_run :: "buffer_op list \<Rightarrow> Buffer \<Rightarrow> (char list list \<times> Buffer) result" where
  "buffer_run [] b = Inr ([], b)"
| "buffer_run (op # ops) b =
     (case buffer_step op b of
        Inl e \<Rightarrow> Inl e
      | Inr (out, b) \<Rightarrow> map_sum id (\<lambda>(outs, b). (out # outs, b)) (buffer_run ops b))"

section \<open>The contract of a queue of bytes\<close>

datatype byte_op = Put "char list" | Get nat

fun byte_run ::
  "(char list \<Rightarrow> 'b \<Rightarrow> 'b result) \<Rightarrow> (nat \<Rightarrow> 'b \<Rightarrow> (char list \<times> 'b) result) \<Rightarrow> byte_op list \<Rightarrow> 'b
     \<Rightarrow> (char list list \<times> 'b) result" where
  "byte_run put get [] b = Inr ([], b)"
| "byte_run put get (Put data # ops) b =
     (case put data b of Inl e \<Rightarrow> Inl e | Inr b \<Rightarrow> byte_run put get ops b)"
| "byte_run put get (Get n # ops) b =
     (case get n b of
        Inl e \<Rightarrow> Inl e
      | Inr (out, b) \<Rightarrow> map_sum id (\<lambda>(outs, b). (out # outs, b)) (byte_run put get ops b))"

fun puts :: "byte_op list \<Rightarrow> char list" where
  "puts [] = []"
| "puts (Put data # ops) = data @ puts ops"
| "puts (Get n # ops) = puts ops"

text \<open>Every \<open>Get\<close> asks for no more than has been put and not yet taken.\<close>

fun gets_ok :: "nat \<Rightarrow> byte_op list \<Rightarrow> bool" where
  "gets_ok k [] = True"
| "gets_ok k (Put data # ops) = gets_ok (k + length data) ops"
| "gets_ok k (Get n # ops) = (n \<le> k \<and> gets_ok (k - n) ops)"

locale byte_queue =
  fixes ok :: "'b \<Rightarrow> bool" and bytes :: "'b \<Rightarrow> char list"
    and put :: "char list \<Rightarrow> 'b \<Rightarrow> 'b result" and get :: "nat \<Rightarrow> 'b \<Rightarrow> (char list \<times> 'b) result"
  assumes put: "ok b \<Longrightarrow> \<exists>b'. put data b = Inr b' \<and> ok b' \<and> bytes b' = bytes b @ data"
    and get: "ok b \<Longrightarrow> n \<le> length (bytes b) \<Longrightarrow>
      \<exists>b'. get n b = Inr (take n (bytes b), b') \<and> ok b' \<and> bytes b' = drop n (bytes b)"
    and get_fails: "ok b \<Longrightarrow> length (bytes b) < n \<Longrightarrow> get n b = Inl AssertFailed"
begin

lemma fifo:
  "ok b \<Longrightarrow> gets_ok (length (bytes b)) ops \<Longrightarrow>
   \<exists>outs b'. byte_run put get ops b = Inr (outs, b') \<and> ok b' \<and> concat outs @ bytes b' = bytes b @ puts ops"
proof (induction ops arbitrary: b rule: puts.induct)
  case (2 data ops)
  obtain b' where b': "put data b = Inr b'" "ok b'" "bytes b' = bytes b @ data" using put [OF 2(2)] by blast
  then show ?case using 2(1) [of b'] 2(3) by (auto simp: add.commute)
next
  case (3 n ops)
  obtain b' where b': "get n b = Inr (take n (bytes b), b')" "ok b'" "bytes b' = drop n (bytes b)"
    using get [OF 3(2)] 3(3) by auto
  then obtain outs b'' where r: "byte_run put get ops b' = Inr (outs, b'')" "ok b''"
      "concat outs @ bytes b'' = bytes b' @ puts ops"
    using 3(1) [of b'] 3(3) by auto
  then show ?case using b' by (intro exI [of _ "take n (bytes b) # outs"]) auto
qed auto

lemma underflow:
  "ok b \<Longrightarrow> \<not> gets_ok (length (bytes b)) ops \<Longrightarrow> byte_run put get ops b = Inl AssertFailed"
proof (induction ops arbitrary: b rule: puts.induct)
  case (2 data ops)
  obtain b' where b': "put data b = Inr b'" "ok b'" "bytes b' = bytes b @ data" using put [OF 2(2)] by blast
  then show ?case using 2(1) [of b'] 2(3) by (auto simp: add.commute)
next
  case (3 n ops)
  show ?case
  proof (cases "n \<le> length (bytes b)")
    case True
    obtain b' where b': "get n b = Inr (take n (bytes b), b')" "ok b'" "bytes b' = drop n (bytes b)"
      using get [OF 3(2) True] by auto
    then show ?thesis using 3(1) [of b'] 3(3) True by auto
  next
    case False
    then show ?thesis using get_fails [OF 3(2)] by auto
  qed
qed auto

end

section \<open>The operations on the bytes\<close>

lemma length_vec_copy: "i + length data \<le> length v \<Longrightarrow> length (vec_copy i data v) = length v"
  by (simp add: vec_copy_def)

lemma slice_copy_after: "j \<le> i \<Longrightarrow> i \<le> length v \<Longrightarrow> vec_slice k j (vec_copy i data v) = vec_slice k j v"
  by (simp add: vec_slice_def vec_copy_def take_drop min_def)

lemma slice_copy_at:
  "i + length data \<le> length v \<Longrightarrow> vec_slice i (i + length data) (vec_copy i data v) = data"
  by (simp add: vec_slice_def vec_copy_def)

lemma slice_split: "i \<le> j \<Longrightarrow> j \<le> k \<Longrightarrow> k \<le> length v \<Longrightarrow> vec_slice i k v = vec_slice i j v @ vec_slice j k v"
proof -
  assume a: "i \<le> j" "j \<le> k" "k \<le> length v"
  then have "k - i = (j - i) + (k - j)" by simp
  then have "take (k - i) (drop i v) = take (j - i) (drop i v) @ take (k - j) (drop (j - i) (drop i v))"
    by (metis take_add)
  then show ?thesis using a by (simp add: vec_slice_def)
qed

lemma length_contents: "buffer_ok b \<Longrightarrow> length (contents b) = readableBytes b"
  by (auto simp: contents_def vec_slice_def buffer_ok_def readableBytes_def)

lemma peek_contents: "buffer_ok b \<Longrightarrow> len \<le> readableBytes b \<Longrightarrow> peek_bytes len b = take len (contents b)"
  by (simp add: peek_bytes_def contents_def vec_slice_def readableBytes_def min_def)

lemma new_Buffer_ok: "buffer_ok (new_Buffer n)" "contents (new_Buffer n) = []"
  by (simp_all add: new_Buffer_def buffer_ok_def contents_def vec_slice_def)

lemma retrieve_bytes:
  assumes "buffer_ok b" and "n \<le> length (contents b)"
  shows "\<exists>b'. retrieve n b = Inr b' \<and> buffer_ok b' \<and> contents b' = drop n (contents b)"
  using assms length_contents [OF assms(1)]
  by (auto simp: retrieve_def cpp_assert_def retrieveAll_def buffer_ok_def contents_def vec_slice_def
      readableBytes_def drop_take add.commute)

lemma retrieve_fails: "buffer_ok b \<Longrightarrow> length (contents b) < n \<Longrightarrow> retrieve n b = Inl AssertFailed"
  by (simp add: retrieve_def cpp_assert_def length_contents)

lemma makeSpace_bytes:
  assumes "buffer_ok b" and "writableBytes b < len"
  shows "\<exists>b'. makeSpace len b = Inr b' \<and> buffer_ok b' \<and> contents b' = contents b \<and> len \<le> writableBytes b' \<and>
    length (bf_buffer b') = (if length (bf_buffer b) < readableBytes b + len + kCheapPrepend
      then bf_writerIndex b + len else length (bf_buffer b))"
proof (cases "writableBytes b + prependableBytes b < len + kCheapPrepend")
  case True
  have wr: "length (bf_buffer b) < bf_writerIndex b + len" using assms by (simp add: buffer_ok_def writableBytes_def)
  have lt: "length (bf_buffer b) < readableBytes b + len + kCheapPrepend"
    using True assms(1) by (simp add: buffer_ok_def writableBytes_def prependableBytes_def readableBytes_def)
  show ?thesis using True assms(1) wr lt
    by (simp add: makeSpace_def vec_resize_def buffer_ok_def contents_def vec_slice_def writableBytes_def)
next
  case False
  have rd: "kCheapPrepend < bf_readerIndex b"
    using False assms(2) by (simp add: prependableBytes_def)
  have len: "length (contents b) = bf_writerIndex b - bf_readerIndex b"
    using assms(1) by (simp add: length_contents readableBytes_def)
  define b' where "b' = b\<lparr>bf_buffer := vec_copy kCheapPrepend (contents b) (bf_buffer b),
    bf_readerIndex := kCheapPrepend, bf_writerIndex := kCheapPrepend + readableBytes b\<rparr>"
  have mk: "makeSpace len b = Inr b'" using False rd
    by (simp add: makeSpace_def cpp_assert_def b'_def contents_def readableBytes_def)
  have fit: "kCheapPrepend + length (contents b) \<le> length (bf_buffer b)"
    using rd assms(1) len by (auto simp: buffer_ok_def)
  have "contents b' = vec_slice kCheapPrepend (kCheapPrepend + length (contents b))
      (vec_copy kCheapPrepend (contents b) (bf_buffer b))"
    using len by (simp add: b'_def contents_def [of "b\<lparr>bf_buffer := x, bf_readerIndex := y, bf_writerIndex := z\<rparr>" for x y z] readableBytes_def)
  then have "contents b' = contents b" using slice_copy_at [OF fit] by simp
  moreover have "buffer_ok b'" using fit len
    by (simp add: b'_def buffer_ok_def length_vec_copy readableBytes_def)
  moreover have "len \<le> writableBytes b'" "\<not> length (bf_buffer b) < readableBytes b + len + kCheapPrepend"
    using False assms(1) fit len
    by (auto simp: b'_def writableBytes_def prependableBytes_def readableBytes_def length_vec_copy buffer_ok_def)
  ultimately show ?thesis using mk fit by (simp add: b'_def length_vec_copy)
qed

lemma append_bytes_effect:
  assumes "buffer_ok b"
  shows "\<exists>b'. append_bytes data b = Inr b' \<and> buffer_ok b' \<and> contents b' = contents b @ data \<and>
    length (bf_buffer b') = (if length data \<le> writableBytes b \<or>
        readableBytes b + length data + kCheapPrepend \<le> length (bf_buffer b)
      then length (bf_buffer b) else bf_writerIndex b + length data)"
proof -
  obtain b1 where b1: "ensureWritableBytes (length data) b = Inr b1" "buffer_ok b1" "contents b1 = contents b"
    "length data \<le> writableBytes b1" "length (bf_buffer b1) = (if length data \<le> writableBytes b \<or>
        readableBytes b + length data + kCheapPrepend \<le> length (bf_buffer b)
      then length (bf_buffer b) else bf_writerIndex b + length data)"
    using makeSpace_bytes [OF assms, of "length data"] assms
    by (cases "writableBytes b < length data") (auto simp: ensureWritableBytes_def cpp_assert_def)
  have fit: "bf_writerIndex b1 + length data \<le> length (bf_buffer b1)"
    using b1(2,4) by (auto simp: buffer_ok_def writableBytes_def)
  let ?v = "vec_copy (bf_writerIndex b1) data (bf_buffer b1)"
  have "vec_slice (bf_readerIndex b1) (bf_writerIndex b1 + length data) ?v = contents b1 @ data"
    using slice_split [of "bf_readerIndex b1" "bf_writerIndex b1" "bf_writerIndex b1 + length data" ?v]
      slice_copy_at [OF fit] slice_copy_after [of "bf_writerIndex b1" "bf_writerIndex b1" "bf_buffer b1"] fit b1(2)
    by (auto simp: contents_def length_vec_copy buffer_ok_def)
  then show ?thesis using b1 fit
    by (intro exI [of _ "b1\<lparr>bf_buffer := ?v, bf_writerIndex := bf_writerIndex b1 + length data\<rparr>"])
      (simp add: append_bytes_def hasWritten_def cpp_assert_def writableBytes_def buffer_ok_def contents_def
        length_vec_copy)
qed

lemma append_contents:
  "append_bytes data b = Inr b' \<Longrightarrow> buffer_ok b \<Longrightarrow> buffer_ok b' \<and> contents b' = contents b @ data"
  using append_bytes_effect [of b data] by auto

lemma append_succeeds: "buffer_ok b \<Longrightarrow> \<exists>b'. append_bytes data b = Inr b' \<and> buffer_ok b'"
  using append_bytes_effect [of b data] by auto

lemma unwrite_bytes:
  assumes "buffer_ok b"
  shows "map_sum id contents (unwrite n b) =
      (if n \<le> length (contents b) then Inr (take (length (contents b) - n) (contents b)) else Inl AssertFailed)"
    and "unwrite n b = Inr b' \<Longrightarrow> buffer_ok b'"
  using assms length_contents [OF assms]
  by (auto simp: unwrite_def cpp_assert_def contents_def vec_slice_def buffer_ok_def readableBytes_def min_def
      add.commute split: if_splits)

lemma prepend_bytes:
  assumes "buffer_ok b" and "length data \<le> bf_readerIndex b"
  shows "\<exists>b'. prepend data b = Inr b' \<and> buffer_ok b' \<and> contents b' = data @ contents b"
proof -
  let ?r = "bf_readerIndex b - length data"
  let ?v = "vec_copy ?r data (bf_buffer b)"
  have fit: "?r + length data \<le> length (bf_buffer b)" "?r + length data = bf_readerIndex b"
    using assms by (auto simp: buffer_ok_def)
  have "vec_slice ?r (bf_writerIndex b) ?v = data @ vec_slice (bf_readerIndex b) (bf_writerIndex b) (bf_buffer b)"
    using slice_split [of ?r "bf_readerIndex b" "bf_writerIndex b" ?v] slice_copy_at [OF fit(1)] fit assms
    by (auto simp: buffer_ok_def length_vec_copy) (auto simp: vec_slice_def vec_copy_def)
  then show ?thesis using assms fit
    by (intro exI [of _ "b\<lparr>bf_readerIndex := ?r, bf_buffer := ?v\<rparr>"])
      (auto simp: prepend_def cpp_assert_def prependableBytes_def contents_def buffer_ok_def length_vec_copy Let_def)
qed

lemma retrieveAsString_bytes:
  assumes "buffer_ok b"
  shows "n \<le> length (contents b) \<Longrightarrow>
      \<exists>b'. retrieveAsString n b = Inr (take n (contents b), b') \<and> buffer_ok b' \<and> contents b' = drop n (contents b)"
    and "length (contents b) < n \<Longrightarrow> retrieveAsString n b = Inl AssertFailed"
  using retrieve_bytes [OF assms, of n] length_contents [OF assms] peek_contents [OF assms, of n]
  by (auto simp: retrieveAsString_def cpp_assert_def)

lemma readFd_bytes:
  assumes "buffer_ok b" and "\<And>room. readv room = Inr (take room data)"
  shows "\<exists>b'. readFd readv b = Inr (int (min (length data) (read_room b)), None, b') \<and> buffer_ok b' \<and>
    contents b' = contents b @ take (read_room b) data"
proof -
  define w where "w = writableBytes b"
  define d where "d = take (read_room b) data"
  define b1 where "b1 = b\<lparr>bf_buffer := vec_copy (bf_writerIndex b) (take w d) (bf_buffer b)\<rparr>"
  have fit: "bf_writerIndex b + length (take w d) \<le> length (bf_buffer b)"
    using assms(1) by (auto simp: w_def buffer_ok_def writableBytes_def)
  have l1: "length (bf_buffer b1) = length (bf_buffer b)" using fit by (simp add: b1_def length_vec_copy)
  have ok1: "buffer_ok (b1\<lparr>bf_writerIndex := bf_writerIndex b + length (take w d)\<rparr>)"
    using assms(1) fit l1 by (auto simp: buffer_ok_def b1_def)
  have c1: "contents (b1\<lparr>bf_writerIndex := bf_writerIndex b + length (take w d)\<rparr>) = contents b @ take w d"
    using slice_split [of "bf_readerIndex b" "bf_writerIndex b" "bf_writerIndex b + length (take w d)" "bf_buffer b1"]
      slice_copy_at [OF fit] slice_copy_after [of "bf_writerIndex b" "bf_writerIndex b" "bf_buffer b"] fit assms(1) l1
    by (auto simp: contents_def b1_def buffer_ok_def)
  have ld: "length d = min (length data) (read_room b)" by (simp add: d_def)
  have room: "(if w < extrabuf_size then w + extrabuf_size else w) = read_room b"
    by (simp add: read_room_def w_def)
  have rd: "readFd readv b = (if length d \<le> w then Inr (int (length d), None, b1\<lparr>bf_writerIndex := bf_writerIndex b1 + length d\<rparr>)
      else map_sum id (\<lambda>b. (int (length d), None, b))
        (append_bytes (drop w d) (b1\<lparr>bf_writerIndex := length (bf_buffer b1)\<rparr>)))"
    unfolding readFd_def Let_def assms(2) sum.case w_def [symmetric] room d_def [symmetric] b1_def [symmetric] ..
  show ?thesis
  proof (cases "length d \<le> w")
    case True
    then have "take w d = d" by simp
    then show ?thesis using rd ok1 c1 True by (simp add: ld [symmetric] d_def [symmetric]) (simp add: b1_def)
  next
    case False
    then have wr: "bf_writerIndex b + length (take w d) = length (bf_buffer b1)"
      using assms(1) l1 by (simp add: w_def buffer_ok_def writableBytes_def)
    obtain b' where "append_bytes (drop w d) (b1\<lparr>bf_writerIndex := length (bf_buffer b1)\<rparr>) = Inr b'" "buffer_ok b'"
      "contents b' = contents b @ take w d @ drop w d"
      using append_bytes_effect [OF ok1, of "drop w d"] c1 wr by auto
    then show ?thesis using rd False by (simp add: ld [symmetric] d_def [symmetric])
  qed
qed

interpretation buf: byte_queue buffer_ok contents append_bytes retrieveAsString
  using append_bytes_effect retrieveAsString_bytes by unfold_locales blast+

lemma buffer_step_refines:
  assumes "buffer_ok b"
  shows "map_sum id (map_prod id contents) (buffer_step op b) = bytes_step (read_room b) op (contents b)"
    and "buffer_step op b = Inr (out, b') \<Longrightarrow> buffer_ok b'"
proof -
  have "map_sum id (map_prod id contents) (buffer_step op b) = bytes_step (read_room b) op (contents b) \<and>
    (\<forall>out b'. buffer_step op b = Inr (out, b') \<longrightarrow> buffer_ok b')"
  proof (cases op)
    case (BAppend data)
    then show ?thesis using append_bytes_effect [OF assms, of data] by auto
  next
    case (BRetrieve n)
    then show ?thesis using retrieve_bytes [OF assms, of n] retrieve_fails [OF assms, of n]
      by (cases "n \<le> length (contents b)") auto
  next
    case (BRetrieveAsString n)
    then show ?thesis using retrieveAsString_bytes [OF assms, of n] by (cases "n \<le> length (contents b)") auto
  next
    case BRetrieveAllAsString
    then show ?thesis using retrieveAsString_bytes(1) [OF assms, of "readableBytes b"] length_contents [OF assms]
      by (auto simp: retrieveAllAsString_def)
  next
    case (BUnwrite n)
    then show ?thesis using unwrite_bytes [OF assms, of n]
      by (cases "unwrite n b") (auto split: if_splits)
  next
    case (BReadFd data)
    then show ?thesis using readFd_bytes [OF assms, of "kernel_readv data" data]
      by (auto simp: kernel_readv_def)
  qed
  then show "map_sum id (map_prod id contents) (buffer_step op b) = bytes_step (read_room b) op (contents b)"
    and "buffer_step op b = Inr (out, b') \<Longrightarrow> buffer_ok b'" by blast+
qed

section \<open>Integers\<close>

lemma length_le_bytes [simp]: "length (le_bytes n x) = n"
  by (induction n arbitrary: x) auto

lemma le_value_bound: "le_value cs < 256 ^ length cs"
proof (induction cs)
  case (Cons c cs)
  have "of_char c + 256 * le_value cs < 256 * (le_value cs + 1)" by simp
  also have "\<dots> \<le> 256 * 256 ^ length cs" using Cons by (intro mult_le_mono2) simp
  finally show ?case by simp
qed simp

lemma le_value_bytes: "le_value (le_bytes n x) = x mod 256 ^ n"
proof (induction n arbitrary: x)
  case (Suc n)
  have "x mod 256 + 256 * (x div 256 mod 256 ^ n) = x mod (256 * 256 ^ n)"
    using mod_mult2_eq [of x 256 "256 ^ n"] by simp
  then show ?case using Suc by simp
qed simp

lemma le_bytes_value: "le_bytes (length cs) (le_value cs) = cs"
  by (induction cs) (simp_all add: of_char_mod_256)

text \<open>What a word looks like on the wire, on either kind of host.\<close>

definition wire :: "'a::len word \<Rightarrow> char list" where
  "wire x = rev (le_bytes (LENGTH('a) div 8) (unat x))"

lemma byte_power: "8 dvd k \<Longrightarrow> (256::nat) ^ (k div 8) = 2 ^ k"
proof -
  assume "8 dvd k"
  then have "8 * (k div 8) = k" by simp
  then show ?thesis using power_mult [of "2::nat" 8 "k div 8"] by simp
qed

lemma word_of_le_value:
  assumes "length bs = LENGTH('a) div 8" and "8 dvd LENGTH('a::len)"
  shows "unat (word_of_nat (le_value bs) :: 'a word) = le_value bs"
proof -
  have "(256::nat) ^ length bs = 2 ^ LENGTH('a)"
    using assms byte_power by simp
  then show ?thesis using le_value_bound [of bs] by (simp add: unat_of_nat take_bit_nat_eq_self)
qed

lemma unat_mod_bytes: "8 dvd LENGTH('a::len) \<Longrightarrow> unat (x :: 'a word) mod 256 ^ (LENGTH('a) div 8) = unat x"
proof -
  assume "8 dvd LENGTH('a)"
  then have "(256::nat) ^ (LENGTH('a) div 8) = 2 ^ LENGTH('a)" by (rule byte_power)
  then show ?thesis using unsigned_less [of x] by simp
qed

lemma byte_swap_bytes:
  assumes "8 dvd LENGTH('a::len)"
  shows "le_bytes (LENGTH('a) div 8) (unat (byte_swap (x :: 'a word))) = rev (le_bytes (LENGTH('a) div 8) (unat x))"
  using word_of_le_value [of "rev (le_bytes (LENGTH('a) div 8) (unat x))", OF _ assms]
    le_bytes_value [of "rev (le_bytes (LENGTH('a) div 8) (unat x))"]
  by (simp add: byte_swap_def)

lemma store_network:
  "8 dvd LENGTH('a::len) \<Longrightarrow> store_word le (if le then byte_swap x else x :: 'a word) = wire x"
  by (simp add: store_word_def wire_def byte_swap_bytes)

lemma load_network:
  assumes "8 dvd LENGTH('a::len)"
  shows "(if le then byte_swap (load_word le (wire x)) else load_word le (wire x) :: 'a word) = x"
proof -
  let ?bs = "le_bytes (LENGTH('a) div 8) (unat x)"
  have v: "word_of_nat (le_value ?bs) = x" using unat_mod_bytes [OF assms, of x] by (simp add: le_value_bytes)
  have "unat (load_word True (wire x) :: 'a word) = le_value (rev ?bs)"
    using word_of_le_value [of "rev ?bs", OF _ assms] by (simp add: load_word_def wire_def)
  then have "le_bytes (LENGTH('a) div 8) (unat (load_word True (wire x) :: 'a word)) = rev ?bs"
    using le_bytes_value [of "rev ?bs"] by simp
  then show ?thesis using v by (simp add: byte_swap_def load_word_def wire_def)
qed

lemma length_wire [simp]: "length (wire (x :: 'a::len word)) = LENGTH('a) div 8"
  by (simp add: wire_def)

lemmas network_defs = hostToNetwork64_def hostToNetwork32_def hostToNetwork16_def
  networkToHost64_def networkToHost32_def networkToHost16_def

lemma append_wire:
  "appendInt64 le x b = append_bytes (wire x) b" "appendInt32 le y b = append_bytes (wire y) b"
  "appendInt16 le z b = append_bytes (wire z) b" "appendInt8 le w b = append_bytes (wire w) b"
  using store_network [of le x] store_network [of le y] store_network [of le z]
  by (simp_all add: appendInt64_def appendInt32_def appendInt16_def appendInt8_def network_defs
      store_word_def [of le w] wire_def [of w] Let_def)

lemma read_int:
  assumes "buffer_ok b" and "contents b = wire (x :: 'a::len word) @ rest" and "8 dvd LENGTH('a)"
    and "n = LENGTH('a) div 8" and "f (load_word le (wire x)) = x"
  shows "\<exists>b'. then_retrieve n (cpp_assert (n \<le> readableBytes b) (Inr (f (load_word le (peek_bytes n b))))) b =
      Inr (x, b') \<and> buffer_ok b' \<and> contents b' = rest"
proof -
  have n: "n \<le> length (contents b)" "n \<le> readableBytes b"
    using assms(2,4) length_contents [OF assms(1)] by simp_all
  have "peek_bytes n b = wire x" using peek_contents [OF assms(1) n(2)] assms(2,4) by simp
  then show ?thesis using retrieve_bytes [OF assms(1) n(1)] assms(2,4,5) n(2)
    by (auto simp: then_retrieve_def cpp_assert_def)
qed

lemma load_network64: "networkToHost64 le (load_word le (wire x)) = x"
  unfolding networkToHost64_def by (rule load_network) simp

lemma read_int64:
  assumes "buffer_ok b" and "contents b = wire x @ rest"
  shows "\<exists>b'. readInt64 le b = Inr (x, b') \<and> buffer_ok b' \<and> contents b' = rest"
  unfolding readInt64_def peekInt64_def
  by (rule read_int [where f = "networkToHost64 le", OF assms _ _ load_network64]) simp_all

lemma load_network32: "networkToHost32 le (load_word le (wire y)) = y"
  unfolding networkToHost32_def by (rule load_network) simp

lemma read_int32:
  assumes "buffer_ok b" and "contents b = wire y @ rest"
  shows "\<exists>b'. readInt32 le b = Inr (y, b') \<and> buffer_ok b' \<and> contents b' = rest"
  unfolding readInt32_def peekInt32_def
  by (rule read_int [where f = "networkToHost32 le", OF assms _ _ load_network32]) simp_all

lemma load_network16: "networkToHost16 le (load_word le (wire z)) = z"
  unfolding networkToHost16_def by (rule load_network) simp

lemma read_int16:
  assumes "buffer_ok b" and "contents b = wire z @ rest"
  shows "\<exists>b'. readInt16 le b = Inr (z, b') \<and> buffer_ok b' \<and> contents b' = rest"
  unfolding readInt16_def peekInt16_def
  by (rule read_int [where f = "networkToHost16 le", OF assms _ _ load_network16]) simp_all

lemma load_byte: "id (load_word le (wire (w :: 8 word))) = w"
proof -
  have "load_word le (wire w) = (load_word False (wire w) :: 8 word)" by (simp add: load_word_def wire_def)
  then show ?thesis using load_network [of False w] by simp
qed

lemma read_int8:
  assumes "buffer_ok b" and "contents b = wire w @ rest"
  shows "\<exists>b'. readInt8 le b = Inr (w, b') \<and> buffer_ok b' \<and> contents b' = rest"
  unfolding readInt8_def peekInt8_def
  by (rule read_int [where f = id, OF assms _ _ load_byte, unfolded id_apply]) simp_all

section \<open>Properties\<close>

text \<open>The states of a run, with the room of each read.\<close>

fun bytes_run :: "nat list \<Rightarrow> buffer_op list \<Rightarrow> char list \<Rightarrow> (char list list \<times> char list) result" where
  "bytes_run rooms [] q = Inr ([], q)"
| "bytes_run rooms (op # ops) q =
     (case bytes_step (hd rooms) op q of
        Inl e \<Rightarrow> Inl e
      | Inr (out, q) \<Rightarrow> map_sum id (\<lambda>(outs, q). (out # outs, q)) (bytes_run (tl rooms) ops q))"

lemma buffer_run_refines:
  "buffer_ok b \<Longrightarrow> \<exists>rooms. map_sum id (map_prod id contents) (buffer_run ops b) = bytes_run rooms ops (contents b) \<and>
     length rooms = length ops \<and> (\<forall>r \<in> set rooms. extrabuf_size \<le> r) \<and>
     (\<forall>outs b'. buffer_run ops b = Inr (outs, b') \<longrightarrow> buffer_ok b')"
proof (induction ops arbitrary: b)
  case (Cons op ops)
  have room: "extrabuf_size \<le> read_room b" by (simp add: read_room_def)
  note step = buffer_step_refines [OF Cons.prems, of op]
  show ?case
  proof (cases "buffer_step op b")
    case (Inl e)
    then have "bytes_step (read_room b) op (contents b) = Inl e" using step(1) by simp
    then show ?thesis using Inl room
      by (intro exI [of _ "replicate (Suc (length ops)) (read_room b)"]) simp
  next
    case (Inr p)
    obtain out b1 where p: "p = (out, b1)" by (cases p)
    have q: "bytes_step (read_room b) op (contents b) = Inr (out, contents b1)" using step(1) Inr p by simp
    obtain rooms where r: "map_sum id (map_prod id contents) (buffer_run ops b1) = bytes_run rooms ops (contents b1)"
      "length rooms = length ops" "\<forall>r \<in> set rooms. extrabuf_size \<le> r"
      "\<forall>outs b'. buffer_run ops b1 = Inr (outs, b') \<longrightarrow> buffer_ok b'"
      using Cons.IH [of b1] step(2) Inr p by blast
    have "map_sum id (map_prod id contents) (buffer_run (op # ops) b) =
        bytes_run (read_room b # rooms) (op # ops) (contents b)"
      using q Inr p by (cases "buffer_run ops b1") (auto simp: r(1) [symmetric])
    moreover have "\<forall>outs b'. buffer_run (op # ops) b = Inr (outs, b') \<longrightarrow> buffer_ok b'"
      using r(4) Inr p by (cases "buffer_run ops b1") auto
    moreover have "length (read_room b # rooms) = length (op # ops)"
      "\<forall>r \<in> set (read_room b # rooms). extrabuf_size \<le> r" using r(2,3) room by simp_all
    ultimately show ?thesis by blast
  qed
qed simp

text \<open>
  C15. The buffer refines a plain list of bytes: whatever sequence of appends, reads from a descriptor,
  retrievals and unwrites runs on a well-formed buffer, it returns the bytes, and ends with the
  contents, that the same operations give on a list, and it fails an assertion exactly when one of
  them takes more bytes than there are. Moving and growing the vector is never visible. Each read
  from a descriptor takes at least a mebibyte of what is waiting.
\<close>
theorem buffer_refines_bytes:
  assumes "buffer_ok b"
  shows "\<exists>rooms. map_sum id (map_prod id contents) (buffer_run ops b) = bytes_run rooms ops (contents b) \<and>
    length rooms = length ops \<and> (\<forall>r \<in> set rooms. extrabuf_size \<le> r)"
  using buffer_run_refines [OF assms, of ops] by blast

theorem buffer_refines_bytes_witness:
  "map_sum id (map_prod id contents) (buffer_run [BAppend ''abcdef'', BRetrieveAsString 2, BAppend ''xy'',
     BUnwrite 1, BRetrieveAllAsString] (new_Buffer 4)) = Inr ([[], ''ab'', [], [], ''cdefx''], [])"
proof -
  let ?ops = "[BAppend ''abcdef'', BRetrieveAsString 2, BAppend ''xy'', BUnwrite 1, BRetrieveAllAsString]"
  from buffer_refines_bytes [OF new_Buffer_ok(1), of ?ops 4]
  show ?thesis by (auto simp: new_Buffer_ok)
qed

text \<open>
  Bytes leave the buffer in the order in which they entered it: if no retrieval asks for more
  than there is, a run of appends and retrievals succeeds and what it returned, followed by what is
  left, is what was there followed by everything appended; otherwise it fails an assertion.
\<close>
theorem buffer_fifo:
  assumes "buffer_ok b"
  shows "if gets_ok (length (contents b)) ops
    then \<exists>outs b'. byte_run append_bytes retrieveAsString ops b = Inr (outs, b') \<and>
      concat outs @ contents b' = contents b @ puts ops
    else byte_run append_bytes retrieveAsString ops b = Inl AssertFailed"
  using buf.fifo [OF assms, of ops] buf.underflow [OF assms, of ops] by auto

theorem buffer_fifo_witness:
  "\<exists>outs b'. byte_run append_bytes retrieveAsString [Put ''hello'', Get 2, Put ''!'', Get 3] (new_Buffer 0) =
     Inr (outs, b') \<and> concat outs @ contents b' = ''hello!''"
  using buffer_fifo [OF new_Buffer_ok(1), of 0 "[Put ''hello'', Get 2, Put ''!'', Get 3]"]
  by (simp add: new_Buffer_ok)



text \<open>
  C35. The vector grows only when it must, and never past what is needed: appending never fails, keeps
  the size of the vector when the bytes fit behind the writer index or when the contents, the new
  bytes and the eight bytes for prepending fit into it at all, and otherwise makes it exactly as
  long as the writer index plus the new bytes. Eight bytes can be prepended to a buffer that has
  just been emptied, and land in front of what is appended next.
\<close>
theorem append_bounds:
  assumes "buffer_ok b" and "length h \<le> kCheapPrepend"
  shows "(\<exists>b'. append_bytes data b = Inr b' \<and>
      length (bf_buffer b') = (if length data \<le> writableBytes b \<or>
          readableBytes b + length data + kCheapPrepend \<le> length (bf_buffer b)
        then length (bf_buffer b) else bf_writerIndex b + length data) \<and>
      bf_readerIndex b' \<le> bf_writerIndex b' \<and> bf_writerIndex b' \<le> length (bf_buffer b')) \<and>
    (\<exists>c c'. prepend h (retrieveAll b) = Inr c \<and> append_bytes data c = Inr c' \<and> contents c' = h @ data)"
proof
  show "\<exists>b'. append_bytes data b = Inr b' \<and>
    length (bf_buffer b') = (if length data \<le> writableBytes b \<or>
        readableBytes b + length data + kCheapPrepend \<le> length (bf_buffer b)
      then length (bf_buffer b) else bf_writerIndex b + length data) \<and>
    bf_readerIndex b' \<le> bf_writerIndex b' \<and> bf_writerIndex b' \<le> length (bf_buffer b')"
    using append_bytes_effect [OF assms(1), of data] unfolding buffer_ok_def by blast
  have "buffer_ok (retrieveAll b)" "contents (retrieveAll b) = []" "length h \<le> bf_readerIndex (retrieveAll b)"
    using assms by (simp_all add: buffer_ok_def retrieveAll_def contents_def vec_slice_def)
  then obtain c where c: "prepend h (retrieveAll b) = Inr c" "buffer_ok c" "contents c = h"
    using prepend_bytes [of "retrieveAll b" h] by auto
  obtain c' where "append_bytes data c = Inr c'" "contents c' = h @ data"
    using append_bytes_effect [OF c(2), of data] c(3) by auto
  with c(1) show "\<exists>c c'. prepend h (retrieveAll b) = Inr c \<and> append_bytes data c = Inr c' \<and> contents c' = h @ data"
    by blast
qed

theorem append_bounds_witness:
  "(\<exists>b'. append_bytes ''abcd'' (new_Buffer 4) = Inr b' \<and> length (bf_buffer b') = 12) \<and>
   (\<exists>c c'. prepend ''12345678'' (retrieveAll (new_Buffer 4)) = Inr c \<and> append_bytes ''abcd'' c = Inr c' \<and>
      contents c' = ''12345678abcd'')"
proof -
  have "writableBytes (new_Buffer 4) = 4" "length (bf_buffer (new_Buffer 4)) = 12" "kCheapPrepend = 8"
    by (simp_all add: new_Buffer_def writableBytes_def kCheapPrepend_def)
  then show ?thesis using append_bounds [where b = "new_Buffer 4" and h = "''12345678''" and data = "''abcd''"]
      new_Buffer_ok(1) [of 4] by auto
qed

end
