(* ===== verification/Event_Loop.thy ===== *)
theory Event_Loop
  imports Net_Buffer
begin

text \<open>
  The reactor of the network library: channels (\<^verbatim>\<open>network/include/network/Channel.h\<close>,
  \<^verbatim>\<open>network/src/Channel.cc\<close>), the epoll poller (\<^verbatim>\<open>network/src/Poller.cc\<close>) and the event loop
  (\<^verbatim>\<open>network/src/EventLoop.cc\<close>).

  A channel object is a record; where the code keeps a pointer to it, the model keeps a value of an
  arbitrary pointer type. The poller's calls of \<^verbatim>\<open>epoll_ctl\<close> are a log, and the kernel's answer to a
  call is a function of the calls before it (\<open>kern\<close>). What the calls add up to is \<open>interest\<close>, after
  epoll_ctl(2). A functor is a value; running it is the client's business.
\<close>

unbundle bit_operations_syntax

section \<open>Channels\<close>

type_synonym events = "32 word"

definition POLLIN :: events where "POLLIN = 0x001"
definition POLLPRI :: events where "POLLPRI = 0x002"
definition POLLOUT :: events where "POLLOUT = 0x004"
definition POLLERR :: events where "POLLERR = 0x008"
definition POLLHUP :: events where "POLLHUP = 0x010"
definition POLLNVAL :: events where "POLLNVAL = 0x020"
definition POLLRDHUP :: events where "POLLRDHUP = 0x2000"

definition NoneEvent :: events where "NoneEvent = 0"
definition ReadEvent :: events where "ReadEvent = POLLIN"
definition WriteEvent :: events where "WriteEvent = POLLOUT"

record net_channel =
  nc_fd :: int
  nc_events :: events
  nc_revents :: events
  nc_index :: int
  nc_event_handling :: bool
  nc_addedToLoop :: bool

definition new_Channel :: "int \<Rightarrow> net_channel" where
  "new_Channel fd = \<lparr>nc_fd = fd, nc_events = 0, nc_revents = 0, nc_index = -1,
     nc_event_handling = False, nc_addedToLoop = False\<rparr>"

definition isNoneEvent :: "net_channel \<Rightarrow> bool" where
  "isNoneEvent ch \<longleftrightarrow> nc_events ch = NoneEvent"

definition isWriting :: "net_channel \<Rightarrow> bool" where
  "isWriting ch \<longleftrightarrow> nc_events ch AND WriteEvent \<noteq> 0"

definition isReading :: "net_channel \<Rightarrow> bool" where
  "isReading ch \<longleftrightarrow> nc_events ch AND ReadEvent \<noteq> 0"

text \<open>\<open>handleEvent\<close> calls the callbacks that are set; they act on a state \<open>'s\<close> that holds the channel,
  whose flag is written by \<open>set_handling\<close>.\<close>

type_synonym 's callback = "('s \<Rightarrow> 's result) option"

definition call_if :: "bool \<Rightarrow> 's callback \<Rightarrow> 's \<Rightarrow> 's result" where
  "call_if P cb s = (if P then case cb of None \<Rightarrow> Inr s | Some f \<Rightarrow> f s else Inr s)"

definition then_do :: "'a result \<Rightarrow> ('a \<Rightarrow> 'b result) \<Rightarrow> 'b result" where
  "then_do r f = (case r of Inl e \<Rightarrow> Inl e | Inr x \<Rightarrow> f x)"

definition handleEvent ::
  "(bool \<Rightarrow> 's \<Rightarrow> 's) \<Rightarrow> 's callback \<Rightarrow> 's callback \<Rightarrow> 's callback \<Rightarrow> 's callback \<Rightarrow> events \<Rightarrow> 's \<Rightarrow> 's result" where
  "handleEvent set_handling closeCallback readCallback writeCallback errorCallback revents s =
     then_do (call_if (revents AND POLLHUP \<noteq> 0 \<and> revents AND POLLIN = 0) closeCallback (set_handling True s)) (\<lambda>s.
     then_do (call_if (revents AND (POLLIN OR POLLPRI OR POLLRDHUP) \<noteq> 0) readCallback s) (\<lambda>s.
     then_do (call_if (revents AND POLLOUT \<noteq> 0) writeCallback s) (\<lambda>s.
     then_do (call_if (revents AND (POLLERR OR POLLNVAL) \<noteq> 0) errorCallback s) (\<lambda>s.
     Inr (set_handling False s)))))"

section \<open>The poller\<close>

datatype ctl_op = EPOLL_CTL_ADD | EPOLL_CTL_MOD | EPOLL_CTL_DEL

type_synonym 'p ctl_call = "ctl_op \<times> int \<times> events \<times> 'p"
type_synonym 'p epoll_ctl = "'p ctl_call list \<Rightarrow> 'p ctl_call \<Rightarrow> int"

record 'p poller =
  po_channels :: "(int \<times> 'p) list"
  po_events_size :: nat
  po_ctl :: "'p ctl_call list"

definition kNew :: int where "kNew = -1"
definition kAdded :: int where "kAdded = 1"
definition kDeleted :: int where "kDeleted = 2"
definition kInitEventListSize :: nat where "kInitEventListSize = 16"

definition new_Poller :: "'p poller" where
  "new_Poller = \<lparr>po_channels = [], po_events_size = kInitEventListSize, po_ctl = []\<rparr>"

text \<open>A failed call is fatal unless it was a removal.\<close>

definition poller_update :: "'p epoll_ctl \<Rightarrow> ctl_op \<Rightarrow> 'p \<Rightarrow> net_channel \<Rightarrow> 'p poller \<Rightarrow> 'p poller result" where
  "poller_update kern operation p ch po =
     (let call = (operation, nc_fd ch, nc_events ch, p);
          ret = kern (po_ctl po) call
      in if ret < 0 \<and> operation \<noteq> EPOLL_CTL_DEL then Inl (RuntimeError ''epoll_ctl'')
         else Inr (po\<lparr>po_ctl := po_ctl po @ [call]\<rparr>))"

definition updateChannel ::
  "'p epoll_ctl \<Rightarrow> 'p \<Rightarrow> net_channel \<Rightarrow> 'p poller \<Rightarrow> (net_channel \<times> 'p poller) result" where
  "updateChannel kern p ch po =
     (let index = nc_index ch; fd = nc_fd ch
      in if index = kNew \<or> index = kDeleted
         then cpp_assert (map_of (po_channels po) fd = (if index = kNew then None else Some p))
                (let po = (if index = kNew then po\<lparr>po_channels := alist_put fd p (po_channels po)\<rparr> else po);
                     ch = ch\<lparr>nc_index := kAdded\<rparr>
                 in then_do (poller_update kern EPOLL_CTL_ADD p ch po) (\<lambda>po. Inr (ch, po)))
         else cpp_assert (map_of (po_channels po) fd = Some p \<and> index = kAdded)
                (if isNoneEvent ch
                 then then_do (poller_update kern EPOLL_CTL_DEL p ch po) (\<lambda>po. Inr (ch\<lparr>nc_index := kDeleted\<rparr>, po))
                 else then_do (poller_update kern EPOLL_CTL_MOD p ch po) (\<lambda>po. Inr (ch, po))))"

definition removeChannel ::
  "'p epoll_ctl \<Rightarrow> 'p \<Rightarrow> net_channel \<Rightarrow> 'p poller \<Rightarrow> (net_channel \<times> 'p poller) result" where
  "removeChannel kern p ch po =
     (let index = nc_index ch; fd = nc_fd ch
      in cpp_assert (map_of (po_channels po) fd = Some p \<and> isNoneEvent ch \<and> (index = kAdded \<or> index = kDeleted))
           (let po = po\<lparr>po_channels := alist_erase fd (po_channels po)\<rparr>
            in then_do (if index = kAdded then poller_update kern EPOLL_CTL_DEL p ch po else Inr po)
                 (\<lambda>po. Inr (ch\<lparr>nc_index := kNew\<rparr>, po))))"

definition hasChannel :: "'p \<Rightarrow> net_channel \<Rightarrow> 'p poller \<Rightarrow> bool" where
  "hasChannel p ch po \<longleftrightarrow> map_of (po_channels po) (nc_fd ch) = Some p"

text \<open>\<open>evs\<close> is what \<^verbatim>\<open>epoll_wait\<close> stored, \<open>fd_of\<close> the descriptor of the channel behind a pointer. The
  result is the list of active channels with the events to store in them.\<close>

fun fillActiveChannels :: "('p \<Rightarrow> int) \<Rightarrow> (events \<times> 'p) list \<Rightarrow> 'p poller \<Rightarrow> ('p \<times> events) list result" where
  "fillActiveChannels fd_of [] po = Inr []"
| "fillActiveChannels fd_of ((revents, p) # evs) po =
     cpp_assert (map_of (po_channels po) (fd_of p) = Some p)
       (then_do (fillActiveChannels fd_of evs po) (\<lambda>active. Inr ((p, revents) # active)))"

text \<open>\<open>None\<close> is an error of \<^verbatim>\<open>epoll_wait\<close>, which is logged.\<close>

definition poll ::
  "('p \<Rightarrow> int) \<Rightarrow> (events \<times> 'p) list option \<Rightarrow> 'p poller \<Rightarrow> (('p \<times> events) list \<times> 'p poller) result" where
  "poll fd_of ready po =
     (case ready of
        None \<Rightarrow> Inr ([], po)
      | Some evs \<Rightarrow>
          (if evs = [] then Inr ([], po)
           else cpp_assert (length evs \<le> po_events_size po)
                  (then_do (fillActiveChannels fd_of evs po) (\<lambda>active.
                     Inr (active, if length evs = po_events_size po
                                  then po\<lparr>po_events_size := po_events_size po * 2\<rparr> else po)))))"

section \<open>Changing what a channel waits for\<close>

definition channel_update ::
  "'p epoll_ctl \<Rightarrow> 'p \<Rightarrow> net_channel \<Rightarrow> 'p poller \<Rightarrow> (net_channel \<times> 'p poller) result" where
  "channel_update kern p ch po = updateChannel kern p (ch\<lparr>nc_addedToLoop := True\<rparr>) po"

definition enableReading ::
  "'p epoll_ctl \<Rightarrow> 'p \<Rightarrow> net_channel \<Rightarrow> 'p poller \<Rightarrow> (net_channel \<times> 'p poller) result" where
  "enableReading kern p ch po = channel_update kern p (ch\<lparr>nc_events := nc_events ch OR ReadEvent\<rparr>) po"

definition disableReading ::
  "'p epoll_ctl \<Rightarrow> 'p \<Rightarrow> net_channel \<Rightarrow> 'p poller \<Rightarrow> (net_channel \<times> 'p poller) result" where
  "disableReading kern p ch po = channel_update kern p (ch\<lparr>nc_events := nc_events ch AND NOT ReadEvent\<rparr>) po"

definition enableWriting ::
  "'p epoll_ctl \<Rightarrow> 'p \<Rightarrow> net_channel \<Rightarrow> 'p poller \<Rightarrow> (net_channel \<times> 'p poller) result" where
  "enableWriting kern p ch po = channel_update kern p (ch\<lparr>nc_events := nc_events ch OR WriteEvent\<rparr>) po"

definition disableWriting ::
  "'p epoll_ctl \<Rightarrow> 'p \<Rightarrow> net_channel \<Rightarrow> 'p poller \<Rightarrow> (net_channel \<times> 'p poller) result" where
  "disableWriting kern p ch po = channel_update kern p (ch\<lparr>nc_events := nc_events ch AND NOT WriteEvent\<rparr>) po"

definition disableAll ::
  "'p epoll_ctl \<Rightarrow> 'p \<Rightarrow> net_channel \<Rightarrow> 'p poller \<Rightarrow> (net_channel \<times> 'p poller) result" where
  "disableAll kern p ch po = channel_update kern p (ch\<lparr>nc_events := NoneEvent\<rparr>) po"

section \<open>The event loop\<close>

record ('p, 'f) event_loop =
  lp_looping :: bool
  lp_quit :: bool
  lp_eventHandling :: bool
  lp_callingPendingFunctors :: bool
  lp_iteration :: int
  lp_poller :: "'p poller"
  lp_wakeupChannel :: net_channel
  lp_activeChannels :: "'p list"
  lp_currentActiveChannel :: "'p option"
  lp_pendingFunctors :: "'f list"
  lp_functors :: "'f list"
  lp_wakeups :: nat

text \<open>\<open>lp_wakeups\<close> is the counter behind the wake-up descriptor, \<open>lp_functors\<close> what is left to run of the
  local vector of \<open>doPendingFunctors\<close>. \<open>wp\<close> points to the wake-up channel.\<close>

definition new_EventLoop :: "'p epoll_ctl \<Rightarrow> 'p \<Rightarrow> int \<Rightarrow> ('p, 'f) event_loop result" where
  "new_EventLoop kern wp wakeupFd =
     then_do (enableReading kern wp (new_Channel wakeupFd) new_Poller) (\<lambda>(ch, po).
       Inr \<lparr>lp_looping = False, lp_quit = False, lp_eventHandling = False, lp_callingPendingFunctors = False,
         lp_iteration = 0, lp_poller = po, lp_wakeupChannel = ch, lp_activeChannels = [],
         lp_currentActiveChannel = None, lp_pendingFunctors = [], lp_functors = [], lp_wakeups = 0\<rparr>)"

definition delete_EventLoop :: "'p epoll_ctl \<Rightarrow> 'p \<Rightarrow> ('p, 'f) event_loop \<Rightarrow> ('p, 'f) event_loop result" where
  "delete_EventLoop kern wp l =
     then_do (disableAll kern wp (lp_wakeupChannel l) (lp_poller l)) (\<lambda>(ch, po).
     then_do (removeChannel kern wp (ch\<lparr>nc_addedToLoop := False\<rparr>) po) (\<lambda>(ch, po).
       Inr (l\<lparr>lp_wakeupChannel := ch, lp_poller := po\<rparr>)))"

definition wakeup :: "('p, 'f) event_loop \<Rightarrow> ('p, 'f) event_loop" where
  "wakeup l = l\<lparr>lp_wakeups := Suc (lp_wakeups l)\<rparr>"

definition loop_handleRead :: "('p, 'f) event_loop \<Rightarrow> ('p, 'f) event_loop" where
  "loop_handleRead l = l\<lparr>lp_wakeups := 0\<rparr>"

definition loop_begin :: "('p, 'f) event_loop \<Rightarrow> ('p, 'f) event_loop result" where
  "loop_begin l = cpp_assert (\<not> lp_looping l) (Inr (l\<lparr>lp_looping := True, lp_quit := False\<rparr>))"

text \<open>One pass of the loop is \<open>loop_poll\<close>, \<open>loop_current\<close> and \<^verbatim>\<open>handleEvent\<close> for every active channel,
  \<open>loop_handled\<close>, \<open>begin_functors\<close>, \<open>next_functor\<close> and the functor for every one of them, and
  \<open>end_functors\<close>.\<close>

definition loop_poll ::
  "('p \<Rightarrow> int) \<Rightarrow> (events \<times> 'p) list option \<Rightarrow> ('p, 'f) event_loop \<Rightarrow> (('p \<times> events) list \<times> ('p, 'f) event_loop) result" where
  "loop_poll fd_of ready l =
     then_do (poll fd_of ready (lp_poller l)) (\<lambda>(active, po).
       Inr (active, l\<lparr>lp_poller := po, lp_activeChannels := map fst active,
                      lp_iteration := lp_iteration l + 1, lp_eventHandling := True\<rparr>))"

definition loop_current :: "'p \<Rightarrow> ('p, 'f) event_loop \<Rightarrow> ('p, 'f) event_loop" where
  "loop_current p l = l\<lparr>lp_currentActiveChannel := Some p\<rparr>"

definition loop_handled :: "('p, 'f) event_loop \<Rightarrow> ('p, 'f) event_loop" where
  "loop_handled l = l\<lparr>lp_currentActiveChannel := None, lp_eventHandling := False\<rparr>"

definition begin_functors :: "('p, 'f) event_loop \<Rightarrow> ('p, 'f) event_loop" where
  "begin_functors l = l\<lparr>lp_callingPendingFunctors := True, lp_functors := lp_pendingFunctors l,
     lp_pendingFunctors := []\<rparr>"

definition next_functor :: "('p, 'f) event_loop \<Rightarrow> ('f \<times> ('p, 'f) event_loop) option" where
  "next_functor l = (case lp_functors l of [] \<Rightarrow> None | f # fs \<Rightarrow> Some (f, l\<lparr>lp_functors := fs\<rparr>))"

definition end_functors :: "('p, 'f) event_loop \<Rightarrow> ('p, 'f) event_loop" where
  "end_functors l = l\<lparr>lp_callingPendingFunctors := False\<rparr>"

definition loop_end :: "('p, 'f) event_loop \<Rightarrow> ('p, 'f) event_loop" where
  "loop_end l = l\<lparr>lp_looping := False\<rparr>"

text \<open>\<open>in_loop\<close> tells whether the calling thread is the one of the loop.\<close>

definition loop_quit :: "bool \<Rightarrow> ('p, 'f) event_loop \<Rightarrow> ('p, 'f) event_loop" where
  "loop_quit in_loop l = (let l = l\<lparr>lp_quit := True\<rparr> in if \<not> in_loop then wakeup l else l)"

definition queueInLoop :: "bool \<Rightarrow> 'f \<Rightarrow> ('p, 'f) event_loop \<Rightarrow> ('p, 'f) event_loop" where
  "queueInLoop in_loop cb l =
     (let l = l\<lparr>lp_pendingFunctors := lp_pendingFunctors l @ [cb]\<rparr>
      in if \<not> in_loop \<or> lp_callingPendingFunctors l then wakeup l else l)"

definition queueSize :: "('p, 'f) event_loop \<Rightarrow> nat" where
  "queueSize l = length (lp_pendingFunctors l)"

definition loop_removeChannel ::
  "'p epoll_ctl \<Rightarrow> 'p \<Rightarrow> net_channel \<Rightarrow> ('p, 'f) event_loop \<Rightarrow> (net_channel \<times> ('p, 'f) event_loop) result" where
  "loop_removeChannel kern p ch l =
     cpp_assert (lp_eventHandling l \<longrightarrow>
         lp_currentActiveChannel l = Some p \<or> p \<notin> set (lp_activeChannels l))
       (then_do (removeChannel kern p ch (lp_poller l)) (\<lambda>(ch, po). Inr (ch, l\<lparr>lp_poller := po\<rparr>)))"

definition channel_remove ::
  "'p epoll_ctl \<Rightarrow> 'p \<Rightarrow> net_channel \<Rightarrow> ('p, 'f) event_loop \<Rightarrow> (net_channel \<times> ('p, 'f) event_loop) result" where
  "channel_remove kern p ch l =
     cpp_assert (isNoneEvent ch) (loop_removeChannel kern p (ch\<lparr>nc_addedToLoop := False\<rparr>) l)"

section \<open>Specification\<close>

text \<open>The effect of \<^verbatim>\<open>epoll_ctl\<close> on the interest list, and the calls it accepts, after epoll_ctl(2).\<close>

fun ctl_effect :: "'p ctl_call \<Rightarrow> (int \<rightharpoonup> events \<times> 'p) \<Rightarrow> (int \<rightharpoonup> events \<times> 'p)" where
  "ctl_effect (EPOLL_CTL_ADD, fd, ev, p) m = (if m fd = None then m(fd \<mapsto> (ev, p)) else m)"
| "ctl_effect (EPOLL_CTL_MOD, fd, ev, p) m = (if m fd = None then m else m(fd \<mapsto> (ev, p)))"
| "ctl_effect (EPOLL_CTL_DEL, fd, ev, p) m = m(fd := None)"

definition interest :: "'p ctl_call list \<Rightarrow> (int \<rightharpoonup> events \<times> 'p)" where
  "interest calls = fold ctl_effect calls (\<lambda>_. None)"

fun ctl_valid :: "'p ctl_call list \<Rightarrow> 'p ctl_call \<Rightarrow> bool" where
  "ctl_valid calls (op, fd, ev, p) \<longleftrightarrow> (interest calls fd = None \<longleftrightarrow> op = EPOLL_CTL_ADD)"

definition kernel_obeys :: "'p epoll_ctl \<Rightarrow> bool" where
  "kernel_obeys kern \<longleftrightarrow> (\<forall>calls call. ctl_valid calls call \<longrightarrow> 0 \<le> kern calls call)"

definition calls_valid :: "'p ctl_call list \<Rightarrow> bool" where
  "calls_valid calls \<longleftrightarrow> (\<forall>i < length calls. ctl_valid (take i calls) (calls ! i))"

text \<open>The poller agrees with the channels \<open>chan\<close> it serves.\<close>

definition poller_ok :: "('p \<Rightarrow> net_channel option) \<Rightarrow> 'p poller \<Rightarrow> bool" where
  "poller_ok chan po \<longleftrightarrow>
     (\<forall>fd p. map_of (po_channels po) fd = Some p \<longleftrightarrow>
        (\<exists>ch. chan p = Some ch \<and> nc_fd ch = fd \<and> nc_index ch \<noteq> kNew)) \<and>
     (\<forall>fd p ev. interest (po_ctl po) fd = Some (ev, p) \<longleftrightarrow>
        (\<exists>ch. chan p = Some ch \<and> nc_fd ch = fd \<and> nc_index ch = kAdded \<and> nc_events ch = ev)) \<and>
     (\<forall>p ch. chan p = Some ch \<longrightarrow> nc_index ch \<in> {kNew, kAdded, kDeleted}) \<and>
     calls_valid (po_ctl po)"

datatype channel_request = EnableReading | DisableReading | EnableWriting | DisableWriting | DisableAll | RemoveChan

definition in_poller ::
  "(net_channel \<Rightarrow> 'p poller \<Rightarrow> (net_channel \<times> 'p poller) result) \<Rightarrow> net_channel \<Rightarrow> ('p, 'f) event_loop \<Rightarrow>
   (net_channel \<times> ('p, 'f) event_loop) result" where
  "in_poller f ch l = then_do (f ch (lp_poller l)) (\<lambda>(ch, po). Inr (ch, l\<lparr>lp_poller := po\<rparr>))"

fun channel_op ::
  "'p epoll_ctl \<Rightarrow> 'p \<Rightarrow> channel_request \<Rightarrow> net_channel \<Rightarrow> ('p, 'f) event_loop \<Rightarrow> (net_channel \<times> ('p, 'f) event_loop) result" where
  "channel_op kern p EnableReading = in_poller (enableReading kern p)"
| "channel_op kern p DisableReading = in_poller (disableReading kern p)"
| "channel_op kern p EnableWriting = in_poller (enableWriting kern p)"
| "channel_op kern p DisableWriting = in_poller (disableWriting kern p)"
| "channel_op kern p DisableAll = in_poller (disableAll kern p)"
| "channel_op kern p RemoveChan = channel_remove kern p"

fun channel_run ::
  "'p epoll_ctl \<Rightarrow> ('p \<times> channel_request) list \<Rightarrow> ('p \<Rightarrow> net_channel) \<times> ('p, 'f) event_loop \<Rightarrow>
   (('p \<Rightarrow> net_channel) \<times> ('p, 'f) event_loop) result" where
  "channel_run kern [] s = Inr s"
| "channel_run kern ((p, op) # ops) (chan, l) =
     then_do (channel_op kern p op (chan p) l) (\<lambda>(ch, l). channel_run kern ops (chan(p := ch), l))"

text \<open>What has been asked for: the events a channel waits for after an operation, and whether it is
  registered. A channel is removed when it is registered and waits for nothing.\<close>

fun wants :: "channel_request \<Rightarrow> events \<Rightarrow> events" where
  "wants EnableReading e = e OR ReadEvent"
| "wants DisableReading e = e AND NOT ReadEvent"
| "wants EnableWriting e = e OR WriteEvent"
| "wants DisableWriting e = e AND NOT WriteEvent"
| "wants DisableAll e = NoneEvent"
| "wants RemoveChan e = e"

fun wanted :: "('p \<times> channel_request) list \<Rightarrow> ('p \<Rightarrow> events) \<Rightarrow> ('p \<Rightarrow> events)" where
  "wanted [] w = w"
| "wanted ((p, op) # ops) w = wanted ops (w(p := wants op (w p)))"

fun removals_ok :: "('p \<times> channel_request) list \<Rightarrow> ('p \<Rightarrow> events) \<Rightarrow> ('p \<Rightarrow> bool) \<Rightarrow> bool" where
  "removals_ok [] w reg \<longleftrightarrow> True"
| "removals_ok ((p, op) # ops) w reg \<longleftrightarrow>
     (op = RemoveChan \<longrightarrow> reg p \<and> w p = 0) \<and>
     removals_ok ops (w(p := wants op (w p))) (reg(p := (op \<noteq> RemoveChan)))"

text \<open>The steps of a loop and of the threads that post to it, with the functors that have run.\<close>

datatype ('p, 'f) loop_op =
    Post bool 'f
  | PollReturns "(events \<times> 'p) list option"
  | WakeRead
  | Handled
  | RunFunctor
  | Finish

fun loop_step ::
  "('p \<Rightarrow> int) \<Rightarrow> ('p, 'f) loop_op \<Rightarrow> ('p, 'f) event_loop \<times> 'f list \<Rightarrow> (('p, 'f) event_loop \<times> 'f list) option" where
  "loop_step fd_of (Post in_loop f) (l, hist) =
     (if in_loop \<and> \<not> lp_eventHandling l \<and> \<not> lp_callingPendingFunctors l then None
      else Some (queueInLoop in_loop f l, hist))"
| "loop_step fd_of (PollReturns ready) (l, hist) =
     (if lp_eventHandling l \<or> lp_callingPendingFunctors l then None
      else case loop_poll fd_of ready l of Inl _ \<Rightarrow> None | Inr (_, l) \<Rightarrow> Some (l, hist))"
| "loop_step fd_of WakeRead (l, hist) =
     (if lp_eventHandling l then Some (loop_handleRead l, hist) else None)"
| "loop_step fd_of Handled (l, hist) =
     (if lp_eventHandling l then Some (begin_functors (loop_handled l), hist) else None)"
| "loop_step fd_of RunFunctor (l, hist) =
     (if lp_callingPendingFunctors l
      then map_option (\<lambda>(f, l). (l, hist @ [f])) (next_functor l) else None)"
| "loop_step fd_of Finish (l, hist) =
     (if lp_callingPendingFunctors l \<and> lp_functors l = [] then Some (end_functors l, hist) else None)"

fun loop_run ::
  "('p \<Rightarrow> int) \<Rightarrow> ('p, 'f) loop_op list \<Rightarrow> ('p, 'f) event_loop \<times> 'f list \<Rightarrow> (('p, 'f) event_loop \<times> 'f list) option" where
  "loop_run fd_of [] s = Some s"
| "loop_run fd_of (op # ops) s = (case loop_step fd_of op s of None \<Rightarrow> None | Some s \<Rightarrow> loop_run fd_of ops s)"

fun posted :: "('p, 'f) loop_op list \<Rightarrow> 'f list" where
  "posted [] = []"
| "posted (Post in_loop f # ops) = f # posted ops"
| "posted (op # ops) = posted ops"

definition blocked :: "('p, 'f) event_loop \<Rightarrow> bool" where
  "blocked l \<longleftrightarrow> \<not> lp_eventHandling l \<and> \<not> lp_callingPendingFunctors l"

definition loop_ok :: "('p, 'f) event_loop \<Rightarrow> bool" where
  "loop_ok l \<longleftrightarrow> \<not> (lp_eventHandling l \<and> lp_callingPendingFunctors l) \<and>
     (\<not> lp_callingPendingFunctors l \<longrightarrow> lp_functors l = []) \<and>
     (\<not> lp_eventHandling l \<and> lp_pendingFunctors l \<noteq> [] \<longrightarrow> 0 < lp_wakeups l)"

section \<open>The poller mirrors its channels\<close>

lemma new_Channel_simps [simp]: "nc_fd (new_Channel fd) = fd" "nc_events (new_Channel fd) = 0"
  "nc_index (new_Channel fd) = kNew"
  by (simp_all add: new_Channel_def kNew_def)

lemma then_do_simps [simp]: "then_do (Inl e) f = Inl e" "then_do (Inr x) f = f x"
  by (simp_all add: then_do_def)

lemma index_distinct [simp]: "kNew \<noteq> kAdded" "kNew \<noteq> kDeleted" "kAdded \<noteq> kDeleted"
  "kAdded \<noteq> kNew" "kDeleted \<noteq> kNew" "kDeleted \<noteq> kAdded"
  by (simp_all add: kNew_def kAdded_def kDeleted_def)

lemma interest_snoc: "interest (calls @ [call]) = ctl_effect call (interest calls)"
  by (simp add: interest_def)

lemma calls_valid_snoc: "calls_valid (calls @ [call]) \<longleftrightarrow> calls_valid calls \<and> ctl_valid calls call"
  by (auto simp: calls_valid_def nth_append less_Suc_eq)

lemma poller_okD:
  assumes "poller_ok chan po"
  shows "map_of (po_channels po) fd = Some p \<longleftrightarrow>
      (\<exists>ch. chan p = Some ch \<and> nc_fd ch = fd \<and> nc_index ch \<noteq> kNew)"
    and "interest (po_ctl po) fd = Some (ev, p) \<longleftrightarrow>
      (\<exists>ch. chan p = Some ch \<and> nc_fd ch = fd \<and> nc_index ch = kAdded \<and> nc_events ch = ev)"
    and "chan p = Some ch \<Longrightarrow> nc_index ch = kNew \<or> nc_index ch = kAdded \<or> nc_index ch = kDeleted"
    and "calls_valid (po_ctl po)"
  using assms unfolding poller_ok_def by blast+

lemma interest_None:
  assumes "poller_ok chan po"
  shows "interest (po_ctl po) fd = None \<longleftrightarrow>
    \<not> (\<exists>p ch. chan p = Some ch \<and> nc_fd ch = fd \<and> nc_index ch = kAdded)"
proof -
  have "interest (po_ctl po) fd = None \<longleftrightarrow> (\<forall>ev p. interest (po_ctl po) fd \<noteq> Some (ev, p))"
    by (cases "interest (po_ctl po) fd") auto
  then show ?thesis unfolding poller_okD(2) [OF assms] by blast
qed

definition after_update :: "net_channel \<Rightarrow> net_channel" where
  "after_update ch =
     ch\<lparr>nc_index := (if nc_index ch = kAdded \<and> isNoneEvent ch then kDeleted else kAdded)\<rparr>"

lemma same_owner:
  assumes "poller_ok chan po" "chan p = Some ch" "chan q = Some ch'" "nc_fd ch = nc_fd ch'"
    "nc_index ch \<noteq> kNew" "nc_index ch' \<noteq> kNew"
  shows "p = q"
proof -
  have "map_of (po_channels po) (nc_fd ch) = Some p" using assms poller_okD(1) [OF assms(1)] by blast
  moreover have "map_of (po_channels po) (nc_fd ch) = Some q" using assms poller_okD(1) [OF assms(1)] by metis
  ultimately show ?thesis by simp
qed

lemma interest_None_owner:
  assumes ok: "poller_ok chan po" and p: "chan p = Some ch0"
    and free: "\<And>q ch'. chan q = Some ch' \<Longrightarrow> nc_fd ch' = nc_fd ch0 \<Longrightarrow> nc_index ch' \<noteq> kNew \<Longrightarrow> q = p"
  shows "interest (po_ctl po) (nc_fd ch0) = None \<longleftrightarrow> nc_index ch0 \<noteq> kAdded"
proof -
  have "nc_index ch0 = kAdded" if c: "chan q = Some ch'" "nc_fd ch' = nc_fd ch0" "nc_index ch' = kAdded" for q ch'
    using free [OF c(1,2)] c p by simp
  then show ?thesis unfolding interest_None [OF ok] using p by blast
qed

lemma poller_ok_set:
  assumes ok: "poller_ok chan po" and p: "chan p = Some ch0"
    and fd: "nc_fd ch = nc_fd ch0" and idx: "nc_index ch \<in> {kNew, kAdded, kDeleted}"
    and free: "\<And>q ch'. chan q = Some ch' \<Longrightarrow> nc_fd ch' = nc_fd ch0 \<Longrightarrow> nc_index ch' \<noteq> kNew \<Longrightarrow> q = p"
    and C: "map_of C = (map_of (po_channels po))(nc_fd ch0 := (if nc_index ch = kNew then None else Some p))"
    and L: "interest calls = (interest (po_ctl po))
      (nc_fd ch0 := (if nc_index ch = kAdded then Some (nc_events ch, p) else None))"
    and V: "calls_valid calls"
  shows "poller_ok (chan(p \<mapsto> ch)) (po\<lparr>po_channels := C, po_ctl := calls\<rparr>)"
proof -
  have 1: "map_of C fd = Some q \<longleftrightarrow>
      (\<exists>ch'. (chan(p \<mapsto> ch)) q = Some ch' \<and> nc_fd ch' = fd \<and> nc_index ch' \<noteq> kNew)" for fd q
  proof (cases "fd = nc_fd ch0")
    case True
    then show ?thesis using C fd free by (cases "q = p") auto
  next
    case False
    then show ?thesis using C fd p poller_okD(1) [OF ok, of fd q] by (cases "q = p") auto
  qed
  have 2: "interest calls fd = Some (ev, q) \<longleftrightarrow>
      (\<exists>ch'. (chan(p \<mapsto> ch)) q = Some ch' \<and> nc_fd ch' = fd \<and> nc_index ch' = kAdded \<and> nc_events ch' = ev)"
    for fd q ev
  proof (cases "fd = nc_fd ch0")
    case True
    then show ?thesis using L fd free by (cases "q = p") (auto split: if_splits)
  next
    case False
    then show ?thesis using L fd p poller_okD(2) [OF ok, of fd ev q] by (cases "q = p") auto
  qed
  have 3: "nc_index ch' \<in> {kNew, kAdded, kDeleted}" if "(chan(p \<mapsto> ch)) q = Some ch'" for q ch'
    using that idx poller_okD(3) [OF ok, of q ch'] by (cases "q = p") auto
  show ?thesis unfolding poller_ok_def using 1 2 3 V by simp
qed

lemma update_call:
  assumes "kernel_obeys kern" "ctl_valid (po_ctl po) (op, nc_fd ch, nc_events ch, p)"
  shows "poller_update kern op p ch po = Inr (po\<lparr>po_ctl := po_ctl po @ [(op, nc_fd ch, nc_events ch, p)]\<rparr>)"
proof -
  have "0 \<le> kern (po_ctl po) (op, nc_fd ch, nc_events ch, p)"
    using assms unfolding kernel_obeys_def by blast
  then show ?thesis by (simp add: poller_update_def)
qed

lemma updateChannel_ok:
  assumes kern: "kernel_obeys kern" and ok: "poller_ok chan po" and p: "chan p = Some ch0"
    and fd: "nc_fd ch = nc_fd ch0" and idx: "nc_index ch = nc_index ch0"
    and new: "nc_index ch0 = kNew \<Longrightarrow> map_of (po_channels po) (nc_fd ch0) = None"
  shows "\<exists>po'. updateChannel kern p ch po = Inr (after_update ch, po') \<and>
    poller_ok (chan(p \<mapsto> after_update ch)) po' \<and>
    map_of (po_channels po') = (map_of (po_channels po))(nc_fd ch0 \<mapsto> p) \<and>
    po_events_size po' = po_events_size po"
proof -
  let ?fd = "nc_fd ch0"
  let ?call = "\<lambda>op. (op, ?fd, nc_events ch, p)"
  have free: "q = p" if "chan q = Some ch'" "nc_fd ch' = ?fd" "nc_index ch' \<noteq> kNew" for q ch'
  proof (cases "nc_index ch0 = kNew")
    case True
    then show ?thesis using new that poller_okD(1) [OF ok, of ?fd q] by auto
  next
    case False
    then show ?thesis using same_owner [OF ok that(1) p that(2,3)] by simp
  qed
  have owner: "map_of (po_channels po) ?fd = Some p" if "nc_index ch0 \<noteq> kNew"
    using that p poller_okD(1) [OF ok, of ?fd p] by auto
  have watched: "interest (po_ctl po) ?fd = None \<longleftrightarrow> nc_index ch0 \<noteq> kAdded"
    by (rule interest_None_owner [OF ok p free])
  have V: "calls_valid (po_ctl po @ [?call op])" if "ctl_valid (po_ctl po) (?call op)" for op
    using that poller_okD(4) [OF ok] by (simp only: calls_valid_snoc)
  consider (add) "nc_index ch0 = kNew \<or> nc_index ch0 = kDeleted" | (upd) "nc_index ch0 = kAdded"
    using poller_okD(3) [OF ok p] by blast
  then show ?thesis
  proof cases
    case add
    let ?C = "if nc_index ch0 = kNew then alist_put ?fd p (po_channels po) else po_channels po"
    have C: "map_of ?C = (map_of (po_channels po))(?fd \<mapsto> p)"
      using owner by (auto simp: map_of_alist_put fun_eq_iff)
    have valid: "ctl_valid (po_ctl po) (?call EPOLL_CTL_ADD)" using add watched by auto
    have a: "after_update ch = ch\<lparr>nc_index := kAdded\<rparr>" using add idx by (auto simp: after_update_def)
    let ?po = "po\<lparr>po_channels := ?C, po_ctl := po_ctl po @ [?call EPOLL_CTL_ADD]\<rparr>"
    have "updateChannel kern p ch po = Inr (after_update ch, ?po)"
      using add new owner idx fd valid update_call [OF kern, of "po\<lparr>po_channels := ?C\<rparr>" EPOLL_CTL_ADD "ch\<lparr>nc_index := kAdded\<rparr>" p]
      by (auto simp: updateChannel_def Let_def cpp_assert_def a)
    moreover have "poller_ok (chan(p \<mapsto> after_update ch)) ?po"
    proof (rule poller_ok_set [OF ok p _ _ free])
      show "map_of ?C = (map_of (po_channels po))
          (?fd := (if nc_index (after_update ch) = kNew then None else Some p))"
        using C by (simp add: a)
      show "interest (po_ctl po @ [?call EPOLL_CTL_ADD]) = (interest (po_ctl po))
          (?fd := (if nc_index (after_update ch) = kAdded then Some (nc_events (after_update ch), p) else None))"
        using watched add by (auto simp: interest_snoc a)
      show "calls_valid (po_ctl po @ [?call EPOLL_CTL_ADD])" by (rule V [OF valid])
    qed (use fd a in auto)
    ultimately show ?thesis using C by auto
  next
    case upd
    let ?op = "if isNoneEvent ch then EPOLL_CTL_DEL else EPOLL_CTL_MOD"
    have valid: "ctl_valid (po_ctl po) (?call ?op)" using upd watched by auto
    have o: "map_of (po_channels po) ?fd = Some p" using owner upd by simp
    let ?po = "po\<lparr>po_channels := po_channels po, po_ctl := po_ctl po @ [?call ?op]\<rparr>"
    have "updateChannel kern p ch po = Inr (after_update ch, ?po)"
      using upd idx fd o valid update_call [OF kern, of po ?op ch p]
      by (auto simp: updateChannel_def Let_def cpp_assert_def after_update_def)
    moreover have "poller_ok (chan(p \<mapsto> after_update ch)) ?po"
    proof (rule poller_ok_set [OF ok p _ _ free])
      show "map_of (po_channels po) = (map_of (po_channels po))
          (?fd := (if nc_index (after_update ch) = kNew then None else Some p))"
        using o by (auto simp: after_update_def fun_eq_iff)
      show "interest (po_ctl po @ [?call ?op]) = (interest (po_ctl po))
          (?fd := (if nc_index (after_update ch) = kAdded then Some (nc_events (after_update ch), p) else None))"
        using watched upd idx by (auto simp: interest_snoc after_update_def)
      show "calls_valid (po_ctl po @ [?call ?op])" by (rule V [OF valid])
    qed (use fd in \<open>auto simp: after_update_def\<close>)
    ultimately show ?thesis using o by (auto simp: fun_eq_iff)
  qed
qed

lemma removeChannel_ok:
  assumes kern: "kernel_obeys kern" and ok: "poller_ok chan po" and p: "chan p = Some ch0"
    and fd: "nc_fd ch = nc_fd ch0" and idx: "nc_index ch = nc_index ch0" "nc_index ch0 \<noteq> kNew"
    and none: "isNoneEvent ch"
  shows "\<exists>po'. removeChannel kern p ch po = Inr (ch\<lparr>nc_index := kNew\<rparr>, po') \<and>
    poller_ok (chan(p \<mapsto> ch\<lparr>nc_index := kNew\<rparr>)) po' \<and>
    map_of (po_channels po') = (map_of (po_channels po))(nc_fd ch0 := None) \<and>
    po_events_size po' = po_events_size po"
proof -
  let ?fd = "nc_fd ch0" and ?C = "alist_erase (nc_fd ch0) (po_channels po)"
  let ?call = "(EPOLL_CTL_DEL, ?fd, nc_events ch, p)"
  have free: "q = p" if "chan q = Some ch'" "nc_fd ch' = ?fd" "nc_index ch' \<noteq> kNew" for q ch'
    using same_owner [OF ok that(1) p that(2,3)] idx by simp
  have owner: "map_of (po_channels po) ?fd = Some p"
    using idx p poller_okD(1) [OF ok, of ?fd p] by auto
  have watched: "interest (po_ctl po) ?fd = None \<longleftrightarrow> nc_index ch0 \<noteq> kAdded"
    by (rule interest_None_owner [OF ok p free])
  let ?log = "if nc_index ch0 = kAdded then po_ctl po @ [?call] else po_ctl po"
  have valid: "ctl_valid (po_ctl po) ?call" if "nc_index ch0 = kAdded" using that watched by auto
  let ?po = "po\<lparr>po_channels := ?C, po_ctl := ?log\<rparr>"
  have i: "nc_index ch0 = kAdded \<or> nc_index ch0 = kDeleted" using poller_okD(3) [OF ok p] idx by blast
  have "removeChannel kern p ch po = Inr (ch\<lparr>nc_index := kNew\<rparr>, ?po)"
    using i idx fd owner none valid update_call [OF kern, of "po\<lparr>po_channels := ?C\<rparr>" EPOLL_CTL_DEL ch p]
    by (auto simp: removeChannel_def Let_def cpp_assert_def)
  moreover have "poller_ok (chan(p \<mapsto> ch\<lparr>nc_index := kNew\<rparr>)) ?po"
  proof (rule poller_ok_set [OF ok p _ _ free])
    show "map_of ?C = (map_of (po_channels po))
        (?fd := (if nc_index (ch\<lparr>nc_index := kNew\<rparr>) = kNew then None else Some p))"
      by (simp add: map_of_alist_erase)
    show "interest ?log = (interest (po_ctl po))
        (?fd := (if nc_index (ch\<lparr>nc_index := kNew\<rparr>) = kAdded then Some (nc_events (ch\<lparr>nc_index := kNew\<rparr>), p) else None))"
      using watched by (auto simp: interest_snoc fun_eq_iff)
    show "calls_valid ?log"
      using valid poller_okD(4) [OF ok] by (auto simp: calls_valid_snoc)
  qed (use fd in auto)
  ultimately show ?thesis by (auto simp: map_of_alist_erase)
qed

lemma channel_op_update:
  assumes "op \<noteq> RemoveChan"
  shows "channel_op kern p op ch l =
    then_do (updateChannel kern p (ch\<lparr>nc_events := wants op (nc_events ch), nc_addedToLoop := True\<rparr>) (lp_poller l))
      (\<lambda>(ch, po). Inr (ch, l\<lparr>lp_poller := po\<rparr>))"
  using assms
  by (cases op) (simp_all add: in_poller_def enableReading_def disableReading_def enableWriting_def
      disableWriting_def disableAll_def channel_update_def)

definition mirrored :: "('p \<Rightarrow> int) \<Rightarrow> ('p \<Rightarrow> net_channel) \<Rightarrow> ('p, 'f) event_loop \<Rightarrow> ('p \<Rightarrow> events) \<Rightarrow> ('p \<Rightarrow> bool) \<Rightarrow> bool" where
  "mirrored fd chan l w reg \<longleftrightarrow> poller_ok (\<lambda>p. Some (chan p)) (lp_poller l) \<and> \<not> lp_eventHandling l \<and>
     (\<forall>p. nc_fd (chan p) = fd p \<and> nc_events (chan p) = w p \<and> (nc_index (chan p) = kNew \<longleftrightarrow> \<not> reg p) \<and>
        (nc_index (chan p) \<noteq> kAdded \<longrightarrow> w p = 0))"

lemma channel_op_mirrored:
  assumes kern: "kernel_obeys kern" and fd: "inj fd" and m: "mirrored fd chan l w reg"
    and rem: "op = RemoveChan \<longrightarrow> reg p \<and> w p = 0"
  shows "\<exists>ch' l'. channel_op kern p op (chan p) l = Inr (ch', l') \<and>
    mirrored fd (chan(p := ch')) l' (w(p := wants op (w p))) (reg(p := (op \<noteq> RemoveChan)))"
proof -
  let ?chan = "\<lambda>p. Some (chan p)"
  have ok: "poller_ok ?chan (lp_poller l)" and idle: "\<not> lp_eventHandling l"
    and c: "nc_fd (chan q) = fd q" "nc_events (chan q) = w q" "nc_index (chan q) = kNew \<longleftrightarrow> \<not> reg q"
      "nc_index (chan q) \<noteq> kAdded \<Longrightarrow> w q = 0" for q
    using m unfolding mirrored_def by blast+
  have upd: "(\<lambda>q. Some ((chan(p := ch)) q)) = ?chan(p \<mapsto> ch)" for ch by auto
  have fresh: "map_of (po_channels (lp_poller l)) (nc_fd (chan p)) = None" if "nc_index (chan p) = kNew"
  proof (cases "map_of (po_channels (lp_poller l)) (nc_fd (chan p))")
    case (Some q)
    then have q: "nc_fd (chan q) = nc_fd (chan p)" "nc_index (chan q) \<noteq> kNew"
      using poller_okD(1) [OF ok, of "nc_fd (chan p)" q] by auto
    then have "fd q = fd p" using c(1) by metis
    then have "q = p" using fd by (simp add: inj_eq)
    then show ?thesis using q that by simp
  qed simp
  show ?thesis
  proof (cases "op = RemoveChan")
    case True
    let ?ch = "chan p\<lparr>nc_addedToLoop := False\<rparr>"
    have none: "isNoneEvent ?ch" and idx: "nc_index (chan p) \<noteq> kNew"
      using rem True c [of p] by (auto simp: isNoneEvent_def NoneEvent_def)
    obtain po' where po': "removeChannel kern p ?ch (lp_poller l) = Inr (?ch\<lparr>nc_index := kNew\<rparr>, po')"
        "poller_ok (?chan(p \<mapsto> ?ch\<lparr>nc_index := kNew\<rparr>)) po'"
      using removeChannel_ok [OF kern ok, of p "chan p" ?ch] none idx by auto
    have "channel_op kern p op (chan p) l = Inr (?ch\<lparr>nc_index := kNew\<rparr>, l\<lparr>lp_poller := po'\<rparr>)"
      using True none po'(1) idle
      by (simp add: channel_remove_def loop_removeChannel_def cpp_assert_def isNoneEvent_def)
    moreover have "mirrored fd (chan(p := ?ch\<lparr>nc_index := kNew\<rparr>)) (l\<lparr>lp_poller := po'\<rparr>)
        (w(p := wants op (w p))) (reg(p := (op \<noteq> RemoveChan)))"
      unfolding mirrored_def upd using po'(2) idle c rem True by simp
    ultimately show ?thesis by blast
  next
    case False
    let ?ch = "chan p\<lparr>nc_events := wants op (nc_events (chan p)), nc_addedToLoop := True\<rparr>"
    obtain po' where po': "updateChannel kern p ?ch (lp_poller l) = Inr (after_update ?ch, po')"
        "poller_ok (?chan(p \<mapsto> after_update ?ch)) po'"
      using updateChannel_ok [OF kern ok, of p "chan p" ?ch] fresh by auto
    have "channel_op kern p op (chan p) l = Inr (after_update ?ch, l\<lparr>lp_poller := po'\<rparr>)"
      using po'(1) False by (simp add: channel_op_update)
    moreover have "mirrored fd (chan(p := after_update ?ch)) (l\<lparr>lp_poller := po'\<rparr>)
        (w(p := wants op (w p))) (reg(p := (op \<noteq> RemoveChan)))"
      unfolding mirrored_def upd using po'(2) idle c False
      by (auto simp: after_update_def isNoneEvent_def NoneEvent_def)
    ultimately show ?thesis by blast
  qed
qed

lemma channel_run_mirrored:
  assumes "kernel_obeys kern" "inj fd" "mirrored fd chan l w reg" "removals_ok ops w reg"
  shows "\<exists>chan' l' reg'. channel_run kern ops (chan, l) = Inr (chan', l') \<and> mirrored fd chan' l' (wanted ops w) reg'"
  using assms
proof (induction ops arbitrary: chan l w reg)
  case Nil
  then show ?case by auto
next
  case (Cons a ops)
  obtain p op where a: "a = (p, op)" by (cases a)
  have r: "op = RemoveChan \<longrightarrow> reg p \<and> w p = 0"
      "removals_ok ops (w(p := wants op (w p))) (reg(p := (op \<noteq> RemoveChan)))"
    using Cons.prems(4) by (simp_all add: a)
  obtain ch' l' where s: "channel_op kern p op (chan p) l = Inr (ch', l')"
      "mirrored fd (chan(p := ch')) l' (w(p := wants op (w p))) (reg(p := (op \<noteq> RemoveChan)))"
    using channel_op_mirrored [OF Cons.prems(1-3) r(1)] by blast
  have "channel_run kern (a # ops) (chan, l) = channel_run kern ops (chan(p := ch'), l')"
    by (simp only: a channel_run.simps s(1) then_do_simps prod.case)
  moreover have "wanted (a # ops) w = wanted ops (w(p := wants op (w p)))" by (simp only: a wanted.simps)
  ultimately show ?case using Cons.IH [OF Cons.prems(1,2) s(2) r(2)] by presburger
qed

lemma new_poller_ok: "(\<And>p ch. chan p = Some ch \<Longrightarrow> nc_index ch = kNew) \<Longrightarrow> poller_ok chan new_Poller"
  by (auto simp: poller_ok_def new_Poller_def interest_def calls_valid_def)

lemma new_loop:
  assumes "kernel_obeys kern" "new_EventLoop kern wp wfd = Inr l" "inj fd" "fd wp = wfd"
  shows "mirrored fd ((\<lambda>p. new_Channel (fd p))(wp := lp_wakeupChannel l)) l ((\<lambda>_. 0)(wp := ReadEvent)) (\<lambda>p. p = wp)"
    "loop_ok l" "lp_pendingFunctors l = []" "lp_functors l = []" "blocked l"
proof -
  let ?chan = "\<lambda>p. Some (new_Channel (fd p))"
  let ?ch = "new_Channel wfd\<lparr>nc_events := ReadEvent, nc_addedToLoop := True\<rparr>"
  have "poller_ok ?chan new_Poller" by (rule new_poller_ok) auto
  then obtain po' where po': "updateChannel kern wp ?ch new_Poller = Inr (after_update ?ch, po')"
      "poller_ok (?chan(wp \<mapsto> after_update ?ch)) po'"
    using updateChannel_ok [OF assms(1), of ?chan new_Poller wp "new_Channel wfd" ?ch] assms(4)
    by (auto simp: new_Poller_def)
  have l: "lp_wakeupChannel l = after_update ?ch" "lp_poller l = po'"
    "\<not> lp_eventHandling l" "lp_pendingFunctors l = []" "lp_functors l = []" "\<not> lp_callingPendingFunctors l"
    using assms(2) po'(1)
    by (auto simp: new_EventLoop_def enableReading_def channel_update_def)
  have upd: "(\<lambda>p. Some (((\<lambda>p. new_Channel (fd p))(wp := ch)) p)) = ?chan(wp \<mapsto> ch)" for ch by auto
  show "mirrored fd ((\<lambda>p. new_Channel (fd p))(wp := lp_wakeupChannel l)) l ((\<lambda>_. 0)(wp := ReadEvent)) (\<lambda>p. p = wp)"
    unfolding mirrored_def upd using po'(2) l assms(4)
    by (auto simp: after_update_def)
  show "loop_ok l" "lp_pendingFunctors l = []" "lp_functors l = []" "blocked l"
    using l by (auto simp: loop_ok_def blocked_def)
qed

text \<open>
  C16. The poller mirrors its channels. Take a fresh event loop, channels of pairwise different
  descriptors, and any sequence of requests to enable or disable reading and writing and to remove a
  channel, where a channel is only removed while it is registered and waits for nothing. If the
  kernel accepts the \<^verbatim>\<open>epoll_ctl\<close> calls that epoll_ctl(2) describes as valid, then no assertion of the
  poller fails and no call is refused: every addition is of a descriptor the kernel does not watch,
  every change and removal of one it watches. At the end the kernel watches, for every channel,
  exactly the events that have been asked for, and reports them to that channel; a channel that
  asked for none is not watched or watched for no event.\<close>
theorem poller_mirrors_channels:
  assumes "kernel_obeys kern" "inj fd" "fd wp = wakeupFd" "new_EventLoop kern wp wakeupFd = Inr l"
    "removals_ok ops ((\<lambda>_. 0)(wp := ReadEvent)) (\<lambda>p. p = wp)"
  shows "\<exists>chan' l'. channel_run kern ops ((\<lambda>p. new_Channel (fd p))(wp := lp_wakeupChannel l), l) = Inr (chan', l') \<and>
    calls_valid (po_ctl (lp_poller l')) \<and>
    (\<forall>p. let w = wanted ops ((\<lambda>_. 0)(wp := ReadEvent)) p
         in nc_events (chan' p) = w \<and>
            (case interest (po_ctl (lp_poller l')) (fd p) of
               None \<Rightarrow> w = 0
             | Some (ev, q) \<Rightarrow> ev = w \<and> q = p \<and> hasChannel p (chan' p) (lp_poller l')))"
proof -
  obtain chan' l' reg' where r: "channel_run kern ops ((\<lambda>p. new_Channel (fd p))(wp := lp_wakeupChannel l), l) = Inr (chan', l')"
      and m: "mirrored fd chan' l' (wanted ops ((\<lambda>_. 0)(wp := ReadEvent))) reg'"
    using channel_run_mirrored [OF assms(1,2) new_loop(1) [OF assms(1,4,2,3)] assms(5)] by blast
  have ok: "poller_ok (\<lambda>p. Some (chan' p)) (lp_poller l')" using m unfolding mirrored_def by blast
  have c: "nc_fd (chan' p) = fd p" "nc_events (chan' p) = wanted ops ((\<lambda>_. 0)(wp := ReadEvent)) p"
    "nc_index (chan' p) \<noteq> kAdded \<Longrightarrow> wanted ops ((\<lambda>_. 0)(wp := ReadEvent)) p = 0" for p
    using m unfolding mirrored_def by blast+
  have "case interest (po_ctl (lp_poller l')) (fd p) of
      None \<Rightarrow> wanted ops ((\<lambda>_. 0)(wp := ReadEvent)) p = 0
    | Some (ev, q) \<Rightarrow> ev = wanted ops ((\<lambda>_. 0)(wp := ReadEvent)) p \<and> q = p \<and> hasChannel p (chan' p) (lp_poller l')" for p
  proof (cases "interest (po_ctl (lp_poller l')) (fd p)")
    case None
    then have "nc_index (chan' p) \<noteq> kAdded" using interest_None [OF ok, of "fd p"] c(1) by blast
    then show ?thesis using None c(3) by simp
  next
    case (Some x)
    then obtain ev q where x: "interest (po_ctl (lp_poller l')) (fd p) = Some (ev, q)" by (cases x) auto
    then have q: "nc_fd (chan' q) = fd p" "nc_index (chan' q) = kAdded" "nc_events (chan' q) = ev"
      using poller_okD(2) [OF ok, of "fd p" ev q] by auto
    then have "q = p" using c(1) [of q] assms(2) by (simp add: inj_eq)
    moreover have "hasChannel p (chan' p) (lp_poller l')"
      using poller_okD(1) [OF ok, of "fd p" p] q \<open>q = p\<close> by (simp add: hasChannel_def)
    ultimately show ?thesis using x q c(2) by simp
  qed
  then show ?thesis using r c(2) poller_okD(4) [OF ok] unfolding Let_def by blast
qed

definition obliging_kernel :: "'p epoll_ctl" where
  "obliging_kernel calls call = (if ctl_valid calls call then 0 else -1)"

lemma obliging_kernel_obeys: "kernel_obeys obliging_kernel"
  by (simp add: kernel_obeys_def obliging_kernel_def)

lemma new_loop_exists:
  assumes "kernel_obeys kern"
  shows "\<exists>l. new_EventLoop kern wp wfd = Inr l"
proof -
  have "ctl_valid [] (EPOLL_CTL_ADD, wfd, ReadEvent, wp)" by (simp add: interest_def)
  then have "0 \<le> kern [] (EPOLL_CTL_ADD, wfd, ReadEvent, wp)" using assms unfolding kernel_obeys_def by blast
  then show ?thesis
    by (simp add: new_EventLoop_def enableReading_def channel_update_def updateChannel_def new_Poller_def
        poller_update_def cpp_assert_def Let_def)
qed

theorem poller_mirrors_channels_witness:
  "\<exists>(l :: (int, unit) event_loop) chan' l'. new_EventLoop obliging_kernel 5 5 = Inr l \<and>
    channel_run obliging_kernel [(7, EnableReading), (7, EnableWriting), (7, DisableReading)]
      ((\<lambda>p. new_Channel p)(5 := lp_wakeupChannel l), l) = Inr (chan', l') \<and> nc_events (chan' 7) = WriteEvent"
proof -
  obtain l :: "(int, unit) event_loop" where l: "new_EventLoop obliging_kernel 5 5 = Inr l"
    by (rule exE [OF new_loop_exists [OF obliging_kernel_obeys]])
  let ?ops = "[(7, EnableReading), (7, EnableWriting), (7, DisableReading)] :: (int \<times> channel_request) list"
  have w: "wanted ?ops ((\<lambda>_. 0)(5 := ReadEvent)) 7 = WriteEvent"
    by (simp add: ReadEvent_def WriteEvent_def POLLIN_def POLLOUT_def)
  show ?thesis
    using poller_mirrors_channels [where fd = "\<lambda>p. p" and ops = ?ops, OF obliging_kernel_obeys _ refl l]
    unfolding Let_def using l w by (fastforce simp: inj_def)
qed

text \<open>A channel that is disabled a second time is registered again: its index says it was deleted, which
  the update takes as a request to add it. The kernel then reports hang-ups and errors to it.\<close>

lemma disabling_twice_watches_again:
  assumes "new_EventLoop obliging_kernel 5 5 = Inr (l :: (int, unit) event_loop)"
  shows "\<exists>chan' l'. channel_run obliging_kernel [(7, EnableReading), (7, DisableAll), (7, DisableAll)]
      ((\<lambda>p. new_Channel p)(5 := lp_wakeupChannel l), l) = Inr (chan', l') \<and>
    interest (po_ctl (lp_poller l')) 7 = Some (0, 7)"
proof -
  have "lp_poller l = \<lparr>po_channels = [(5, 5)], po_events_size = kInitEventListSize, po_ctl = [(EPOLL_CTL_ADD, 5, ReadEvent, 5)]\<rparr>"
    using assms by (simp add: new_EventLoop_def enableReading_def channel_update_def updateChannel_def new_Poller_def
        poller_update_def cpp_assert_def Let_def obliging_kernel_def interest_def) auto
  then show ?thesis
    by (simp add: in_poller_def enableReading_def disableAll_def channel_update_def updateChannel_def poller_update_def
        cpp_assert_def Let_def obliging_kernel_def interest_def isNoneEvent_def NoneEvent_def ReadEvent_def POLLIN_def)
qed

section \<open>Functors run once, in order, and wake the loop\<close>

lemmas loop_defs = queueInLoop_def wakeup_def loop_handleRead_def loop_handled_def begin_functors_def
  next_functor_def end_functors_def

lemma loop_poll_frame:
  assumes "loop_poll fd_of ready l = Inr (active, l')"
  shows "lp_pendingFunctors l' = lp_pendingFunctors l" "lp_functors l' = lp_functors l"
    "lp_callingPendingFunctors l' = lp_callingPendingFunctors l" "lp_eventHandling l'"
  using assms by (auto simp: loop_poll_def then_do_def split: sum.splits prod.splits)

lemma loop_step_ok:
  assumes "loop_step fd_of op (l, hist) = Some (l', hist')" "loop_ok l"
  shows "loop_ok l' \<and> hist' @ lp_functors l' @ lp_pendingFunctors l' =
    hist @ lp_functors l @ lp_pendingFunctors l @ posted [op]"
  using assms
proof (cases op)
  case (PollReturns ready)
  then obtain active where a: "loop_poll fd_of ready l = Inr (active, l')" "hist' = hist" and b: "\<not> lp_callingPendingFunctors l"
    using assms(1) by (auto split: if_splits sum.splits)
  show ?thesis using loop_poll_frame [OF a(1)] a(2) b assms(2) by (simp add: PollReturns loop_ok_def)
next
  case RunFunctor
  then show ?thesis using assms by (auto simp: loop_ok_def next_functor_def split: if_splits list.splits)
qed (auto simp: loop_ok_def loop_defs Let_def split: if_splits)

lemma posted_Cons: "posted (op # ops) = posted [op] @ posted ops"
  by (cases op) simp_all

lemma loop_run_ok:
  assumes "loop_run fd_of ops (l, hist) = Some (l', hist')" "loop_ok l"
  shows "loop_ok l' \<and> hist' @ lp_functors l' @ lp_pendingFunctors l' =
    hist @ lp_functors l @ lp_pendingFunctors l @ posted ops"
  using assms
proof (induction ops arbitrary: l hist)
  case (Cons op ops)
  then obtain l1 hist1 where s: "loop_step fd_of op (l, hist) = Some (l1, hist1)"
      "loop_run fd_of ops (l1, hist1) = Some (l', hist')"
    by (auto split: option.splits)
  have 1: "loop_ok l1" "hist1 @ lp_functors l1 @ lp_pendingFunctors l1 =
      hist @ lp_functors l @ lp_pendingFunctors l @ posted [op]"
    using loop_step_ok [OF s(1) Cons.prems(2)] by blast+
  have 2: "loop_ok l'" "hist' @ lp_functors l' @ lp_pendingFunctors l' =
      hist1 @ lp_functors l1 @ lp_pendingFunctors l1 @ posted ops"
    using Cons.IH [OF s(2) 1(1)] by blast+
  have "hist' @ lp_functors l' @ lp_pendingFunctors l' =
      (hist1 @ lp_functors l1 @ lp_pendingFunctors l1) @ posted ops"
    using 2(2) by simp
  then show ?case using 2(1) unfolding 1(2) posted_Cons [of op ops] by simp
qed simp

lemma loop_run_append:
  "loop_run fd_of (xs @ ys) s = (case loop_run fd_of xs s of None \<Rightarrow> None | Some s \<Rightarrow> loop_run fd_of ys s)"
  by (induction xs arbitrary: s) (auto split: option.splits)

lemma run_functors:
  "lp_callingPendingFunctors l \<Longrightarrow> loop_run fd_of (replicate (length (lp_functors l)) RunFunctor) (l, hist) =
     Some (l\<lparr>lp_functors := []\<rparr>, hist @ lp_functors l)"
proof (induction "lp_functors l" arbitrary: l hist)
  case Nil
  then show ?case by (cases l) simp
next
  case (Cons f fs)
  have "loop_step fd_of RunFunctor (l, hist) = Some (l\<lparr>lp_functors := fs\<rparr>, hist @ [f])"
    using Cons.prems Cons.hyps(2) [symmetric] by (simp add: next_functor_def)
  then show ?case using Cons.hyps(1) [of "l\<lparr>lp_functors := fs\<rparr>" "hist @ [f]"] Cons.hyps(2) [symmetric] Cons.prems
    by simp
qed

lemma full_round:
  assumes "blocked l"
  shows "\<exists>l'. loop_run fd_of (PollReturns None # Handled # replicate (length (lp_pendingFunctors l)) RunFunctor @ [Finish])
      (l, hist) = Some (l', hist @ lp_pendingFunctors l) \<and> blocked l' \<and> lp_pendingFunctors l' = []"
proof -
  let ?l = "begin_functors (loop_handled (l\<lparr>lp_activeChannels := [], lp_iteration := lp_iteration l + 1, lp_eventHandling := True\<rparr>))"
  have p: "loop_step fd_of (PollReturns None) (l, hist) =
      Some (l\<lparr>lp_activeChannels := [], lp_iteration := lp_iteration l + 1, lp_eventHandling := True\<rparr>, hist)"
    using assms by (simp add: blocked_def loop_poll_def poll_def)
  have r: "loop_run fd_of (replicate (length (lp_pendingFunctors l)) RunFunctor) (?l, hist) =
      Some (?l\<lparr>lp_functors := []\<rparr>, hist @ lp_pendingFunctors l)"
    using run_functors [of ?l fd_of hist] by (simp add: begin_functors_def loop_handled_def)
  show ?thesis
    by (simp add: p r loop_run_append blocked_def del: loop_step.simps(2))
      (simp add: begin_functors_def loop_handled_def end_functors_def)
qed

text \<open>
  C11. Posted functors run exactly once, in the order they were posted, and a sleeping loop is woken for
  them. Take any interleaving of a fresh loop's own steps with posts from the loop's thread (while it
  handles events or runs functors) and from other threads. Then what has run, followed by what is left
  of the round being run, followed by what is pending is the sequence of all posts. When the loop is
  blocked in the poll and functors are pending, the wake-up descriptor is readable, so that the poll
  returns; and the next pass of the loop runs them all, so that everything ever posted has run.\<close>
theorem functors_run_in_order:
  assumes "kernel_obeys kern" "new_EventLoop kern wp wakeupFd = Inr l0" "loop_run fd_of ops (l0, []) = Some (l, hist)"
  shows "hist @ lp_functors l @ lp_pendingFunctors l = posted ops \<and>
    (blocked l \<and> lp_pendingFunctors l \<noteq> [] \<longrightarrow> 0 < lp_wakeups l) \<and>
    (blocked l \<longrightarrow> (\<exists>l'. loop_run fd_of
      (PollReturns None # Handled # replicate (length (lp_pendingFunctors l)) RunFunctor @ [Finish]) (l, hist) =
        Some (l', posted ops) \<and> blocked l' \<and> lp_pendingFunctors l' = []))"
proof (intro conjI)
  have n: "loop_ok l0" "lp_pendingFunctors l0 = []" "lp_functors l0 = []"
    using assms(2) by (auto simp: new_EventLoop_def then_do_def loop_ok_def split: sum.splits)
  have r: "loop_ok l" "hist @ lp_functors l @ lp_pendingFunctors l = posted ops"
    using loop_run_ok [OF assms(3) n(1)] n by auto
  show "hist @ lp_functors l @ lp_pendingFunctors l = posted ops" by (rule r(2))
  show "blocked l \<and> lp_pendingFunctors l \<noteq> [] \<longrightarrow> 0 < lp_wakeups l"
    using r(1) by (simp add: loop_ok_def blocked_def)
  have "hist @ lp_pendingFunctors l = posted ops" if "blocked l"
    using that r by (simp add: loop_ok_def blocked_def)
  then show "blocked l \<longrightarrow> (\<exists>l'. loop_run fd_of
      (PollReturns None # Handled # replicate (length (lp_pendingFunctors l)) RunFunctor @ [Finish]) (l, hist) =
        Some (l', posted ops) \<and> blocked l' \<and> lp_pendingFunctors l' = [])"
    using full_round [of l fd_of hist] by auto
qed

theorem functors_run_in_order_witness:
  "\<exists>(l :: (int, string) event_loop) l'. new_EventLoop obliging_kernel 5 5 = Inr l \<and>
    loop_run (\<lambda>p. p) [Post False ''a'', PollReturns None, Post True ''b'', Handled, Post False ''c'', RunFunctor]
      (l, []) = Some (l', [''a'']) \<and> lp_functors l' @ lp_pendingFunctors l' = [''b'', ''c'']"
proof -
  obtain l :: "(int, string) event_loop" where l: "new_EventLoop obliging_kernel 5 5 = Inr l"
    by (rule exE [OF new_loop_exists [OF obliging_kernel_obeys]])
  let ?ops = "[Post False ''a'', PollReturns None, Post True ''b'', Handled, Post False ''c'', RunFunctor]
    :: (int, string) loop_op list"
  have n: "lp_eventHandling l = False" "lp_callingPendingFunctors l = False" "lp_pendingFunctors l = []"
    using l by (auto simp: new_EventLoop_def then_do_def split: sum.splits)
  have "\<exists>l'. loop_run (\<lambda>p. p) ?ops (l, []) = Some (l', [''a''])"
    by (simp add: n loop_defs loop_poll_def poll_def)
  then obtain l' where r: "loop_run (\<lambda>p. p) ?ops (l, []) = Some (l', [''a''])" by blast
  show ?thesis using functors_run_in_order [OF obliging_kernel_obeys l r] l r by auto
qed

end
