(* ===== verification/Tcp_Connection.thy ===== *)
theory Tcp_Connection
  imports Event_Loop
begin

text \<open>
  TCP connections (\<^verbatim>\<open>network/src/TcpConnection.cc\<close>) on the event loops of \<open>Event_Loop\<close>.

  The state \<open>net\<close> holds the event loops and the connection objects; a connection is named by its index
  in \<open>nt_conns\<close> and lives in the loop \<open>tc_loop\<close>. An operation runs in the thread of loop \<open>i\<close>
  (\<open>me = Some i\<close>) or in some other thread (\<open>me = None\<close>). A bound function that is handed to a loop is a
  value of \<open>net_functor\<close>. The record can be extended: the close callback, which belongs to the owner of the
  connection, is an argument of the operations that call it. The answers of the kernel to a read or
  a write are arguments too. \<open>tc_wire\<close> is what the kernel has accepted for sending, \<open>tc_calls\<close> the
  user callbacks so far.
\<close>

section \<open>State\<close>

datatype chan_ptr = WakeupChannel | AcceptChannel | ConnChannel nat

datatype net_functor =
    SendInLoop nat string
  | ShutdownInLoop nat
  | ForceCloseInLoop nat
  | StartReadInLoop nat
  | StopReadInLoop nat
  | ConnectEstablished nat
  | ConnectDestroyed nat
  | WriteComplete nat
  | RemoveConnectionInLoop nat

type_synonym net_loop = "(chan_ptr, net_functor) event_loop"
type_synonym kernel = "chan_ptr epoll_ctl"

datatype StateE = kDisconnected | kConnecting | kConnected | kDisconnecting

datatype conn_call = ConnectionCallback bool | MessageCallback string | WriteCompleteCallback | CloseCallback

record tcp_conn =
  tc_loop :: nat
  tc_name :: string
  tc_state :: StateE
  tc_reading :: bool
  tc_channel :: net_channel
  tc_writeCompleteCallback :: bool
  tc_inputBuffer :: Buffer
  tc_outputBuffer :: Buffer
  tc_wire :: string
  tc_writeShut :: bool
  tc_calls :: "conn_call list"

record net =
  nt_loops :: "net_loop list"
  nt_conns :: "tcp_conn list"

text \<open>The result of a write: an error number or the number of bytes taken.\<close>

type_synonym kwrite = "string \<Rightarrow> int + nat"

definition EWOULDBLOCK :: int where "EWOULDBLOCK = 11"
definition EPIPE :: int where "EPIPE = 32"
definition ECONNRESET :: int where "ECONNRESET = 104"

section \<open>Access\<close>

definition conn :: "'z net_scheme \<Rightarrow> nat \<Rightarrow> tcp_conn" where
  "conn w c = nt_conns w ! c"

definition put_conn :: "nat \<Rightarrow> tcp_conn \<Rightarrow> 'z net_scheme \<Rightarrow> 'z net_scheme" where
  "put_conn c k w = w\<lparr>nt_conns := (nt_conns w)[c := k]\<rparr>"

definition lookup_loop :: "'z net_scheme \<Rightarrow> nat \<Rightarrow> net_loop" where
  "lookup_loop w i = nt_loops w ! i"

definition put_loop :: "nat \<Rightarrow> net_loop \<Rightarrow> 'z net_scheme \<Rightarrow> 'z net_scheme" where
  "put_loop i l w = w\<lparr>nt_loops := (nt_loops w)[i := l]\<rparr>"

definition queue_in :: "nat option \<Rightarrow> nat \<Rightarrow> net_functor \<Rightarrow> 'z net_scheme \<Rightarrow> 'z net_scheme" where
  "queue_in me i f w = put_loop i (queueInLoop (me = Some i) f (lookup_loop w i)) w"

text \<open>An operation of the connection's channel.\<close>

definition on_channel ::
  "(chan_ptr \<Rightarrow> net_channel \<Rightarrow> chan_ptr poller \<Rightarrow> (net_channel \<times> chan_ptr poller) result) \<Rightarrow> nat \<Rightarrow>
   'z net_scheme \<Rightarrow> 'z net_scheme result" where
  "on_channel f c w =
     (let k = conn w c; l = lookup_loop w (tc_loop k)
      in then_do (f (ConnChannel c) (tc_channel k) (lp_poller l)) (\<lambda>(ch, po).
           Inr (put_conn c (k\<lparr>tc_channel := ch\<rparr>) (put_loop (tc_loop k) (l\<lparr>lp_poller := po\<rparr>) w))))"

definition setState :: "StateE \<Rightarrow> nat \<Rightarrow> 'z net_scheme \<Rightarrow> 'z net_scheme" where
  "setState s c w = put_conn c (conn w c\<lparr>tc_state := s\<rparr>) w"

definition add_call :: "conn_call \<Rightarrow> nat \<Rightarrow> 'z net_scheme \<Rightarrow> 'z net_scheme" where
  "add_call x c w = put_conn c (conn w c\<lparr>tc_calls := tc_calls (conn w c) @ [x]\<rparr>) w"

text \<open>The callback finds out with \<^verbatim>\<open>connected()\<close> whether the connection is up.\<close>

definition connectionCallback :: "nat \<Rightarrow> 'z net_scheme \<Rightarrow> 'z net_scheme" where
  "connectionCallback c w = add_call (ConnectionCallback (tc_state (conn w c) = kConnected)) c w"

section \<open>Operations\<close>

definition new_TcpConnection :: "nat \<Rightarrow> string \<Rightarrow> int \<Rightarrow> bool \<Rightarrow> tcp_conn" where
  "new_TcpConnection i nameArg sockfd writeComplete =
     \<lparr>tc_loop = i, tc_name = nameArg, tc_state = kConnecting, tc_reading = True, tc_channel = new_Channel sockfd,
      tc_writeCompleteCallback = writeComplete, tc_inputBuffer = new_Buffer kInitialSize,
      tc_outputBuffer = new_Buffer kInitialSize, tc_wire = [], tc_writeShut = False, tc_calls = []\<rparr>"

definition writeComplete :: "nat option \<Rightarrow> nat \<Rightarrow> 'z net_scheme \<Rightarrow> 'z net_scheme" where
  "writeComplete me c w =
     (if tc_writeCompleteCallback (conn w c) then queue_in me (tc_loop (conn w c)) (WriteComplete c) w else w)"

text \<open>The direct write at the head of \<open>sendInLoop\<close>: the bytes written, and whether the connection is
  broken.\<close>

definition try_write :: "kwrite \<Rightarrow> nat option \<Rightarrow> nat \<Rightarrow> string \<Rightarrow> 'z net_scheme \<Rightarrow> nat \<times> bool \<times> 'z net_scheme" where
  "try_write write me c data w =
     (if \<not> isWriting (tc_channel (conn w c)) \<and> readableBytes (tc_outputBuffer (conn w c)) = 0
      then case write data of
             Inr nwrote \<Rightarrow>
               let w = put_conn c (conn w c\<lparr>tc_wire := tc_wire (conn w c) @ take nwrote data\<rparr>) w;
                   remaining = length data - nwrote
               in (nwrote, False, if remaining = 0 then writeComplete me c w else w)
           | Inl err \<Rightarrow> (0, err \<noteq> EWOULDBLOCK \<and> (err = EPIPE \<or> err = ECONNRESET), w)
      else (0, False, w))"

definition sendInLoop ::
  "kernel \<Rightarrow> kwrite \<Rightarrow> nat option \<Rightarrow> nat \<Rightarrow> string \<Rightarrow> 'z net_scheme \<Rightarrow> 'z net_scheme result" where
  "sendInLoop kern write me c data w =
     (if tc_state (conn w c) = kDisconnected then Inr w
      else let (nwrote, faultError, w) = try_write write me c data w;
               remaining = length data - nwrote
           in if \<not> faultError \<and> 0 < remaining
              then then_do (append_bytes (drop nwrote data) (tc_outputBuffer (conn w c))) (\<lambda>b.
                     let w = put_conn c (conn w c\<lparr>tc_outputBuffer := b\<rparr>) w
                     in if \<not> isWriting (tc_channel (conn w c)) then on_channel (enableWriting kern) c w else Inr w)
              else Inr w)"

text \<open>\<open>send\<close> takes all bytes out of the caller's buffer unless the connection is not up.\<close>

definition send ::
  "kernel \<Rightarrow> kwrite \<Rightarrow> nat option \<Rightarrow> nat \<Rightarrow> Buffer \<Rightarrow> 'z net_scheme \<Rightarrow> (Buffer \<times> 'z net_scheme) result" where
  "send kern write me c buf w =
     (if tc_state (conn w c) = kConnected
      then if me = Some (tc_loop (conn w c))
           then then_do (sendInLoop kern write me c (peek_bytes (readableBytes buf) buf) w)
                  (\<lambda>w. Inr (retrieveAll buf, w))
           else then_do (retrieveAllAsString buf) (\<lambda>(str, buf).
                  Inr (buf, queue_in me (tc_loop (conn w c)) (SendInLoop c str) w))
      else Inr (buf, w))"

definition shutdownInLoop :: "nat \<Rightarrow> 'z net_scheme \<Rightarrow> 'z net_scheme" where
  "shutdownInLoop c w =
     (if \<not> isWriting (tc_channel (conn w c)) then put_conn c (conn w c\<lparr>tc_writeShut := True\<rparr>) w else w)"

definition shutdown :: "nat option \<Rightarrow> nat \<Rightarrow> 'z net_scheme \<Rightarrow> 'z net_scheme" where
  "shutdown me c w =
     (if tc_state (conn w c) = kConnected
      then let w = setState kDisconnecting c w
           in if me = Some (tc_loop (conn w c)) then shutdownInLoop c w
              else queue_in me (tc_loop (conn w c)) (ShutdownInLoop c) w
      else w)"

definition forceClose :: "nat option \<Rightarrow> nat \<Rightarrow> 'z net_scheme \<Rightarrow> 'z net_scheme" where
  "forceClose me c w =
     (if tc_state (conn w c) = kConnected \<or> tc_state (conn w c) = kDisconnecting
      then queue_in me (tc_loop (conn w c)) (ForceCloseInLoop c) (setState kDisconnecting c w)
      else w)"

definition forceCloseWithDelay :: "nat \<Rightarrow> 'z net_scheme \<Rightarrow> 'z net_scheme" where
  "forceCloseWithDelay c w =
     (if tc_state (conn w c) = kConnected \<or> tc_state (conn w c) = kDisconnecting
      then setState kDisconnecting c w else w)"

type_synonym 'z close_callback = "nat \<Rightarrow> 'z net_scheme \<Rightarrow> 'z net_scheme result"

definition handleClose :: "kernel \<Rightarrow> 'z close_callback \<Rightarrow> nat \<Rightarrow> 'z net_scheme \<Rightarrow> 'z net_scheme result" where
  "handleClose kern closeCallback c w =
     cpp_assert (tc_state (conn w c) = kConnected \<or> tc_state (conn w c) = kDisconnecting)
       (then_do (on_channel (disableAll kern) c (setState kDisconnected c w)) (\<lambda>w.
          closeCallback c (add_call CloseCallback c (connectionCallback c w))))"

definition forceCloseInLoop :: "kernel \<Rightarrow> 'z close_callback \<Rightarrow> nat \<Rightarrow> 'z net_scheme \<Rightarrow> 'z net_scheme result" where
  "forceCloseInLoop kern closeCallback c w =
     (if tc_state (conn w c) = kConnected \<or> tc_state (conn w c) = kDisconnecting
      then handleClose kern closeCallback c w else Inr w)"

definition stateToString :: "StateE \<Rightarrow> string" where
  "stateToString s = (case s of kDisconnected \<Rightarrow> ''kDisconnected'' | kConnecting \<Rightarrow> ''kConnecting''
     | kConnected \<Rightarrow> ''kConnected'' | kDisconnecting \<Rightarrow> ''kDisconnecting'')"

definition startReadInLoop :: "kernel \<Rightarrow> nat \<Rightarrow> 'z net_scheme \<Rightarrow> 'z net_scheme result" where
  "startReadInLoop kern c w =
     (if \<not> tc_reading (conn w c) \<or> \<not> isReading (tc_channel (conn w c))
      then then_do (on_channel (enableReading kern) c w) (\<lambda>w. Inr (put_conn c (conn w c\<lparr>tc_reading := True\<rparr>) w))
      else Inr w)"

definition startRead :: "kernel \<Rightarrow> nat option \<Rightarrow> nat \<Rightarrow> 'z net_scheme \<Rightarrow> 'z net_scheme result" where
  "startRead kern me c w =
     (if me = Some (tc_loop (conn w c)) then startReadInLoop kern c w
      else Inr (queue_in me (tc_loop (conn w c)) (StartReadInLoop c) w))"

definition stopReadInLoop :: "kernel \<Rightarrow> nat \<Rightarrow> 'z net_scheme \<Rightarrow> 'z net_scheme result" where
  "stopReadInLoop kern c w =
     (if tc_reading (conn w c) \<or> isReading (tc_channel (conn w c))
      then then_do (on_channel (disableReading kern) c w) (\<lambda>w. Inr (put_conn c (conn w c\<lparr>tc_reading := False\<rparr>) w))
      else Inr w)"

definition stopRead :: "kernel \<Rightarrow> nat option \<Rightarrow> nat \<Rightarrow> 'z net_scheme \<Rightarrow> 'z net_scheme result" where
  "stopRead kern me c w =
     (if me = Some (tc_loop (conn w c)) then stopReadInLoop kern c w
      else Inr (queue_in me (tc_loop (conn w c)) (StopReadInLoop c) w))"

definition connectEstablished :: "kernel \<Rightarrow> nat \<Rightarrow> 'z net_scheme \<Rightarrow> 'z net_scheme result" where
  "connectEstablished kern c w =
     cpp_assert (tc_state (conn w c) = kConnecting)
       (then_do (on_channel (enableReading kern) c (setState kConnected c w)) (\<lambda>w. Inr (connectionCallback c w)))"

definition remove_channel :: "kernel \<Rightarrow> nat \<Rightarrow> 'z net_scheme \<Rightarrow> 'z net_scheme result" where
  "remove_channel kern c w =
     (let k = conn w c
      in then_do (channel_remove kern (ConnChannel c) (tc_channel k) (lookup_loop w (tc_loop k))) (\<lambda>(ch, l).
           Inr (put_conn c (k\<lparr>tc_channel := ch\<rparr>) (put_loop (tc_loop k) l w))))"

definition connectDestroyed :: "kernel \<Rightarrow> nat \<Rightarrow> 'z net_scheme \<Rightarrow> 'z net_scheme result" where
  "connectDestroyed kern c w =
     then_do (if tc_state (conn w c) = kConnected
              then then_do (on_channel (disableAll kern) c (setState kDisconnected c w))
                     (\<lambda>w. Inr (connectionCallback c w))
              else Inr w)
       (remove_channel kern c)"

definition handleError :: "nat \<Rightarrow> 'z net_scheme \<Rightarrow> 'z net_scheme result" where
  "handleError c w = Inr w"

text \<open>The message callback gets the input buffer and takes out what it wants: the bytes it took and the
  buffer it leaves.\<close>

type_synonym message_callback = "Buffer \<Rightarrow> (string \<times> Buffer) result"

definition handleRead ::
  "kernel \<Rightarrow> message_callback \<Rightarrow> readv \<Rightarrow> 'z close_callback \<Rightarrow> nat \<Rightarrow> 'z net_scheme \<Rightarrow> 'z net_scheme result" where
  "handleRead kern messageCallback readv closeCallback c w =
     then_do (readFd readv (tc_inputBuffer (conn w c))) (\<lambda>(n, savedErrno, b).
       let w = put_conn c (conn w c\<lparr>tc_inputBuffer := b\<rparr>) w
       in if 0 < n
          then then_do (messageCallback (tc_inputBuffer (conn w c))) (\<lambda>(str, b).
                 Inr (add_call (MessageCallback str) c (put_conn c (conn w c\<lparr>tc_inputBuffer := b\<rparr>) w)))
          else if n = 0 then handleClose kern closeCallback c w
          else handleError c w)"

definition handleWrite ::
  "kernel \<Rightarrow> kwrite \<Rightarrow> nat option \<Rightarrow> nat \<Rightarrow> 'z net_scheme \<Rightarrow> 'z net_scheme result" where
  "handleWrite kern write me c w =
     (if isWriting (tc_channel (conn w c))
      then let b = tc_outputBuffer (conn w c); data = peek_bytes (readableBytes b) b
           in case write data of
                Inl _ \<Rightarrow> Inr w
              | Inr n \<Rightarrow>
                  (if n = 0 then Inr w
                   else then_do (retrieve n b) (\<lambda>b.
                     let w = put_conn c (conn w c\<lparr>tc_outputBuffer := b, tc_wire := tc_wire (conn w c) @ take n data\<rparr>) w
                     in if readableBytes b = 0
                        then then_do (on_channel (disableWriting kern) c w) (\<lambda>w.
                               let w = writeComplete me c w
                               in Inr (if tc_state (conn w c) = kDisconnecting then shutdownInLoop c w else w))
                        else Inr w))
      else Inr w)"

definition set_handling :: "nat \<Rightarrow> bool \<Rightarrow> 'z net_scheme \<Rightarrow> 'z net_scheme" where
  "set_handling c on w =
     put_conn c (conn w c\<lparr>tc_channel := tc_channel (conn w c)\<lparr>nc_event_handling := on\<rparr>\<rparr>) w"

text \<open>The channel of a connection calls back as its constructor says.\<close>

definition conn_event ::
  "kernel \<Rightarrow> message_callback \<Rightarrow> kwrite \<Rightarrow> readv \<Rightarrow> 'z close_callback \<Rightarrow> nat option \<Rightarrow> nat \<Rightarrow> events \<Rightarrow>
   'z net_scheme \<Rightarrow> 'z net_scheme result" where
  "conn_event kern messageCallback write readv closeCallback me c revents w =
     handleEvent (set_handling c) (Some (handleClose kern closeCallback c))
       (Some (handleRead kern messageCallback readv closeCallback c))
       (Some (handleWrite kern write me c)) (Some (handleError c)) revents w"

section \<open>Specification\<close>

text \<open>The channels a loop serves; \<open>acc\<close> is the acceptor's channel, which lives in loop 0.\<close>

definition chan_at :: "net_channel option \<Rightarrow> 'z net_scheme \<Rightarrow> nat \<Rightarrow> chan_ptr \<Rightarrow> net_channel option" where
  "chan_at acc w i p =
     (case p of
        WakeupChannel \<Rightarrow> Some (lp_wakeupChannel (lookup_loop w i))
      | AcceptChannel \<Rightarrow> (if i = 0 then acc else None)
      | ConnChannel c \<Rightarrow>
          (if c < length (nt_conns w) \<and> tc_loop (conn w c) = i then Some (tc_channel (conn w c)) else None))"

definition pollers_ok :: "net_channel option \<Rightarrow> 'z net_scheme \<Rightarrow> bool" where
  "pollers_ok acc w \<longleftrightarrow> (\<forall>i < length (nt_loops w). poller_ok (chan_at acc w i) (lp_poller (lookup_loop w i)))"

definition queue_of :: "'z net_scheme \<Rightarrow> nat \<Rightarrow> net_functor list" where
  "queue_of w i = lp_functors (lookup_loop w i) @ lp_pendingFunctors (lookup_loop w i)"

text \<open>A connection that is up waits for input, and for room to write while it has bytes to send.\<close>

definition live_events :: "tcp_conn \<Rightarrow> events" where
  "live_events k = (if contents (tc_outputBuffer k) = [] then ReadEvent else ReadEvent OR WriteEvent)"

definition conn_in :: "'z net_scheme \<Rightarrow> nat \<Rightarrow> bool" where
  "conn_in w c \<longleftrightarrow> c < length (nt_conns w) \<and> tc_loop (conn w c) < length (nt_loops w)"

definition live :: "tcp_conn \<Rightarrow> bool" where
  "live k \<longleftrightarrow> (tc_state k = kConnected \<or> tc_state k = kDisconnecting) \<and>
     nc_index (tc_channel k) = kAdded \<and> nc_events (tc_channel k) = live_events k \<and>
     buffer_ok (tc_inputBuffer k) \<and> buffer_ok (tc_outputBuffer k)"

text \<open>\<open>frame c w w'\<close>: only connection \<open>c\<close> and the pollers have changed, and write-complete callbacks may have
  been queued.\<close>

definition frame :: "nat \<Rightarrow> 'z net_scheme \<Rightarrow> 'z net_scheme \<Rightarrow> bool" where
  "frame c w w' \<longleftrightarrow> length (nt_conns w') = length (nt_conns w) \<and> length (nt_loops w') = length (nt_loops w) \<and>
     net.more w' = net.more w \<and> (\<forall>d. d \<noteq> c \<longrightarrow> conn w' d = conn w d) \<and>
     tc_loop (conn w' c) = tc_loop (conn w c) \<and> tc_name (conn w' c) = tc_name (conn w c) \<and>
     nc_fd (tc_channel (conn w' c)) = nc_fd (tc_channel (conn w c)) \<and>
     (\<forall>i. lp_eventHandling (lookup_loop w' i) = lp_eventHandling (lookup_loop w i) \<and>
        lp_callingPendingFunctors (lookup_loop w' i) = lp_callingPendingFunctors (lookup_loop w i) \<and>
        lp_functors (lookup_loop w' i) = lp_functors (lookup_loop w i) \<and>
        lp_wakeupChannel (lookup_loop w' i) = lp_wakeupChannel (lookup_loop w i) \<and>
        (\<exists>n. lp_pendingFunctors (lookup_loop w' i) = lp_pendingFunctors (lookup_loop w i) @ replicate n (WriteComplete c) \<and>
           (i \<noteq> tc_loop (conn w c) \<longrightarrow> n = 0)))"

text \<open>What can happen to an established connection, in its loop's thread.\<close>

datatype stream_op =
    Send string kwrite
  | Writable kwrite
  | Shutdown
  | Receive string

fun stream_step :: "kernel \<Rightarrow> 'z close_callback \<Rightarrow> nat \<Rightarrow> stream_op \<Rightarrow> 'z net_scheme \<Rightarrow> 'z net_scheme result" where
  "stream_step kern closeCallback c (Send data write) w =
     then_do (append_bytes data (new_Buffer kInitialSize)) (\<lambda>buf.
     then_do (send kern write (Some (tc_loop (conn w c))) c buf w) (\<lambda>(_, w). Inr w))"
| "stream_step kern closeCallback c (Writable write) w = handleWrite kern write (Some (tc_loop (conn w c))) c w"
| "stream_step kern closeCallback c Shutdown w = Inr (shutdown (Some (tc_loop (conn w c))) c w)"
| "stream_step kern closeCallback c (Receive data) w =
     handleRead kern retrieveAllAsString (kernel_readv data) closeCallback c w"

fun stream_run :: "kernel \<Rightarrow> 'z close_callback \<Rightarrow> nat \<Rightarrow> stream_op list \<Rightarrow> 'z net_scheme \<Rightarrow> 'z net_scheme result" where
  "stream_run kern closeCallback c [] w = Inr w"
| "stream_run kern closeCallback c (op # ops) w =
     then_do (stream_step kern closeCallback c op w) (stream_run kern closeCallback c ops)"

text \<open>A write takes at most what it is given and does not find the connection broken; a read delivers
  something and not more than fits beside the buffer.\<close>

definition write_sane :: "kwrite \<Rightarrow> bool" where
  "write_sane write \<longleftrightarrow> (\<forall>data. case write data of Inr n \<Rightarrow> n \<le> length data | Inl _ \<Rightarrow> True)"

definition write_unbroken :: "kwrite \<Rightarrow> bool" where
  "write_unbroken write \<longleftrightarrow> (\<forall>data. case write data of Inr n \<Rightarrow> n \<le> length data | Inl e \<Rightarrow> e \<noteq> EPIPE \<and> e \<noteq> ECONNRESET)"

fun unbroken :: "stream_op \<Rightarrow> bool" where
  "unbroken (Send data write) \<longleftrightarrow> write_unbroken write"
| "unbroken (Writable write) \<longleftrightarrow> write_unbroken write"
| "unbroken Shutdown \<longleftrightarrow> True"
| "unbroken (Receive data) \<longleftrightarrow> data \<noteq> [] \<and> length data \<le> extrabuf_size"

fun sent_before_shutdown :: "stream_op list \<Rightarrow> string" where
  "sent_before_shutdown [] = []"
| "sent_before_shutdown (Send data write # ops) = data @ sent_before_shutdown ops"
| "sent_before_shutdown (Shutdown # ops) = []"
| "sent_before_shutdown (op # ops) = sent_before_shutdown ops"

fun received :: "stream_op list \<Rightarrow> conn_call list" where
  "received [] = []"
| "received (Receive data # ops) = MessageCallback data # received ops"
| "received (op # ops) = received ops"

section \<open>Access lemmas\<close>

lemma net_access [simp]:
  "c < length (nt_conns w) \<Longrightarrow> conn (put_conn c k w) d = (if d = c then k else conn w d)"
  "nt_loops (put_conn c k w) = nt_loops w" "length (nt_conns (put_conn c k w)) = length (nt_conns w)"
  "lookup_loop (put_conn c k w) i = lookup_loop w i" "net.more (put_conn c k w) = net.more w"
  "i < length (nt_loops w) \<Longrightarrow> lookup_loop (put_loop i l w) j = (if j = i then l else lookup_loop w j)"
  "nt_conns (put_loop i l w) = nt_conns w" "length (nt_loops (put_loop i l w)) = length (nt_loops w)"
  "conn (put_loop i l w) c = conn w c" "net.more (put_loop i l w) = net.more w"
  by (auto simp: conn_def put_conn_def lookup_loop_def put_loop_def nth_list_update)

lemma put_conn_twice [simp]: "put_conn c k (put_conn c k' w) = put_conn c k w"
  by (simp add: put_conn_def)

lemma put_loop_conn: "put_loop i l (put_conn c k w) = put_conn c k (put_loop i l w)"
  by (simp add: put_conn_def put_loop_def)

lemma queue_in_simps [simp]:
  "nt_conns (queue_in me i f w) = nt_conns w" "length (nt_loops (queue_in me i f w)) = length (nt_loops w)"
  "conn (queue_in me i f w) c = conn w c" "net.more (queue_in me i f w) = net.more w"
  by (simp_all add: queue_in_def)

lemma queueInLoop_simps [simp]:
  "lp_pendingFunctors (queueInLoop b f l) = lp_pendingFunctors l @ [f]" "lp_functors (queueInLoop b f l) = lp_functors l"
  "lp_poller (queueInLoop b f l) = lp_poller l" "lp_wakeupChannel (queueInLoop b f l) = lp_wakeupChannel l"
  "lp_eventHandling (queueInLoop b f l) = lp_eventHandling l"
  "lp_callingPendingFunctors (queueInLoop b f l) = lp_callingPendingFunctors l"
  by (simp_all add: queueInLoop_def wakeup_def Let_def)

lemma conn_event_bits:
  "ReadEvent AND WriteEvent = 0" "(ReadEvent OR WriteEvent) AND WriteEvent \<noteq> 0" "ReadEvent \<noteq> 0" "WriteEvent \<noteq> 0"
  "ReadEvent OR WriteEvent \<noteq> 0" "(ReadEvent OR WriteEvent) AND NOT WriteEvent = ReadEvent" "ReadEvent AND ReadEvent \<noteq> 0"
  by (simp_all add: ReadEvent_def WriteEvent_def POLLIN_def POLLOUT_def)

lemma live_writing: "nc_events (tc_channel k) = live_events k \<Longrightarrow> isWriting (tc_channel k) \<longleftrightarrow> contents (tc_outputBuffer k) \<noteq> []"
  using conn_event_bits by (simp add: isWriting_def live_events_def)

section \<open>Changing a channel\<close>

definition settle :: "channel_request \<Rightarrow> net_channel \<Rightarrow> net_channel" where
  "settle op ch = after_update (ch\<lparr>nc_events := wants op (nc_events ch), nc_addedToLoop := True\<rparr>)"

definition ask :: "channel_request \<Rightarrow> kernel \<Rightarrow> chan_ptr \<Rightarrow> net_channel \<Rightarrow> chan_ptr poller \<Rightarrow> (net_channel \<times> chan_ptr poller) result" where
  "ask op kern p ch po = updateChannel kern p (ch\<lparr>nc_events := wants op (nc_events ch), nc_addedToLoop := True\<rparr>) po"

lemma ask_simps:
  "enableReading kern = ask EnableReading kern" "disableReading kern = ask DisableReading kern"
  "enableWriting kern = ask EnableWriting kern" "disableWriting kern = ask DisableWriting kern"
  "disableAll kern = ask DisableAll kern"
  by (simp_all add: fun_eq_iff ask_def enableReading_def disableReading_def enableWriting_def disableWriting_def
      disableAll_def channel_update_def)

lemma settle_simps [simp]: "nc_fd (settle op ch) = nc_fd ch" "nc_events (settle op ch) = wants op (nc_events ch)"
  by (simp_all add: settle_def after_update_def)

lemma chan_at_set:
  assumes "c < length (nt_conns w)" "tc_loop (conn w c) < length (nt_loops w)" "tc_loop k = tc_loop (conn w c)"
    "lp_wakeupChannel l = lp_wakeupChannel (lookup_loop w (tc_loop k))"
  shows "chan_at acc (put_conn c k (put_loop (tc_loop k) l w)) i =
    (if i = tc_loop k then (chan_at acc w i)(ConnChannel c \<mapsto> tc_channel k) else chan_at acc w i)"
  using assms by (auto simp: fun_eq_iff chan_at_def split: chan_ptr.splits)

lemma chan_at_conn:
  "c < length (nt_conns w) \<Longrightarrow> chan_at acc w (tc_loop (conn w c)) (ConnChannel c) = Some (tc_channel (conn w c))"
  by (simp add: chan_at_def)

definition asked :: "channel_request \<Rightarrow> nat \<Rightarrow> chan_ptr poller \<Rightarrow> 'z net_scheme \<Rightarrow> 'z net_scheme" where
  "asked op c po w =
     put_conn c (conn w c\<lparr>tc_channel := settle op (tc_channel (conn w c))\<rparr>)
       (put_loop (tc_loop (conn w c)) (lookup_loop w (tc_loop (conn w c))\<lparr>lp_poller := po\<rparr>) w)"

lemma on_channel_ask:
  assumes kern: "kernel_obeys kern" and ok: "pollers_ok acc w" and c: "conn_in w c"
    and new: "nc_index (tc_channel (conn w c)) = kNew \<Longrightarrow>
      map_of (po_channels (lp_poller (lookup_loop w (tc_loop (conn w c))))) (nc_fd (tc_channel (conn w c))) = None"
  shows "\<exists>po. on_channel (ask op kern) c w = Inr (asked op c po w) \<and> pollers_ok acc (asked op c po w)"
proof -
  let ?k = "conn w c" and ?i = "tc_loop (conn w c)"
  let ?l = "lookup_loop w ?i"
  have b: "c < length (nt_conns w)" "?i < length (nt_loops w)" using c by (simp_all add: conn_in_def)
  have pok: "poller_ok (chan_at acc w ?i) (lp_poller ?l)" using ok b unfolding pollers_ok_def by blast
  obtain po where po: "ask op kern (ConnChannel c) (tc_channel ?k) (lp_poller ?l) = Inr (settle op (tc_channel ?k), po)"
      "poller_ok ((chan_at acc w ?i)(ConnChannel c \<mapsto> settle op (tc_channel ?k))) po"
    using updateChannel_ok [OF kern pok chan_at_conn [OF b(1)],
        of "tc_channel ?k\<lparr>nc_events := wants op (nc_events (tc_channel ?k)), nc_addedToLoop := True\<rparr>"] new
    unfolding ask_def settle_def by auto
  let ?w = "put_conn c (?k\<lparr>tc_channel := settle op (tc_channel ?k)\<rparr>) (put_loop ?i (?l\<lparr>lp_poller := po\<rparr>) w)"
  have "on_channel (ask op kern) c w = Inr ?w"
    using po(1) by (simp add: on_channel_def Let_def)
  moreover have "pollers_ok acc ?w"
    unfolding pollers_ok_def
  proof (intro allI impI)
    fix j assume j: "j < length (nt_loops ?w)"
    have "chan_at acc ?w j = (if j = ?i then (chan_at acc w j)(ConnChannel c \<mapsto> settle op (tc_channel ?k)) else chan_at acc w j)"
      using chan_at_set [OF b, of "?k\<lparr>tc_channel := settle op (tc_channel ?k)\<rparr>" "?l\<lparr>lp_poller := po\<rparr>" acc j] by simp
    then show "poller_ok (chan_at acc ?w j) (lp_poller (lookup_loop ?w j))"
      using po(2) ok j b by (auto simp: pollers_ok_def)
  qed
  ultimately show ?thesis unfolding asked_def by blast
qed

lemma poller_ok_cong:
  assumes ok: "poller_ok chan po"
    and same: "\<And>p. (case chan p of None \<Rightarrow> chan' p = None
      | Some ch \<Rightarrow> \<exists>ch'. chan' p = Some ch' \<and> nc_fd ch' = nc_fd ch \<and> nc_index ch' = nc_index ch \<and> nc_events ch' = nc_events ch)"
  shows "poller_ok chan' po"
proof -
  have "(\<exists>ch. chan p = Some ch \<and> P (nc_fd ch) (nc_index ch) (nc_events ch)) \<longleftrightarrow>
      (\<exists>ch. chan' p = Some ch \<and> P (nc_fd ch) (nc_index ch) (nc_events ch))" for p and P :: "int \<Rightarrow> int \<Rightarrow> events \<Rightarrow> bool"
    using same [of p] by (cases "chan p") auto
  note eq = this
  have 1: "map_of (po_channels po) fd = Some p \<longleftrightarrow> (\<exists>ch. chan' p = Some ch \<and> nc_fd ch = fd \<and> nc_index ch \<noteq> kNew)" for fd p
    using poller_okD(1) [OF ok, of fd p] eq [of p "\<lambda>f i e. f = fd \<and> i \<noteq> kNew"] by simp
  have 2: "interest (po_ctl po) fd = Some (ev, p) \<longleftrightarrow>
      (\<exists>ch. chan' p = Some ch \<and> nc_fd ch = fd \<and> nc_index ch = kAdded \<and> nc_events ch = ev)" for fd ev p
    using poller_okD(2) [OF ok, of fd ev p] eq [of p "\<lambda>f i e. f = fd \<and> i = kAdded \<and> e = ev"] by simp
  have 3: "nc_index ch' \<in> {kNew, kAdded, kDeleted}" if "chan' p = Some ch'" for p ch'
    using that same [of p] poller_okD(3) [OF ok, of p] by (cases "chan p") auto
  show ?thesis unfolding poller_ok_def using 1 2 3 poller_okD(4) [OF ok] by simp
qed

lemma pollers_ok_put_conn:
  assumes "pollers_ok acc w" "c < length (nt_conns w)" "tc_loop k = tc_loop (conn w c)"
    "nc_fd (tc_channel k) = nc_fd (tc_channel (conn w c))" "nc_index (tc_channel k) = nc_index (tc_channel (conn w c))"
    "nc_events (tc_channel k) = nc_events (tc_channel (conn w c))"
  shows "pollers_ok acc (put_conn c k w)"
  unfolding pollers_ok_def
proof (intro allI impI)
  fix i assume "i < length (nt_loops (put_conn c k w))"
  then have "poller_ok (chan_at acc w i) (lp_poller (lookup_loop w i))" using assms(1) by (simp add: pollers_ok_def)
  then have "poller_ok (chan_at acc (put_conn c k w) i) (lp_poller (lookup_loop w i))"
    by (rule poller_ok_cong) (use assms in \<open>auto simp: chan_at_def split: option.splits chan_ptr.splits\<close>)
  then show "poller_ok (chan_at acc (put_conn c k w) i) (lp_poller (lookup_loop (put_conn c k w) i))" by simp
qed

lemma lookup_queue_in:
  "i < length (nt_loops w) \<Longrightarrow>
   lookup_loop (queue_in me i f w) j = (if j = i then queueInLoop (me = Some i) f (lookup_loop w i) else lookup_loop w j)"
  by (simp add: queue_in_def)

lemma pollers_ok_queue_in [simp]:
  assumes "i < length (nt_loops w)"
  shows "pollers_ok acc (queue_in me i f w) = pollers_ok acc w"
proof -
  have "chan_at acc (queue_in me i f w) j = chan_at acc w j" for j
    using assms by (auto simp: fun_eq_iff chan_at_def lookup_queue_in split: chan_ptr.splits)
  then show ?thesis using assms by (auto simp: pollers_ok_def lookup_queue_in)
qed

lemma frame_refl [simp]: "frame c w w"
  by (simp add: frame_def)

lemma frame_trans:
  assumes "frame c w w'" "frame c w' w''"
  shows "frame c w w''"
proof -
  have "\<exists>n. lp_pendingFunctors (lookup_loop w'' i) = lp_pendingFunctors (lookup_loop w i) @ replicate n (WriteComplete c) \<and>
      (i \<noteq> tc_loop (conn w c) \<longrightarrow> n = 0)" for i
  proof -
    obtain n where n: "lp_pendingFunctors (lookup_loop w' i) = lp_pendingFunctors (lookup_loop w i) @ replicate n (WriteComplete c)"
        "i \<noteq> tc_loop (conn w c) \<longrightarrow> n = 0"
      using assms(1) unfolding frame_def by blast
    obtain m where m: "lp_pendingFunctors (lookup_loop w'' i) = lp_pendingFunctors (lookup_loop w' i) @ replicate m (WriteComplete c)"
        "i \<noteq> tc_loop (conn w c) \<longrightarrow> m = 0"
      using assms unfolding frame_def by metis
    show ?thesis using n m by (intro exI [of _ "n + m"]) (simp add: replicate_add)
  qed
  then show ?thesis using assms unfolding frame_def by auto
qed

lemma frame_put_conn:
  assumes "c < length (nt_conns w)" "tc_loop k = tc_loop (conn w c)" "tc_name k = tc_name (conn w c)"
    "nc_fd (tc_channel k) = nc_fd (tc_channel (conn w c))"
  shows "frame c w (put_conn c k w)"
  using assms by (simp add: frame_def)

lemma frame_poller:
  assumes "i < length (nt_loops w)"
  shows "frame c w (put_loop i (lookup_loop w i\<lparr>lp_poller := po\<rparr>) w)"
  using assms by (simp add: frame_def)

lemma conn_asked:
  assumes "conn_in w c"
  shows "conn (asked op c po w) c = conn w c\<lparr>tc_channel := settle op (tc_channel (conn w c))\<rparr>"
  using assms by (simp add: asked_def conn_in_def)

lemma frame_asked:
  assumes "conn_in w c"
  shows "frame c w (asked op c po w)"
proof -
  have b: "tc_loop (conn w c) < length (nt_loops w)" "c < length (nt_conns w)" using assms by (simp_all add: conn_in_def)
  show ?thesis unfolding asked_def
    by (rule frame_trans [OF frame_poller [OF b(1)] frame_put_conn]) (use b in auto)
qed

lemma frame_writeComplete:
  assumes "conn_in w c"
  shows "frame c w (writeComplete me c w)"
proof -
  have l: "tc_loop (conn w c) < length (nt_loops w)" using assms by (simp add: conn_in_def)
  have "\<exists>n. lp_pendingFunctors (lookup_loop (queue_in me (tc_loop (conn w c)) (WriteComplete c) w) i) =
      lp_pendingFunctors (lookup_loop w i) @ replicate n (WriteComplete c) \<and> (i \<noteq> tc_loop (conn w c) \<longrightarrow> n = 0)" for i
    using l by (intro exI [of _ "if i = tc_loop (conn w c) then 1 else 0"]) (simp add: lookup_queue_in)
  then have "frame c w (queue_in me (tc_loop (conn w c)) (WriteComplete c) w)"
    using l by (simp add: frame_def lookup_queue_in)
  then show ?thesis by (simp add: writeComplete_def)
qed

lemma writeComplete_simps [simp]:
  "conn (writeComplete me c w) d = conn w d" "nt_conns (writeComplete me c w) = nt_conns w"
  "length (nt_loops (writeComplete me c w)) = length (nt_loops w)"
  "conn_in w c \<Longrightarrow> pollers_ok acc (writeComplete me c w) = pollers_ok acc w"
  by (simp_all add: writeComplete_def conn_in_def)

lemma frame_conn_in: "frame c w w' \<Longrightarrow> conn_in w c \<Longrightarrow> conn_in w' c"
  by (simp add: frame_def conn_in_def)

section \<open>An established connection\<close>

definition rest_same :: "tcp_conn \<Rightarrow> tcp_conn \<Rightarrow> bool" where
  "rest_same k k' \<longleftrightarrow> tc_state k' = tc_state k \<and> tc_calls k' = tc_calls k \<and> tc_inputBuffer k' = tc_inputBuffer k"

definition stays :: "net_channel option \<Rightarrow> nat \<Rightarrow> 'z net_scheme \<Rightarrow> 'z net_scheme \<Rightarrow> bool" where
  "stays acc c w w' \<longleftrightarrow> frame c w w' \<and> pollers_ok acc w' \<and> conn_in w' c \<and> live (conn w' c)"

lemma stays_refl: "pollers_ok acc w \<Longrightarrow> conn_in w c \<Longrightarrow> live (conn w c) \<Longrightarrow> stays acc c w w"
  by (simp add: stays_def)

lemma stays_trans: "stays acc c w w' \<Longrightarrow> stays acc c w' w'' \<Longrightarrow> stays acc c w w''"
  unfolding stays_def using frame_trans by blast

lemma stays_put_conn:
  assumes "pollers_ok acc w" "conn_in w c" "tc_loop k = tc_loop (conn w c)" "tc_name k = tc_name (conn w c)"
    "nc_fd (tc_channel k) = nc_fd (tc_channel (conn w c))" "nc_index (tc_channel k) = nc_index (tc_channel (conn w c))"
    "nc_events (tc_channel k) = nc_events (tc_channel (conn w c))" "live k"
  shows "stays acc c w (put_conn c k w)"
  using assms pollers_ok_put_conn [of acc w c k] frame_put_conn [of c w k]
  by (auto simp: stays_def conn_in_def)

lemma stays_writeComplete:
  assumes "stays acc c w w'"
  shows "stays acc c w (writeComplete me c w')"
proof -
  have i: "conn_in w' c" "frame c w w'" using assms by (simp_all add: stays_def)
  have "frame c w (writeComplete me c w')" by (rule frame_trans [OF i(2) frame_writeComplete [OF i(1)]])
  then show ?thesis using assms i unfolding stays_def conn_in_def
    by (simp add: writeComplete_simps(4) [unfolded conn_in_def])
qed

text \<open>The tail of \<open>sendInLoop\<close>: what is left is buffered and the channel waits for room.\<close>

lemma buffer_rest:
  assumes kern: "kernel_obeys kern" and ok: "pollers_ok acc w" and c: "conn_in w c" and l: "live (conn w c)"
    and d: "d \<noteq> []"
  shows "\<exists>w'. then_do (append_bytes d (tc_outputBuffer (conn w c))) (\<lambda>b.
        let w = put_conn c (conn w c\<lparr>tc_outputBuffer := b\<rparr>) w
        in if \<not> isWriting (tc_channel (conn w c)) then on_channel (enableWriting kern) c w else Inr w) = Inr w' \<and>
      stays acc c w w' \<and> rest_same (conn w c) (conn w' c) \<and> tc_wire (conn w' c) = tc_wire (conn w c) \<and>
      tc_writeShut (conn w' c) = tc_writeShut (conn w c) \<and>
      contents (tc_outputBuffer (conn w' c)) = contents (tc_outputBuffer (conn w c)) @ d"
proof -
  let ?k = "conn w c"
  have lv: "buffer_ok (tc_outputBuffer ?k)" "nc_events (tc_channel ?k) = live_events ?k" "nc_index (tc_channel ?k) = kAdded"
    using l by (simp_all add: live_def)
  have b: "c < length (nt_conns w)" "tc_loop ?k < length (nt_loops w)" using c by (simp_all add: conn_in_def)
  obtain b' where b': "append_bytes d (tc_outputBuffer ?k) = Inr b'" "buffer_ok b'" "contents b' = contents (tc_outputBuffer ?k) @ d"
    using append_bytes_effect [OF lv(1), of d] by blast
  define k1 where "k1 = ?k\<lparr>tc_outputBuffer := b'\<rparr>"
  define w1 where "w1 = put_conn c k1 w"
  have k1: "conn w1 c = k1" "conn_in w1 c" "tc_channel k1 = tc_channel ?k" using b c by (simp_all add: w1_def k1_def conn_in_def)
  have ok1: "pollers_ok acc w1" unfolding w1_def by (rule pollers_ok_put_conn [OF ok b(1)]) (simp_all add: k1_def)
  have fr1: "frame c w w1" unfolding w1_def by (rule frame_put_conn [OF b(1)]) (simp_all add: k1_def)
  show ?thesis
  proof (cases "contents (tc_outputBuffer ?k) = []")
    case False
    then have "isWriting (tc_channel ?k)" using live_writing [OF lv(2)] by simp
    moreover have "live k1" using l b' False d by (simp add: live_def live_events_def k1_def)
    ultimately show ?thesis
      using b' ok1 fr1 k1 by (intro exI [of _ w1]) (simp add: Let_def stays_def rest_same_def flip: k1_def w1_def, simp add: k1_def)
  next
    case True
    then have nw: "\<not> isWriting (tc_channel ?k)" using live_writing [OF lv(2)] by simp
    have "nc_index (tc_channel (conn w1 c)) \<noteq> kNew" using lv(3) k1 by simp
    then obtain po where po: "on_channel (ask EnableWriting kern) c w1 = Inr (asked EnableWriting c po w1)"
        "pollers_ok acc (asked EnableWriting c po w1)"
      using on_channel_ask [OF kern ok1 k1(2), of EnableWriting] by auto
    let ?w2 = "asked EnableWriting c po w1"
    have fr2: "frame c w1 ?w2" by (rule frame_asked [OF k1(2)])
    have k2: "conn ?w2 c = k1\<lparr>tc_channel := settle EnableWriting (tc_channel k1)\<rparr>"
      using conn_asked [OF k1(2)] k1(1) by simp
    have "live (conn ?w2 c)"
      using l lv b' True d conn_event_bits unfolding k2
      by (simp add: live_def live_events_def k1_def settle_def after_update_def isNoneEvent_def NoneEvent_def)
    then have "stays acc c w ?w2"
      unfolding stays_def using frame_trans [OF fr1 fr2] po(2) frame_conn_in [OF frame_trans [OF fr1 fr2] c] by blast
    moreover have "rest_same ?k (conn ?w2 c)" "tc_wire (conn ?w2 c) = tc_wire ?k" "tc_writeShut (conn ?w2 c) = tc_writeShut ?k"
      "contents (tc_outputBuffer (conn ?w2 c)) = contents (tc_outputBuffer ?k) @ d"
      unfolding k2 using b'(3) by (simp_all add: k1_def rest_same_def)
    moreover have "then_do (append_bytes d (tc_outputBuffer ?k)) (\<lambda>b.
        let w = put_conn c (?k\<lparr>tc_outputBuffer := b\<rparr>) w
        in if \<not> isWriting (tc_channel (conn w c)) then on_channel (enableWriting kern) c w else Inr w) = Inr ?w2"
      using b'(1) nw k1 po(1) by (simp add: Let_def ask_simps flip: k1_def w1_def)
    ultimately show ?thesis by blast
  qed
qed

lemma sendInLoop_live:
  assumes kern: "kernel_obeys kern" and ok: "pollers_ok acc w" and c: "conn_in w c" and l: "live (conn w c)"
    and wr: "write_sane write"
  shows "\<exists>w'. sendInLoop kern write me c data w = Inr w' \<and> stays acc c w w' \<and> rest_same (conn w c) (conn w' c) \<and>
    tc_writeShut (conn w' c) = tc_writeShut (conn w c) \<and>
    (write_unbroken write \<longrightarrow> tc_wire (conn w' c) @ contents (tc_outputBuffer (conn w' c)) =
       tc_wire (conn w c) @ contents (tc_outputBuffer (conn w c)) @ data)"
proof -
  let ?k = "conn w c"
  have lv: "buffer_ok (tc_outputBuffer ?k)" "nc_events (tc_channel ?k) = live_events ?k"
    and up: "tc_state ?k \<noteq> kDisconnected"
    using l by (auto simp: live_def)
  have b: "c < length (nt_conns w)" using c by (simp add: conn_in_def)
  have direct: "\<not> isWriting (tc_channel ?k) \<and> readableBytes (tc_outputBuffer ?k) = 0 \<longleftrightarrow> contents (tc_outputBuffer ?k) = []"
    using live_writing [OF lv(2)] length_contents [OF lv(1)] by auto
  obtain n f w1 where t: "try_write write me c data w = (n, f, w1)" by (cases "try_write write me c data w")
  have tw: "n \<le> length data \<and> stays acc c w w1 \<and> rest_same ?k (conn w1 c) \<and> tc_writeShut (conn w1 c) = tc_writeShut ?k \<and>
      tc_outputBuffer (conn w1 c) = tc_outputBuffer ?k \<and> (write_unbroken write \<longrightarrow> \<not> f) \<and>
      tc_wire (conn w1 c) @ contents (tc_outputBuffer ?k) = tc_wire ?k @ contents (tc_outputBuffer ?k) @ take n data"
  proof (cases "contents (tc_outputBuffer ?k) = []")
    case False
    then show ?thesis using t direct stays_refl [OF ok c l] by (auto simp: try_write_def rest_same_def)
  next
    case True
    show ?thesis
    proof (cases "write data")
      case (Inl e)
      have "write_unbroken write \<longrightarrow> e \<noteq> EPIPE \<and> e \<noteq> ECONNRESET"
        unfolding write_unbroken_def using Inl by (metis (mono_tags, lifting) sum.case(1))
      then show ?thesis using t True direct Inl stays_refl [OF ok c l] by (auto simp: try_write_def rest_same_def)
    next
      case (Inr m)
      have m: "m \<le> length data" using wr Inr unfolding write_sane_def by (metis (mono_tags, lifting) sum.case(2))
      let ?k1 = "?k\<lparr>tc_wire := tc_wire ?k @ take m data\<rparr>"
      have "stays acc c w (put_conn c ?k1 w)"
        by (rule stays_put_conn [OF ok c]) (use l in \<open>auto simp: live_def live_events_def\<close>)
      then show ?thesis
        using t True direct Inr m b stays_writeComplete [of acc c w "put_conn c ?k1 w" me]
        by (auto simp: try_write_def rest_same_def Let_def split: if_splits)
    qed
  qed
  have w1: "stays acc c w w1" "pollers_ok acc w1" "conn_in w1 c" "live (conn w1 c)" using tw by (simp_all add: stays_def)
  show ?thesis
  proof (cases "\<not> f \<and> n < length data")
    case False
    then have "sendInLoop kern write me c data w = Inr w1" using up t by (auto simp: sendInLoop_def)
    moreover have "take n data = data" if "write_unbroken write" using that False tw by auto
    ultimately show ?thesis using tw by auto
  next
    case True
    then obtain w' where w': "then_do (append_bytes (drop n data) (tc_outputBuffer (conn w1 c))) (\<lambda>b.
        let w = put_conn c (conn w1 c\<lparr>tc_outputBuffer := b\<rparr>) w1
        in if \<not> isWriting (tc_channel (conn w c)) then on_channel (enableWriting kern) c w else Inr w) = Inr w'"
      "stays acc c w1 w'" "rest_same (conn w1 c) (conn w' c)" "tc_wire (conn w' c) = tc_wire (conn w1 c)"
      "tc_writeShut (conn w' c) = tc_writeShut (conn w1 c)"
      "contents (tc_outputBuffer (conn w' c)) = contents (tc_outputBuffer (conn w1 c)) @ drop n data"
      using buffer_rest [OF kern w1(2-4), of "drop n data"] by auto
    have s: "sendInLoop kern write me c data w = Inr w'" using up t True w'(1) by (simp add: sendInLoop_def)
    have bytes: "tc_wire (conn w' c) @ contents (tc_outputBuffer (conn w' c)) = tc_wire ?k @ contents (tc_outputBuffer ?k) @ data"
    proof -
      have A: "tc_wire (conn w1 c) @ contents (tc_outputBuffer ?k) = tc_wire ?k @ contents (tc_outputBuffer ?k) @ take n data"
        using tw by blast
      have "tc_wire (conn w' c) @ contents (tc_outputBuffer (conn w' c)) =
          (tc_wire (conn w1 c) @ contents (tc_outputBuffer ?k)) @ drop n data"
        unfolding w'(4,6) append_assoc using tw by simp
      also have "\<dots> = (tc_wire ?k @ contents (tc_outputBuffer ?k) @ take n data) @ drop n data" by (simp only: A)
      finally show ?thesis by simp
    qed
    have st: "stays acc c w w'" by (rule stays_trans [OF w1(1) w'(2)])
    have rs: "rest_same ?k (conn w' c)" "tc_writeShut (conn w' c) = tc_writeShut ?k"
      using w'(3,5) tw by (simp_all add: rest_same_def)
    show ?thesis using s st rs bytes by blast
  qed
qed

lemma handleWrite_live:
  assumes kern: "kernel_obeys kern" and ok: "pollers_ok acc w" and c: "conn_in w c" and l: "live (conn w c)"
    and wr: "write_sane write"
  shows "\<exists>w'. handleWrite kern write me c w = Inr w' \<and> stays acc c w w' \<and> rest_same (conn w c) (conn w' c) \<and>
    tc_writeShut (conn w' c) = (tc_writeShut (conn w c) \<or> tc_state (conn w c) = kDisconnecting \<and>
       contents (tc_outputBuffer (conn w c)) \<noteq> [] \<and> contents (tc_outputBuffer (conn w' c)) = []) \<and>
    tc_wire (conn w' c) @ contents (tc_outputBuffer (conn w' c)) = tc_wire (conn w c) @ contents (tc_outputBuffer (conn w c)) \<and>
    (write (contents (tc_outputBuffer (conn w c))) = Inr (length (contents (tc_outputBuffer (conn w c)))) \<longrightarrow>
       contents (tc_outputBuffer (conn w' c)) = [])"
proof -
  let ?k = "conn w c"
  let ?out = "tc_outputBuffer ?k"
  have lv: "buffer_ok ?out" "nc_events (tc_channel ?k) = live_events ?k" "nc_index (tc_channel ?k) = kAdded"
    using l by (simp_all add: live_def)
  have b: "c < length (nt_conns w)" "tc_loop ?k < length (nt_loops w)" using c by (simp_all add: conn_in_def)
  have writing: "isWriting (tc_channel ?k) \<longleftrightarrow> contents ?out \<noteq> []" by (rule live_writing [OF lv(2)])
  have peek: "peek_bytes (readableBytes ?out) ?out = contents ?out"
    using peek_contents [OF lv(1)] length_contents [OF lv(1)] by simp
  have idle: ?thesis if "handleWrite kern write me c w = Inr w"
      "write (contents ?out) = Inr (length (contents ?out)) \<longrightarrow> contents ?out = []"
    using that stays_refl [OF ok c l] by (auto simp: rest_same_def)
  show ?thesis
  proof (cases "contents ?out \<noteq> [] \<and> (\<exists>m. write (contents ?out) = Inr m \<and> 0 < m)")
    case False
    then show ?thesis by (intro idle) (auto simp: handleWrite_def writing peek Let_def split: sum.splits)
  next
    case True
    then obtain n where n: "write (contents ?out) = Inr n" "0 < n" by blast
    have nle: "n \<le> length (contents ?out)" using wr n unfolding write_sane_def by (metis (mono_tags, lifting) sum.case(2))
    obtain b' where b': "retrieve n ?out = Inr b'" "buffer_ok b'" "contents b' = drop n (contents ?out)"
      using retrieve_bytes [OF lv(1) nle] by blast
    have rd: "readableBytes b' = 0 \<longleftrightarrow> contents b' = []" by (simp flip: length_contents [OF b'(2)])
    define k1 where "k1 = ?k\<lparr>tc_outputBuffer := b', tc_wire := tc_wire ?k @ take n (contents ?out)\<rparr>"
    define w1 where "w1 = put_conn c k1 w"
    have k1: "conn w1 c = k1" "conn_in w1 c" "tc_channel k1 = tc_channel ?k" "tc_loop k1 = tc_loop ?k"
      using b c by (simp_all add: w1_def k1_def conn_in_def)
    have ok1: "pollers_ok acc w1" unfolding w1_def by (rule pollers_ok_put_conn [OF ok b(1)]) (simp_all add: k1_def)
    have fr1: "frame c w w1" unfolding w1_def by (rule frame_put_conn [OF b(1)]) (simp_all add: k1_def)
    show ?thesis
    proof (cases "contents b' = []")
      case False
      have "handleWrite kern write me c w = Inr w1"
        using True n b' rd False by (simp add: handleWrite_def writing peek Let_def k1_def w1_def)
      moreover have "stays acc c w w1"
        unfolding stays_def using fr1 ok1 k1 l lv b' True False
        by (simp add: live_def live_events_def k1_def)
      ultimately show ?thesis using k1(1) b' True False n
        by (intro exI [of _ w1]) (auto simp: rest_same_def k1_def)
    next
      case e: True
      have "nc_index (tc_channel (conn w1 c)) \<noteq> kNew" using lv(3) k1 by simp
      then obtain po where po: "on_channel (ask DisableWriting kern) c w1 = Inr (asked DisableWriting c po w1)"
          "pollers_ok acc (asked DisableWriting c po w1)"
        using on_channel_ask [OF kern ok1 k1(2), of DisableWriting] by auto
      let ?w2 = "asked DisableWriting c po w1"
      have fr2: "frame c w1 ?w2" by (rule frame_asked [OF k1(2)])
      let ?k2 = "k1\<lparr>tc_channel := settle DisableWriting (tc_channel k1)\<rparr>"
      have k2: "conn ?w2 c = ?k2" using conn_asked [OF k1(2)] k1(1) by simp
      have lk2: "live ?k2"
        using l lv b' e True conn_event_bits
        by (simp add: live_def live_events_def k1_def settle_def after_update_def isNoneEvent_def NoneEvent_def)
      have st2: "stays acc c w ?w2"
        unfolding stays_def using frame_trans [OF fr1 fr2] po(2) frame_conn_in [OF frame_trans [OF fr1 fr2] c] k2 lk2 by simp
      let ?w3 = "writeComplete me c ?w2"
      have st3: "stays acc c w ?w3" by (rule stays_writeComplete [OF st2])
      have nw: "\<not> isWriting (tc_channel ?k2)" using lk2 live_writing [of ?k2] e by (simp add: live_def k1_def)
      let ?k3 = "?k2\<lparr>tc_writeShut := True\<rparr>"
      let ?w4 = "if tc_state ?k = kDisconnecting then put_conn c ?k3 ?w3 else ?w3"
      have c3: "conn ?w3 c = ?k2" "conn_in ?w3 c" "pollers_ok acc ?w3" using st3 k2 by (simp_all add: stays_def)
      have "stays acc c ?w3 (put_conn c ?k3 ?w3)"
        by (rule stays_put_conn [OF c3(3,2)]) (use c3(1) lk2 in \<open>simp_all add: live_def live_events_def\<close>)
      then have st4: "stays acc c w ?w4" using st3 stays_trans by auto
      have k4: "conn ?w4 c = (if tc_state ?k = kDisconnecting then ?k3 else ?k2)"
        using c3 by (simp add: conn_in_def)
      have st: "tc_state k1 = tc_state ?k" by (simp add: k1_def)
      have r0: "readableBytes b' = 0" using rd e by simp
      have "handleWrite kern write me c w = then_do (on_channel (disableWriting kern) c w1) (\<lambda>w.
          let w = writeComplete me c w
          in Inr (if tc_state (conn w c) = kDisconnecting then shutdownInLoop c w else w))"
        using True n b'(1) r0 unfolding w1_def k1_def by (simp add: handleWrite_def writing peek)
      then have hw: "handleWrite kern write me c w = Inr ?w4"
        using po(1) c3(1) nw st by (simp add: ask_simps shutdownInLoop_def)
      have fin: "rest_same ?k (conn ?w4 c)" "contents (tc_outputBuffer (conn ?w4 c)) = []"
        "tc_wire (conn ?w4 c) = tc_wire ?k @ contents ?out"
        "tc_writeShut (conn ?w4 c) = (tc_writeShut ?k \<or> tc_state ?k = kDisconnecting)"
        unfolding k4 using e b'(3) by (auto simp: k1_def rest_same_def)
      show ?thesis
        by (intro exI [of _ ?w4] conjI hw st4) (use fin True in auto)
    qed
  qed
qed


lemma shutdown_live:
  assumes ok: "pollers_ok acc w" and c: "conn_in w c" and l: "live (conn w c)"
  shows "let w' = shutdown (Some (tc_loop (conn w c))) c w
    in stays acc c w w' \<and> tc_state (conn w' c) = kDisconnecting \<and> tc_calls (conn w' c) = tc_calls (conn w c) \<and>
      tc_inputBuffer (conn w' c) = tc_inputBuffer (conn w c) \<and> tc_outputBuffer (conn w' c) = tc_outputBuffer (conn w c) \<and>
      tc_wire (conn w' c) = tc_wire (conn w c) \<and>
      tc_writeShut (conn w' c) = (tc_writeShut (conn w c) \<or>
        tc_state (conn w c) = kConnected \<and> contents (tc_outputBuffer (conn w c)) = [])"
proof (cases "tc_state (conn w c) = kConnected")
  case False
  then show ?thesis using l stays_refl [OF ok c l] by (auto simp: shutdown_def live_def Let_def)
next
  case True
  let ?k = "conn w c"
  let ?k1 = "?k\<lparr>tc_state := kDisconnecting\<rparr>"
  let ?k2 = "if contents (tc_outputBuffer ?k) = [] then ?k1\<lparr>tc_writeShut := True\<rparr> else ?k1"
  have b: "c < length (nt_conns w)" using c by (simp add: conn_in_def)
  have wr: "isWriting (tc_channel ?k) \<longleftrightarrow> contents (tc_outputBuffer ?k) \<noteq> []"
    by (rule live_writing) (use l in \<open>simp add: live_def\<close>)
  have eq: "shutdown (Some (tc_loop ?k)) c w = put_conn c ?k2 w"
    using True b wr by (simp add: shutdown_def setState_def shutdownInLoop_def Let_def)
  have "stays acc c w (put_conn c ?k2 w)"
    by (rule stays_put_conn [OF ok c]) (use l in \<open>auto simp: live_def live_events_def\<close>)
  then show ?thesis unfolding eq Let_def using b True by simp
qed

lemma handleRead_data:
  assumes ok: "pollers_ok acc w" and c: "conn_in w c" and l: "live (conn w c)"
    and d: "data \<noteq> []" "length data \<le> extrabuf_size"
  shows "\<exists>w'. handleRead kern retrieveAllAsString (kernel_readv data) closeCallback c w = Inr w' \<and> stays acc c w w' \<and>
    (\<exists>b. buffer_ok b \<and> contents b = [] \<and> conn w' c = conn w c\<lparr>tc_inputBuffer := b,
       tc_calls := tc_calls (conn w c) @ [MessageCallback (contents (tc_inputBuffer (conn w c)) @ data)]\<rparr>)"
proof -
  let ?k = "conn w c"
  have bc: "c < length (nt_conns w)" using c by (simp add: conn_in_def)
  have ib: "buffer_ok (tc_inputBuffer ?k)" using l by (simp add: live_def)
  have room: "length data \<le> read_room (tc_inputBuffer ?k)" using d(2) by (auto simp: read_room_def)
  obtain b1 where b1: "readFd (kernel_readv data) (tc_inputBuffer ?k) = Inr (int (length data), None, b1)" "buffer_ok b1"
      "contents b1 = contents (tc_inputBuffer ?k) @ data"
    using readFd_bytes [OF ib, of "kernel_readv data" data] room by (auto simp: kernel_readv_def min_def)
  obtain b2 where b2: "retrieveAllAsString b1 = Inr (contents b1, b2)" "buffer_ok b2" "contents b2 = []"
    using retrieveAsString_bytes(1) [OF b1(2), of "length (contents b1)"] length_contents [OF b1(2)]
    by (auto simp: retrieveAllAsString_def)
  let ?k2 = "?k\<lparr>tc_inputBuffer := b2, tc_calls := tc_calls ?k @ [MessageCallback (contents (tc_inputBuffer ?k) @ data)]\<rparr>"
  have "handleRead kern retrieveAllAsString (kernel_readv data) closeCallback c w = Inr (put_conn c ?k2 w)"
    using b1 b2 d bc by (simp add: handleRead_def Let_def add_call_def)
  moreover have "stays acc c w (put_conn c ?k2 w)"
    by (rule stays_put_conn [OF ok c]) (use l b2 in \<open>auto simp: live_def live_events_def\<close>)
  ultimately show ?thesis using bc b2 by (intro exI [of _ "put_conn c ?k2 w"]) auto
qed

lemma send_live:
  assumes kern: "kernel_obeys kern" and ok: "pollers_ok acc w" and c: "conn_in w c" and l: "live (conn w c)"
    and wr: "write_unbroken write"
  shows "\<exists>w'. stream_step kern closeCallback c (Send data write) w = Inr w' \<and> stays acc c w w' \<and>
    rest_same (conn w c) (conn w' c) \<and> tc_writeShut (conn w' c) = tc_writeShut (conn w c) \<and>
    tc_wire (conn w' c) @ contents (tc_outputBuffer (conn w' c)) =
      tc_wire (conn w c) @ contents (tc_outputBuffer (conn w c)) @
        (if tc_state (conn w c) = kConnected then data else [])"
proof -
  have sane: "write_sane write" using wr unfolding write_unbroken_def write_sane_def by (auto split: sum.splits)
  obtain buf where buf: "append_bytes data (new_Buffer kInitialSize) = Inr buf" "buffer_ok buf" "contents buf = data"
    using append_bytes_effect [OF new_Buffer_ok(1), of data] new_Buffer_ok(2) by auto
  have pk: "peek_bytes (readableBytes buf) buf = data"
    using peek_contents [OF buf(2)] length_contents [OF buf(2)] buf(3) by simp
  show ?thesis
  proof (cases "tc_state (conn w c) = kConnected")
    case True
    obtain w' where w': "sendInLoop kern write (Some (tc_loop (conn w c))) c data w = Inr w'" "stays acc c w w'"
        "rest_same (conn w c) (conn w' c)" "tc_writeShut (conn w' c) = tc_writeShut (conn w c)"
        "tc_wire (conn w' c) @ contents (tc_outputBuffer (conn w' c)) = tc_wire (conn w c) @ contents (tc_outputBuffer (conn w c)) @ data"
      using sendInLoop_live [OF kern ok c l sane, of "Some (tc_loop (conn w c))" data] wr by blast
    have "stream_step kern closeCallback c (Send data write) w = Inr w'"
      using True buf pk w'(1) by (simp add: send_def)
    then show ?thesis using w' True by auto
  next
    case False
    then show ?thesis using buf stays_refl [OF ok c l] by (simp add: send_def rest_same_def)
  qed
qed

text \<open>The state of the stream between two steps.\<close>

definition stream_ok :: "net_channel option \<Rightarrow> nat \<Rightarrow> 'z net_scheme \<Rightarrow> bool" where
  "stream_ok acc c w \<longleftrightarrow> pollers_ok acc w \<and> conn_in w c \<and> live (conn w c) \<and> contents (tc_inputBuffer (conn w c)) = [] \<and>
     (tc_writeShut (conn w c) \<longleftrightarrow> tc_state (conn w c) = kDisconnecting \<and> contents (tc_outputBuffer (conn w c)) = [])"

lemma write_unbroken_sane: "write_unbroken write \<Longrightarrow> write_sane write"
  unfolding write_unbroken_def write_sane_def by (auto split: sum.splits)

lemma stream_step_ok:
  assumes kern: "kernel_obeys kern" and ok: "stream_ok acc c w" and u: "unbroken op"
  shows "\<exists>w'. stream_step kern closeCallback c op w = Inr w' \<and> stream_ok acc c w' \<and> frame c w w' \<and>
    (tc_state (conn w' c) = kConnected \<longleftrightarrow> tc_state (conn w c) = kConnected \<and> op \<noteq> Shutdown) \<and>
    tc_wire (conn w' c) @ contents (tc_outputBuffer (conn w' c)) =
      tc_wire (conn w c) @ contents (tc_outputBuffer (conn w c)) @
        (if tc_state (conn w c) = kConnected then sent_before_shutdown [op] else []) \<and>
    tc_calls (conn w' c) = tc_calls (conn w c) @ received [op]"
proof -
  have s: "pollers_ok acc w" "conn_in w c" "live (conn w c)" and inp: "contents (tc_inputBuffer (conn w c)) = []"
    and shut: "tc_writeShut (conn w c) \<longleftrightarrow> tc_state (conn w c) = kDisconnecting \<and> contents (tc_outputBuffer (conn w c)) = []"
    using ok by (simp_all add: stream_ok_def)
  have ud: "tc_state (conn w c) = kConnected \<or> tc_state (conn w c) = kDisconnecting" using s(3) by (simp add: live_def)
  show ?thesis
  proof (cases op)
    case (Send data wr)
    obtain w' where w': "stream_step kern closeCallback c (Send data wr) w = Inr w'" "stays acc c w w'"
        "rest_same (conn w c) (conn w' c)" "tc_writeShut (conn w' c) = tc_writeShut (conn w c)"
        "tc_wire (conn w' c) @ contents (tc_outputBuffer (conn w' c)) =
          tc_wire (conn w c) @ contents (tc_outputBuffer (conn w c)) @ (if tc_state (conn w c) = kConnected then data else [])"
      using send_live [OF kern s, of wr closeCallback data] u Send by auto
    have "contents (tc_outputBuffer (conn w' c)) = contents (tc_outputBuffer (conn w c)) \<or> tc_state (conn w c) = kConnected"
    proof (rule disjCI)
      assume "tc_state (conn w c) \<noteq> kConnected"
      then have "w' = w" using w'(1) by (auto simp: send_def then_do_def split: sum.splits)
      then show "contents (tc_outputBuffer (conn w' c)) = contents (tc_outputBuffer (conn w c))" by simp
    qed
    then have so: "stream_ok acc c w'" using w' inp shut by (auto simp: stream_ok_def stays_def rest_same_def)
    show ?thesis
      by (rule exI [of _ w'], intro conjI) (use w' so Send in \<open>auto simp: stays_def rest_same_def\<close>)
  next
    case (Writable wr)
    then obtain w' where w': "handleWrite kern wr (Some (tc_loop (conn w c))) c w = Inr w'" "stays acc c w w'"
        "rest_same (conn w c) (conn w' c)"
        "tc_writeShut (conn w' c) = (tc_writeShut (conn w c) \<or> tc_state (conn w c) = kDisconnecting \<and>
          contents (tc_outputBuffer (conn w c)) \<noteq> [] \<and> contents (tc_outputBuffer (conn w' c)) = [])"
        "tc_wire (conn w' c) @ contents (tc_outputBuffer (conn w' c)) = tc_wire (conn w c) @ contents (tc_outputBuffer (conn w c))"
      using handleWrite_live [OF kern s write_unbroken_sane, of wr "Some (tc_loop (conn w c))"] u by auto
    have "contents (tc_outputBuffer (conn w' c)) = []" if "contents (tc_outputBuffer (conn w c)) = []"
    proof -
      have "\<not> isWriting (tc_channel (conn w c))" using that live_writing s(3) by (auto simp: live_def)
      then have "w' = w" using w'(1) by (simp add: handleWrite_def)
      then show ?thesis using that by simp
    qed
    then have so: "stream_ok acc c w'" using w' inp shut by (auto simp: stream_ok_def stays_def rest_same_def)
    show ?thesis
      by (rule exI [of _ w'], intro conjI) (use w' so Writable in \<open>auto simp: stays_def rest_same_def\<close>)
  next
    case Shutdown
    define w' where "w' = shutdown (Some (tc_loop (conn w c))) c w"
    have w': "stays acc c w w'" "tc_state (conn w' c) = kDisconnecting" "tc_calls (conn w' c) = tc_calls (conn w c)"
      "tc_inputBuffer (conn w' c) = tc_inputBuffer (conn w c)" "tc_outputBuffer (conn w' c) = tc_outputBuffer (conn w c)"
      "tc_wire (conn w' c) = tc_wire (conn w c)" "tc_writeShut (conn w' c) = (tc_writeShut (conn w c) \<or>
        tc_state (conn w c) = kConnected \<and> contents (tc_outputBuffer (conn w c)) = [])"
      using shutdown_live [OF s] by (simp_all add: Let_def w'_def)
    have so: "stream_ok acc c w'" using w' inp shut ud by (auto simp: stream_ok_def stays_def)
    have st: "stream_step kern closeCallback c op w = Inr w'" by (simp add: Shutdown w'_def)
    show ?thesis
      by (rule exI [of _ w'], intro conjI st) (use w' so Shutdown in \<open>auto simp: stays_def\<close>)
  next
    case (Receive data)
    then obtain w' b where w': "handleRead kern retrieveAllAsString (kernel_readv data) closeCallback c w = Inr w'" "stays acc c w w'"
        "contents b = []" "conn w' c = conn w c\<lparr>tc_inputBuffer := b,
          tc_calls := tc_calls (conn w c) @ [MessageCallback (contents (tc_inputBuffer (conn w c)) @ data)]\<rparr>"
      using handleRead_data [OF s, of data kern closeCallback] u by auto
    have so: "stream_ok acc c w'" using w' inp shut by (auto simp: stream_ok_def stays_def)
    show ?thesis
      by (rule exI [of _ w'], intro conjI) (use w' so Receive inp in \<open>auto simp: stays_def\<close>)
  qed
qed

lemma stream_run_ok:
  assumes kern: "kernel_obeys kern" and "stream_ok acc c w" and "\<forall>op \<in> set ops. unbroken op"
  shows "\<exists>w'. stream_run kern closeCallback c ops w = Inr w' \<and> stream_ok acc c w' \<and> frame c w w' \<and>
    (tc_state (conn w' c) = kConnected \<longleftrightarrow> tc_state (conn w c) = kConnected \<and> Shutdown \<notin> set ops) \<and>
    tc_wire (conn w' c) @ contents (tc_outputBuffer (conn w' c)) =
      tc_wire (conn w c) @ contents (tc_outputBuffer (conn w c)) @
        (if tc_state (conn w c) = kConnected then sent_before_shutdown ops else []) \<and>
    tc_calls (conn w' c) = tc_calls (conn w c) @ received ops"
  using assms(2,3)
proof (induction ops arbitrary: w)
  case Nil
  then show ?case by simp
next
  case (Cons op ops)
  obtain w1 where w1: "stream_step kern closeCallback c op w = Inr w1" "stream_ok acc c w1" "frame c w w1"
      "tc_state (conn w1 c) = kConnected \<longleftrightarrow> tc_state (conn w c) = kConnected \<and> op \<noteq> Shutdown"
      "tc_wire (conn w1 c) @ contents (tc_outputBuffer (conn w1 c)) =
        tc_wire (conn w c) @ contents (tc_outputBuffer (conn w c)) @
          (if tc_state (conn w c) = kConnected then sent_before_shutdown [op] else [])"
      "tc_calls (conn w1 c) = tc_calls (conn w c) @ received [op]"
    using stream_step_ok [OF kern Cons.prems(1), of op closeCallback] Cons.prems(2) by auto
  obtain w2 where w2: "stream_run kern closeCallback c ops w1 = Inr w2" "stream_ok acc c w2" "frame c w1 w2"
      "tc_state (conn w2 c) = kConnected \<longleftrightarrow> tc_state (conn w1 c) = kConnected \<and> Shutdown \<notin> set ops"
      "tc_wire (conn w2 c) @ contents (tc_outputBuffer (conn w2 c)) =
        tc_wire (conn w1 c) @ contents (tc_outputBuffer (conn w1 c)) @
          (if tc_state (conn w1 c) = kConnected then sent_before_shutdown ops else [])"
      "tc_calls (conn w2 c) = tc_calls (conn w1 c) @ received ops"
    using Cons.IH [OF w1(2)] Cons.prems(2) by auto
  have "tc_wire (conn w2 c) @ contents (tc_outputBuffer (conn w2 c)) =
      (tc_wire (conn w1 c) @ contents (tc_outputBuffer (conn w1 c))) @
        (if tc_state (conn w1 c) = kConnected then sent_before_shutdown ops else [])"
    using w2(5) by simp
  then have bytes: "tc_wire (conn w2 c) @ contents (tc_outputBuffer (conn w2 c)) =
      tc_wire (conn w c) @ contents (tc_outputBuffer (conn w c)) @
        (if tc_state (conn w c) = kConnected then sent_before_shutdown (op # ops) else [])"
    unfolding w1(5) by (cases op) (simp_all add: w1(4))
  have calls: "tc_calls (conn w2 c) = tc_calls (conn w c) @ received (op # ops)"
    using w1(6) w2(6) by (cases op) simp_all
  show ?case
    by (rule exI [of _ w2], intro conjI bytes calls)
      (use w1 w2 frame_trans [OF w1(3) w2(3)] in auto)
qed

lemma stream_run_snoc:
  "stream_run kern closeCallback c (ops @ [op]) w =
     then_do (stream_run kern closeCallback c ops w) (stream_step kern closeCallback c op)"
proof (induction ops arbitrary: w)
  case Nil
  show ?case by (cases "stream_step kern closeCallback c op w") simp_all
next
  case (Cons op' ops)
  show ?case by (cases "stream_step kern closeCallback c op' w") (simp_all add: Cons.IH)
qed

text \<open>
  C10. A connection delivers the bytes it is given. Take an established connection and any sequence of
  sends, write events, reads and a shutdown in its loop, where the kernel takes any part of what it is
  offered (or refuses for now) and does not find the connection broken. Every operation succeeds. What
  the kernel has taken followed by what is buffered is what it had before, followed by all bytes sent
  before the shutdown, in order: no byte is lost, doubled or overtaken. Every chunk that arrives is handed
  to the message callback once, in order. The write side is shut down exactly when a shutdown was asked
  for and all bytes have been handed over. The kernel watches the socket for input, and for room to
  write exactly while bytes are waiting; once it takes all that is offered, nothing is left.\<close>
theorem connection_streams_bytes:
  assumes "kernel_obeys kern" "stream_ok acc c w" "tc_state (conn w c) = kConnected" "\<forall>op \<in> set ops. unbroken op"
  shows "\<exists>w'. stream_run kern closeCallback c ops w = Inr w' \<and>
    tc_wire (conn w' c) @ contents (tc_outputBuffer (conn w' c)) =
      tc_wire (conn w c) @ contents (tc_outputBuffer (conn w c)) @ sent_before_shutdown ops \<and>
    tc_calls (conn w' c) = tc_calls (conn w c) @ received ops \<and>
    (tc_writeShut (conn w' c) \<longleftrightarrow> Shutdown \<in> set ops \<and> contents (tc_outputBuffer (conn w' c)) = []) \<and>
    interest (po_ctl (lp_poller (lookup_loop w' (tc_loop (conn w c))))) (nc_fd (tc_channel (conn w c))) =
      Some (live_events (conn w' c), ConnChannel c) \<and>
    (\<exists>w''. stream_run kern closeCallback c (ops @ [Writable (\<lambda>data. Inr (length data))]) w = Inr w'' \<and>
       contents (tc_outputBuffer (conn w'' c)) = [] \<and>
       tc_wire (conn w'' c) = tc_wire (conn w c) @ contents (tc_outputBuffer (conn w c)) @ sent_before_shutdown ops)"
proof -
  obtain w' where w': "stream_run kern closeCallback c ops w = Inr w'" "stream_ok acc c w'" "frame c w w'"
      "tc_state (conn w' c) = kConnected \<longleftrightarrow> Shutdown \<notin> set ops"
      "tc_wire (conn w' c) @ contents (tc_outputBuffer (conn w' c)) =
        tc_wire (conn w c) @ contents (tc_outputBuffer (conn w c)) @ sent_before_shutdown ops"
      "tc_calls (conn w' c) = tc_calls (conn w c) @ received ops"
    using stream_run_ok [OF assms(1,2,4), of closeCallback] assms(3) by auto
  have s: "pollers_ok acc w'" "conn_in w' c" "live (conn w' c)" using w'(2) by (simp_all add: stream_ok_def)
  have shut: "tc_writeShut (conn w' c) \<longleftrightarrow> Shutdown \<in> set ops \<and> contents (tc_outputBuffer (conn w' c)) = []"
    using w'(2,4) s(3) by (auto simp: stream_ok_def live_def)
  have same: "tc_loop (conn w' c) = tc_loop (conn w c)" "nc_fd (tc_channel (conn w' c)) = nc_fd (tc_channel (conn w c))"
    using w'(3) by (simp_all add: frame_def)
  have ch: "chan_at acc w' (tc_loop (conn w c)) (ConnChannel c) = Some (tc_channel (conn w' c))"
    and i: "tc_loop (conn w c) < length (nt_loops w')"
    using s(2) same(1) chan_at_conn [of c w' acc] by (simp_all add: conn_in_def)
  have "poller_ok (chan_at acc w' (tc_loop (conn w c))) (lp_poller (lookup_loop w' (tc_loop (conn w c))))"
    using s(1) i unfolding pollers_ok_def by blast
  from poller_okD(2) [OF this, of "nc_fd (tc_channel (conn w c))" "live_events (conn w' c)" "ConnChannel c"]
  have int: "interest (po_ctl (lp_poller (lookup_loop w' (tc_loop (conn w c))))) (nc_fd (tc_channel (conn w c))) =
      Some (live_events (conn w' c), ConnChannel c)"
    using ch same(2) s(3) by (simp add: live_def)
  have sane: "write_sane (\<lambda>data. Inr (length data))" by (simp add: write_sane_def)
  obtain w'' where w'': "handleWrite kern (\<lambda>data. Inr (length data)) (Some (tc_loop (conn w' c))) c w' = Inr w''"
      "contents (tc_outputBuffer (conn w'' c)) = []"
      "tc_wire (conn w'' c) @ contents (tc_outputBuffer (conn w'' c)) = tc_wire (conn w' c) @ contents (tc_outputBuffer (conn w' c))"
    using handleWrite_live [OF assms(1) s sane, of "Some (tc_loop (conn w' c))"] by auto
  have run: "stream_run kern closeCallback c (ops @ [Writable (\<lambda>data. Inr (length data))]) w = Inr w''"
    using w'(1) w''(1) by (simp add: stream_run_snoc)
  have "tc_wire (conn w'' c) = tc_wire (conn w c) @ contents (tc_outputBuffer (conn w c)) @ sent_before_shutdown ops"
    using w''(2,3) w'(5) by simp
  then show ?thesis using w'(1,5,6) shut int run w''(2) by blast
qed

section \<open>Opening a connection\<close>

lemma new_loop_poller_ok:
  assumes kern: "kernel_obeys kern" and l: "new_EventLoop kern wp wfd = Inr l"
    and w: "chan wp = Some (lp_wakeupChannel l)" and new: "\<And>p ch. p \<noteq> wp \<Longrightarrow> chan p = Some ch \<Longrightarrow> nc_index ch = kNew"
  shows "poller_ok chan (lp_poller l)" "nc_fd (lp_wakeupChannel l) = wfd" "nc_index (lp_wakeupChannel l) = kAdded"
    "nc_events (lp_wakeupChannel l) = ReadEvent"
    "lp_pendingFunctors l = []" "lp_functors l = []" "\<not> lp_eventHandling l" "\<not> lp_callingPendingFunctors l"
proof -
  let ?chan = "chan(wp \<mapsto> new_Channel wfd)"
  let ?ch = "new_Channel wfd\<lparr>nc_events := ReadEvent, nc_addedToLoop := True\<rparr>"
  have "poller_ok ?chan new_Poller" by (rule new_poller_ok) (use new in \<open>auto split: if_splits\<close>)
  then obtain po' where po': "updateChannel kern wp ?ch new_Poller = Inr (after_update ?ch, po')"
      "poller_ok (?chan(wp \<mapsto> after_update ?ch)) po'"
    using updateChannel_ok [OF kern, of ?chan new_Poller wp "new_Channel wfd" ?ch] by (auto simp: new_Poller_def)
  have f: "lp_wakeupChannel l = after_update ?ch" "lp_poller l = po'"
    "\<not> lp_eventHandling l" "lp_pendingFunctors l = []" "lp_functors l = []" "\<not> lp_callingPendingFunctors l"
    using l po'(1) by (auto simp: new_EventLoop_def enableReading_def channel_update_def)
  have "?chan(wp \<mapsto> after_update ?ch) = chan" using w f(1) by (auto simp: fun_eq_iff)
  then show "poller_ok chan (lp_poller l)" using po'(2) f(2) by simp
  show "nc_fd (lp_wakeupChannel l) = wfd" "nc_index (lp_wakeupChannel l) = kAdded" "nc_events (lp_wakeupChannel l) = ReadEvent"
    using f(1) by (simp_all add: after_update_def)
  show "lp_pendingFunctors l = []" "lp_functors l = []" "\<not> lp_eventHandling l" "\<not> lp_callingPendingFunctors l"
    using f by simp_all
qed

definition fresh :: "tcp_conn \<Rightarrow> bool" where
  "fresh k \<longleftrightarrow> tc_state k = kConnecting \<and> nc_index (tc_channel k) = kNew \<and> nc_events (tc_channel k) = 0 \<and>
     buffer_ok (tc_inputBuffer k) \<and> buffer_ok (tc_outputBuffer k) \<and> contents (tc_inputBuffer k) = [] \<and>
     contents (tc_outputBuffer k) = [] \<and> tc_calls k = []"

lemma connectEstablished_fresh:
  assumes kern: "kernel_obeys kern" and ok: "pollers_ok acc w" and c: "conn_in w c" and f: "fresh (conn w c)"
    and new: "map_of (po_channels (lp_poller (lookup_loop w (tc_loop (conn w c))))) (nc_fd (tc_channel (conn w c))) = None"
  shows "\<exists>w'. connectEstablished kern c w = Inr w' \<and> stays acc c w w' \<and>
    conn w' c = conn w c\<lparr>tc_state := kConnected, tc_channel := settle EnableReading (tc_channel (conn w c)),
      tc_calls := [ConnectionCallback True]\<rparr>"
proof -
  let ?k = "conn w c"
  define w1 where "w1 = setState kConnected c w"
  have b: "c < length (nt_conns w)" "tc_loop ?k < length (nt_loops w)" using c by (simp_all add: conn_in_def)
  have k1: "conn w1 c = ?k\<lparr>tc_state := kConnected\<rparr>" "conn_in w1 c" "lookup_loop w1 i = lookup_loop w i" for i
    using b by (simp_all add: w1_def setState_def conn_in_def)
  have ok1: "pollers_ok acc w1" unfolding w1_def setState_def by (rule pollers_ok_put_conn [OF ok b(1)]) simp_all
  have fr1: "frame c w w1" unfolding w1_def setState_def by (rule frame_put_conn [OF b(1)]) simp_all
  obtain po where po: "on_channel (ask EnableReading kern) c w1 = Inr (asked EnableReading c po w1)"
      "pollers_ok acc (asked EnableReading c po w1)"
    using on_channel_ask [OF kern ok1 k1(2), of EnableReading] new k1(1,3) by auto
  let ?w2 = "asked EnableReading c po w1"
  have fr2: "frame c w ?w2" by (rule frame_trans [OF fr1 frame_asked [OF k1(2)]])
  have c2: "conn_in ?w2 c" by (rule frame_conn_in [OF fr2 c])
  have k2: "conn ?w2 c = ?k\<lparr>tc_state := kConnected, tc_channel := settle EnableReading (tc_channel ?k)\<rparr>"
    using conn_asked [OF k1(2)] k1(1) by simp
  let ?k3 = "conn ?w2 c\<lparr>tc_calls := tc_calls (conn ?w2 c) @ [ConnectionCallback True]\<rparr>"
  have eq: "connectEstablished kern c w = Inr (put_conn c ?k3 ?w2)"
    using f po(1) k2 by (simp add: connectEstablished_def cpp_assert_def fresh_def w1_def ask_simps connectionCallback_def
        add_call_def)
  have "live ?k3"
    using f unfolding k2
    by (simp add: fresh_def live_def live_events_def settle_def after_update_def)
  then have "stays acc c ?w2 (put_conn c ?k3 ?w2)" using stays_put_conn [OF po(2) c2, of ?k3] by simp
  then have "stays acc c w (put_conn c ?k3 ?w2)" using frame_trans [OF fr2] unfolding stays_def by blast
  moreover have "conn (put_conn c ?k3 ?w2) c = ?k3" using c2 by (simp add: conn_in_def)
  ultimately show ?thesis using eq f k2 by (intro exI [of _ "put_conn c ?k3 ?w2"]) (simp add: fresh_def)
qed

lemma fresh_new: "fresh (new_TcpConnection i name fd wc)"
  by (simp add: fresh_def new_TcpConnection_def new_Buffer_ok)

definition idle_net :: "net_loop \<Rightarrow> net" where
  "idle_net l = \<lparr>nt_loops = [l], nt_conns = [new_TcpConnection 0 ''c'' 5 False]\<rparr>"

lemma idle_net_established:
  assumes "new_EventLoop obliging_kernel WakeupChannel 3 = Inr l"
  shows "\<exists>w. connectEstablished obliging_kernel 0 (idle_net l) = Inr w \<and> stream_ok None 0 w \<and>
    tc_state (conn w 0) = kConnected \<and> tc_wire (conn w 0) = [] \<and> contents (tc_outputBuffer (conn w 0)) = [] \<and>
    tc_calls (conn w 0) = [ConnectionCallback True]"
proof -
  let ?w = "idle_net l"
  have k: "conn ?w 0 = new_TcpConnection 0 ''c'' 5 False" "lookup_loop ?w 0 = l" "conn_in ?w 0"
    by (simp_all add: idle_net_def conn_def lookup_loop_def conn_in_def new_TcpConnection_def)
  have ch: "nc_index ch = kNew" if "p \<noteq> WakeupChannel" "chan_at None ?w 0 p = Some ch" for p ch
    using that k(1,2) by (auto simp: chan_at_def idle_net_def new_TcpConnection_def split: chan_ptr.splits if_splits)
  have wk: "chan_at None ?w 0 WakeupChannel = Some (lp_wakeupChannel l)" using k(2) by (simp add: chan_at_def)
  have n: "poller_ok (chan_at None ?w 0) (lp_poller l)"
    by (rule new_loop_poller_ok(1) [where chan = "chan_at None ?w 0", OF obliging_kernel_obeys assms wk]) (rule ch)
  have fd: "nc_fd (lp_wakeupChannel l) = 3"
    by (rule new_loop_poller_ok(2) [where chan = "chan_at None ?w 0", OF obliging_kernel_obeys assms wk]) (rule ch)
  have ok: "pollers_ok None ?w" using n k(2) by (simp add: pollers_ok_def idle_net_def)
  have "\<not> (\<exists>p. map_of (po_channels (lp_poller l)) 5 = Some p)"
  proof
    assume "\<exists>p. map_of (po_channels (lp_poller l)) 5 = Some p"
    then obtain p cha where "chan_at None ?w 0 p = Some cha" "nc_fd cha = 5" "nc_index cha \<noteq> kNew"
      using poller_okD(1) [OF n] by blast
    then show False using ch [of p cha] wk fd by (cases "p = WakeupChannel") auto
  qed
  then have new: "map_of (po_channels (lp_poller (lookup_loop ?w (tc_loop (conn ?w 0))))) (nc_fd (tc_channel (conn ?w 0))) = None"
    using k by (simp add: new_TcpConnection_def)
  have fr: "fresh (conn ?w 0)" using k(1) fresh_new by simp
  obtain w where w: "connectEstablished obliging_kernel 0 ?w = Inr w" "stays None 0 ?w w"
      "conn w 0 = conn ?w 0\<lparr>tc_state := kConnected, tc_channel := settle EnableReading (tc_channel (conn ?w 0)),
        tc_calls := [ConnectionCallback True]\<rparr>"
    using connectEstablished_fresh [OF obliging_kernel_obeys ok k(3) fr new] by blast
  then have "stream_ok None 0 w" using k(1) by (simp add: stays_def stream_ok_def new_TcpConnection_def new_Buffer_ok)
  then show ?thesis using w k(1) by (simp add: new_TcpConnection_def new_Buffer_ok)
qed

theorem connection_streams_bytes_witness:
  "\<exists>(w :: net) w'. stream_run obliging_kernel (\<lambda>_ w. Inr w) 0
      [Send ''hello'' (\<lambda>data. Inr (min 2 (length data))), Receive ''x'', Shutdown, Send ''lost'' (\<lambda>data. Inr 0)] w = Inr w' \<and>
    tc_wire (conn w' 0) @ contents (tc_outputBuffer (conn w' 0)) = ''hello'' \<and>
    tc_calls (conn w' 0) = [ConnectionCallback True, MessageCallback ''x'']"
proof -
  obtain l :: net_loop where l: "new_EventLoop obliging_kernel WakeupChannel 3 = Inr l"
    by (rule exE [OF new_loop_exists [OF obliging_kernel_obeys]])
  obtain w :: net where w: "stream_ok None 0 w" "tc_state (conn w 0) = kConnected" "tc_wire (conn w 0) = []"
      "contents (tc_outputBuffer (conn w 0)) = []" "tc_calls (conn w 0) = [ConnectionCallback True]"
    using idle_net_established [OF l] by blast
  let ?ops = "[Send ''hello'' (\<lambda>data. Inr (min 2 (length data))), Receive ''x'', Shutdown, Send ''lost'' (\<lambda>data. Inr 0)]"
  have u: "\<forall>op \<in> set ?ops. unbroken op" by (simp add: write_unbroken_def extrabuf_size_def)
  show ?thesis
    using connection_streams_bytes [OF obliging_kernel_obeys w(1,2) u, of "\<lambda>_ w. Inr w"] w(3-5) by auto
qed

section \<open>Weak spots\<close>

text \<open>The timer of \<open>forceCloseWithDelay\<close> is commented out: nothing is queued that would close the connection.\<close>

lemma delayed_close_never_closes:
  assumes "live (conn w c)" "c < length (nt_conns w)"
  shows "nt_loops (forceCloseWithDelay c w) = nt_loops w"
    "conn (forceCloseWithDelay c w) c = conn w c\<lparr>tc_state := kDisconnecting\<rparr>"
  using assms by (auto simp: forceCloseWithDelay_def setState_def live_def)

text \<open>\<open>connectDestroyed\<close> of a connection that is shutting down leaves the channel enabled, and removing an
  enabled channel is an assertion failure.\<close>

lemma destroy_while_disconnecting:
  assumes "live (conn w c)" "tc_state (conn w c) = kDisconnecting"
  shows "connectDestroyed kern c w = Inl AssertFailed"
  using assms conn_event_bits
  by (auto simp: connectDestroyed_def remove_channel_def channel_remove_def Let_def cpp_assert_def isNoneEvent_def NoneEvent_def
      live_def live_events_def)

text \<open>\<open>startRead\<close> does not look at the state: a connection that has been closed and removed is watched again.\<close>

lemma start_read_revives:
  assumes kern: "kernel_obeys kern" and ok: "pollers_ok acc w" and c: "conn_in w c"
    and closed: "tc_state (conn w c) = kDisconnected" "nc_index (tc_channel (conn w c)) = kNew" "nc_events (tc_channel (conn w c)) = 0"
    and new: "map_of (po_channels (lp_poller (lookup_loop w (tc_loop (conn w c))))) (nc_fd (tc_channel (conn w c))) = None"
  shows "\<exists>w'. startReadInLoop kern c w = Inr w' \<and> tc_state (conn w' c) = kDisconnected \<and> nc_index (tc_channel (conn w' c)) = kAdded \<and>
    isReading (tc_channel (conn w' c))"
proof -
  obtain po where po: "on_channel (ask EnableReading kern) c w = Inr (asked EnableReading c po w)"
    using on_channel_ask [OF kern ok c, of EnableReading] new by auto
  have "c < length (nt_conns (asked EnableReading c po w))" using c by (simp add: conn_in_def asked_def)
  then show ?thesis using po closed conn_asked [OF c, of EnableReading po] conn_event_bits
    by (simp add: startReadInLoop_def ask_simps isReading_def settle_def after_update_def)
qed
end
