(* ===== verification/Tcp_Server.thy ===== *)
theory Tcp_Server
  imports Tcp_Connection
begin

text \<open>
  The TCP server (\<^verbatim>\<open>network/src/TcpServer.cc\<close>), its pool of event loop threads
  (\<^verbatim>\<open>network/src/EventLoopThreadPool.cc\<close>) and its acceptor (\<^verbatim>\<open>network/src/Acceptor.cc\<close>).

  Loop 0 is the base loop, which accepts; the loops after it are those of the pool's threads. The step
  relation \<open>srv_step\<close> interleaves the threads: a loop returns from its poll, handles an event, starts
  its functors, runs one of them or finishes them, and any thread sends on a connection, shuts it down
  or forces it closed. Each of these steps is atomic. The message callback takes all bytes out of the
  buffer, as the one of the unit manager does.
\<close>

section \<open>State\<close>

record server = net +
  sv_ipPort :: string
  sv_name :: string
  sv_listening :: bool
  sv_acceptChannel :: net_channel
  sv_idleFd :: int
  sv_started :: bool
  sv_next :: nat
  sv_writeCompleteCallback :: bool
  sv_nextConnId :: int
  sv_connections :: "(string \<times> nat) list"

section \<open>The thread pool\<close>

text \<open>The loops of the pool are the entries of \<open>nt_loops\<close> after the base loop.\<close>

definition getNextLoop :: "server \<Rightarrow> (nat \<times> server) result" where
  "getNextLoop w =
     cpp_assert (sv_started w)
       (if length (nt_loops w) \<noteq> 1
        then let next' = Suc (sv_next w)
             in Inr (Suc (sv_next w), w\<lparr>sv_next := (if length (nt_loops w) - 1 \<le> next' then 0 else next')\<rparr>)
        else Inr (0, w))"

definition getLoopForHash :: "nat \<Rightarrow> server \<Rightarrow> nat" where
  "getLoopForHash hashCode w =
     (if length (nt_loops w) \<noteq> 1 then Suc (hashCode mod (length (nt_loops w) - 1)) else 0)"

definition getAllLoops :: "server \<Rightarrow> nat list result" where
  "getAllLoops w =
     cpp_assert (sv_started w) (Inr (if length (nt_loops w) = 1 then [0] else [1..<length (nt_loops w)]))"

text \<open>\<open>wakeupFds\<close> are the wake-up descriptors of the loops that the threads create.\<close>

fun start_threads :: "kernel \<Rightarrow> int list \<Rightarrow> server \<Rightarrow> server result" where
  "start_threads kern [] w = Inr w"
| "start_threads kern (fd # fds) w =
     then_do (new_EventLoop kern WakeupChannel fd) (\<lambda>l.
       start_threads kern fds (w\<lparr>nt_loops := nt_loops w @ [l]\<rparr>))"

definition pool_start :: "kernel \<Rightarrow> int list \<Rightarrow> server \<Rightarrow> server result" where
  "pool_start kern wakeupFds w =
     cpp_assert (\<not> sv_started w) (start_threads kern wakeupFds (w\<lparr>sv_started := True\<rparr>))"

section \<open>The server\<close>

definition new_TcpServer :: "net_loop \<Rightarrow> string \<Rightarrow> string \<Rightarrow> int \<Rightarrow> int \<Rightarrow> bool \<Rightarrow> server" where
  "new_TcpServer loop ipPort nameArg listenFd idleFd writeCompleteCallback =
     \<lparr>nt_loops = [loop], nt_conns = [], sv_ipPort = ipPort, sv_name = nameArg, sv_listening = False,
      sv_acceptChannel = new_Channel listenFd, sv_idleFd = idleFd, sv_started = False, sv_next = 0,
      sv_writeCompleteCallback = writeCompleteCallback, sv_nextConnId = 1, sv_connections = []\<rparr>"

definition acceptor_listen :: "kernel \<Rightarrow> server \<Rightarrow> server result" where
  "acceptor_listen kern w =
     (let l = lookup_loop w 0
      in then_do (enableReading kern AcceptChannel (sv_acceptChannel w) (lp_poller l)) (\<lambda>(ch, po).
           Inr (put_loop 0 (l\<lparr>lp_poller := po\<rparr>) (w\<lparr>sv_listening := True, sv_acceptChannel := ch\<rparr>))))"

text \<open>\<open>start\<close> is called in the base loop's thread, so that the acceptor listens at once.\<close>

definition server_start :: "kernel \<Rightarrow> int list \<Rightarrow> server \<Rightarrow> server result" where
  "server_start kern wakeupFds w =
     then_do (pool_start kern wakeupFds w) (\<lambda>w. cpp_assert (\<not> sv_listening w) (acceptor_listen kern w))"

definition conn_name :: "server \<Rightarrow> int \<Rightarrow> string" where
  "conn_name w n = sv_name w @ take 63 (''-'' @ sv_ipPort w @ ''#'' @ to_string n)"

definition newConnection :: "kernel \<Rightarrow> nat option \<Rightarrow> int \<Rightarrow> server \<Rightarrow> server result" where
  "newConnection kern me sockfd w =
     then_do (getNextLoop w) (\<lambda>(i, w).
       let connName = conn_name w (sv_nextConnId w)
       in if INT_MAX \<le> sv_nextConnId w then Inl UndefinedBehaviour
          else let c = length (nt_conns w);
                   w = w\<lparr>sv_nextConnId := sv_nextConnId w + 1,
                         nt_conns := nt_conns w @ [new_TcpConnection i connName sockfd (sv_writeCompleteCallback w)],
                         sv_connections := alist_put connName c (sv_connections w)\<rparr>
               in if me = Some i then connectEstablished kern c w
                  else Inr (queue_in me i (ConnectEstablished c) w))"

definition removeConnectionInLoop :: "nat option \<Rightarrow> nat \<Rightarrow> server \<Rightarrow> server result" where
  "removeConnectionInLoop me c w =
     (let name = tc_name (conn w c)
      in cpp_assert (map_of (sv_connections w) name \<noteq> None)
           (Inr (queue_in me (tc_loop (conn w c)) (ConnectDestroyed c)
              (w\<lparr>sv_connections := alist_erase name (sv_connections w)\<rparr>))))"

definition removeConnection :: "nat option \<Rightarrow> nat \<Rightarrow> server \<Rightarrow> server result" where
  "removeConnection me c w =
     (if me = Some 0 then removeConnectionInLoop me c w
      else Inr (queue_in me 0 (RemoveConnectionInLoop c) w))"

text \<open>The destructor hands every connection of the map to \<open>connectDestroyed\<close> in its loop.\<close>

fun destroy_connections :: "kernel \<Rightarrow> nat option \<Rightarrow> nat list \<Rightarrow> server \<Rightarrow> server result" where
  "destroy_connections kern me [] w = Inr w"
| "destroy_connections kern me (c # cs) w =
     then_do (if me = Some (tc_loop (conn w c)) then connectDestroyed kern c w
              else Inr (queue_in me (tc_loop (conn w c)) (ConnectDestroyed c) w))
       (destroy_connections kern me cs)"

definition delete_TcpServer :: "kernel \<Rightarrow> nat option \<Rightarrow> server \<Rightarrow> server result" where
  "delete_TcpServer kern me w =
     destroy_connections kern me (map snd (sv_connections w)) (w\<lparr>sv_started := False\<rparr>)"

definition EMFILE :: int where "EMFILE = 24"

text \<open>\<open>accepted\<close> is what \<^verbatim>\<open>accept\<close> returned, \<open>idle\<close> the descriptor that reopening \<^verbatim>\<open>/dev/null\<close> gives.\<close>

definition acceptor_handleRead :: "kernel \<Rightarrow> int + int \<Rightarrow> int \<Rightarrow> nat option \<Rightarrow> server \<Rightarrow> server result" where
  "acceptor_handleRead kern accepted idle me w =
     (case accepted of
        Inr connfd \<Rightarrow> newConnection kern me connfd w
      | Inl err \<Rightarrow> Inr (if err = EMFILE then w\<lparr>sv_idleFd := idle\<rparr> else w))"

section \<open>Steps\<close>

definition run_functor :: "kernel \<Rightarrow> kwrite \<Rightarrow> nat option \<Rightarrow> net_functor \<Rightarrow> server \<Rightarrow> server result" where
  "run_functor kern write me f w =
     (case f of
        SendInLoop c data \<Rightarrow> sendInLoop kern write me c data w
      | ShutdownInLoop c \<Rightarrow> Inr (shutdownInLoop c w)
      | ForceCloseInLoop c \<Rightarrow> forceCloseInLoop kern (removeConnection me) c w
      | StartReadInLoop c \<Rightarrow> startReadInLoop kern c w
      | StopReadInLoop c \<Rightarrow> stopReadInLoop kern c w
      | ConnectEstablished c \<Rightarrow> connectEstablished kern c w
      | ConnectDestroyed c \<Rightarrow> connectDestroyed kern c w
      | WriteComplete c \<Rightarrow> Inr (add_call WriteCompleteCallback c w)
      | RemoveConnectionInLoop c \<Rightarrow> removeConnectionInLoop me c w)"

definition acc_of :: "server \<Rightarrow> net_channel option" where
  "acc_of w = Some (sv_acceptChannel w)"

definition fd_of :: "server \<Rightarrow> nat \<Rightarrow> chan_ptr \<Rightarrow> int" where
  "fd_of w i p = (case chan_at (acc_of w) w i p of None \<Rightarrow> -1 | Some ch \<Rightarrow> nc_fd ch)"

text \<open>The kernel reports, of a descriptor it watches for \<open>ev\<close>, events among \<open>ev\<close>, errors and hang-ups.\<close>

definition reportable :: "chan_ptr poller \<Rightarrow> events \<Rightarrow> chan_ptr \<Rightarrow> bool" where
  "reportable po revents p \<longleftrightarrow>
     (\<exists>fd ev. interest (po_ctl po) fd = Some (ev, p) \<and> revents AND NOT (ev OR POLLERR OR POLLHUP) = 0)"

text \<open>A read gives an error or as much of the waiting bytes as there is room for.\<close>

definition readv_sane :: "readv \<Rightarrow> bool" where
  "readv_sane rd \<longleftrightarrow> (\<exists>data. rd = kernel_readv data) \<or> (\<exists>err. rd = (\<lambda>_. Inl err))"

definition open_conn :: "tcp_conn \<Rightarrow> bool" where
  "open_conn k \<longleftrightarrow> nc_index (tc_channel k) \<noteq> kNew \<or> tc_state k = kConnecting"

text \<open>The descriptors in use.\<close>

definition fd_in_use :: "server \<Rightarrow> int \<Rightarrow> bool" where
  "fd_in_use w fd \<longleftrightarrow> fd = nc_fd (sv_acceptChannel w) \<or>
     (\<exists>i < length (nt_loops w). fd = nc_fd (lp_wakeupChannel (lookup_loop w i))) \<or>
     (\<exists>c < length (nt_conns w). open_conn (conn w c) \<and> fd = nc_fd (tc_channel (conn w c)))"

definition active_thread :: "server \<Rightarrow> nat option \<Rightarrow> bool" where
  "active_thread w me \<longleftrightarrow> (case me of None \<Rightarrow> True | Some i \<Rightarrow> i < length (nt_loops w) \<and> \<not> blocked (lookup_loop w i))"

inductive srv_step :: "kernel \<Rightarrow> server \<Rightarrow> server result \<Rightarrow> bool" for kern :: kernel and w :: server where
  poll: "srv_step kern w (then_do (loop_poll (fd_of w i) ready (lookup_loop w i)) (\<lambda>(_, l). Inr (put_loop i l w)))"
    if "i < length (nt_loops w)" "blocked (lookup_loop w i)"
      "\<forall>evs. ready = Some evs \<longrightarrow> length evs \<le> po_events_size (lp_poller (lookup_loop w i)) \<and>
         (\<forall>(revents, p) \<in> set evs. reportable (lp_poller (lookup_loop w i)) revents p)"
| wake: "srv_step kern w (Inr (put_loop i (loop_handleRead (lookup_loop w i)) w))"
    if "i < length (nt_loops w)" "lp_eventHandling (lookup_loop w i)"
| event: "srv_step kern w
      (conn_event kern retrieveAllAsString wr rd (removeConnection (Some i)) (Some i) c revents w)"
    if "i < length (nt_loops w)" "lp_eventHandling (lookup_loop w i)" "write_sane wr" "readv_sane rd"
      "reportable (lp_poller (lookup_loop w i)) revents (ConnChannel c)"
| accept: "srv_step kern w (acceptor_handleRead kern accepted idle (Some 0) w)"
    if "lp_eventHandling (lookup_loop w 0)" "sv_nextConnId w < INT_MAX" "\<forall>fd. accepted = Inr fd \<longrightarrow> \<not> fd_in_use w fd"
| handled: "srv_step kern w (Inr (put_loop i (begin_functors (loop_handled (lookup_loop w i))) w))"
    if "i < length (nt_loops w)" "lp_eventHandling (lookup_loop w i)"
| run: "srv_step kern w (run_functor kern wr (Some i) f (put_loop i l w))"
    if "i < length (nt_loops w)" "lp_callingPendingFunctors (lookup_loop w i)" "write_sane wr"
      "next_functor (lookup_loop w i) = Some (f, l)"
| finish: "srv_step kern w (Inr (put_loop i (end_functors (lookup_loop w i)) w))"
    if "i < length (nt_loops w)" "lp_callingPendingFunctors (lookup_loop w i)" "lp_functors (lookup_loop w i) = []"
| send: "srv_step kern w (then_do (send kern wr me c buf w) (\<lambda>(_, w). Inr w))"
    if "c < length (nt_conns w)" "active_thread w me" "write_sane wr" "buffer_ok buf"
| shutdown: "srv_step kern w (Inr (shutdown me c w))"
    if "c < length (nt_conns w)" "active_thread w me"
| force_close: "srv_step kern w (Inr (forceClose me c w))"
    if "c < length (nt_conns w)" "active_thread w me"

inductive srv_reach :: "kernel \<Rightarrow> server \<Rightarrow> server \<Rightarrow> bool" for kern :: kernel and w0 :: server where
  start: "srv_reach kern w0 w0"
| step: "srv_reach kern w0 w'" if "srv_reach kern w0 w" "srv_step kern w (Inr w')"

section \<open>Specification\<close>

datatype phase = Starting | Opening | Up | Limbo | Closing | Unmapped | Leaving | Gone

text \<open>\<open>phase_ok ph k mapped e r d\<close>: the life of a connection \<open>k\<close>, which is in the map or not, and for which
  \<open>e\<close>, \<open>r\<close> and \<open>d\<close> calls of \<open>connectEstablished\<close>, \<open>removeConnectionInLoop\<close> and \<open>connectDestroyed\<close> are queued.
  \<open>Starting\<close>, \<open>Limbo\<close> and \<open>Leaving\<close> are only passed through within a step.\<close>

definition life_calls :: "tcp_conn \<Rightarrow> conn_call list" where
  "life_calls k = filter (\<lambda>x. x \<noteq> WriteCompleteCallback) (tc_calls k)"

definition up_calls :: "conn_call list \<Rightarrow> bool" where
  "up_calls xs \<longleftrightarrow> (\<exists>ms. xs = ConnectionCallback True # map MessageCallback ms)"

definition down_calls :: "conn_call list \<Rightarrow> bool" where
  "down_calls xs \<longleftrightarrow> (\<exists>ms. xs = ConnectionCallback True # map MessageCallback ms @ [ConnectionCallback False, CloseCallback])"

definition closed :: "tcp_conn \<Rightarrow> bool" where
  "closed k \<longleftrightarrow> tc_state k = kDisconnected \<and> nc_events (tc_channel k) = 0 \<and> down_calls (life_calls k)"

fun phase_ok :: "phase \<Rightarrow> tcp_conn \<Rightarrow> bool \<Rightarrow> nat \<Rightarrow> nat \<Rightarrow> nat \<Rightarrow> bool" where
  "phase_ok Starting k m e r d \<longleftrightarrow> fresh k \<and> m \<and> e = 0 \<and> r = 0 \<and> d = 0"
| "phase_ok Opening k m e r d \<longleftrightarrow> fresh k \<and> m \<and> e = 1 \<and> r = 0 \<and> d = 0"
| "phase_ok Up k m e r d \<longleftrightarrow> live k \<and> up_calls (life_calls k) \<and> m \<and> e = 0 \<and> r = 0 \<and> d = 0"
| "phase_ok Limbo k m e r d \<longleftrightarrow> closed k \<and> nc_index (tc_channel k) = kDeleted \<and> m \<and> e = 0 \<and> r = 0 \<and> d = 0"
| "phase_ok Closing k m e r d \<longleftrightarrow> closed k \<and> nc_index (tc_channel k) = kDeleted \<and> m \<and> e = 0 \<and> r = 1 \<and> d = 0"
| "phase_ok Unmapped k m e r d \<longleftrightarrow> closed k \<and> nc_index (tc_channel k) = kDeleted \<and> \<not> m \<and> e = 0 \<and> r = 0 \<and> d = 1"
| "phase_ok Leaving k m e r d \<longleftrightarrow> closed k \<and> nc_index (tc_channel k) = kDeleted \<and> \<not> m \<and> e = 0 \<and> r = 0 \<and> d = 0"
| "phase_ok Gone k m e r d \<longleftrightarrow> closed k \<and> nc_index (tc_channel k) = kNew \<and> \<not> m \<and> e = 0 \<and> r = 0 \<and> d = 0"

definition mapped :: "server \<Rightarrow> nat \<Rightarrow> bool" where
  "mapped w c \<longleftrightarrow> map_of (sv_connections w) (tc_name (conn w c)) = Some c"

definition jobs :: "'z net_scheme \<Rightarrow> nat \<Rightarrow> net_functor \<Rightarrow> nat" where
  "jobs w i f = count_list (queue_of w i) f"

definition conn_phase :: "server \<Rightarrow> nat \<Rightarrow> phase \<Rightarrow> bool" where
  "conn_phase w c ph \<longleftrightarrow> phase_ok ph (conn w c) (mapped w c) (jobs w (tc_loop (conn w c)) (ConnectEstablished c))
     (jobs w 0 (RemoveConnectionInLoop c)) (jobs w (tc_loop (conn w c)) (ConnectDestroyed c))"

fun functor_ok :: "server \<Rightarrow> nat \<Rightarrow> net_functor \<Rightarrow> bool" where
  "functor_ok w i (ConnectEstablished c) \<longleftrightarrow> c < length (nt_conns w) \<and> tc_loop (conn w c) = i"
| "functor_ok w i (ConnectDestroyed c) \<longleftrightarrow> c < length (nt_conns w) \<and> tc_loop (conn w c) = i"
| "functor_ok w i (RemoveConnectionInLoop c) \<longleftrightarrow> c < length (nt_conns w) \<and> i = 0"
| "functor_ok w i (SendInLoop c data) \<longleftrightarrow> c < length (nt_conns w) \<and> tc_loop (conn w c) = i \<and> tc_state (conn w c) \<noteq> kConnecting"
| "functor_ok w i (ShutdownInLoop c) \<longleftrightarrow> c < length (nt_conns w) \<and> tc_loop (conn w c) = i \<and> tc_state (conn w c) \<noteq> kConnecting"
| "functor_ok w i (ForceCloseInLoop c) \<longleftrightarrow> c < length (nt_conns w) \<and> tc_loop (conn w c) = i \<and> tc_state (conn w c) \<noteq> kConnecting"
| "functor_ok w i (WriteComplete c) \<longleftrightarrow> c < length (nt_conns w) \<and> tc_loop (conn w c) = i \<and> tc_state (conn w c) \<noteq> kConnecting"
| "functor_ok w i (StartReadInLoop c) \<longleftrightarrow> False"
| "functor_ok w i (StopReadInLoop c) \<longleftrightarrow> False"

text \<open>Connections are dealt to the loops of the pool in turn.\<close>

definition turn :: "nat \<Rightarrow> nat \<Rightarrow> nat" where
  "turn loops c = (if loops = 1 then 0 else Suc (c mod (loops - 1)))"

definition names_ok :: "server \<Rightarrow> bool" where
  "names_ok w \<longleftrightarrow> length (sv_ipPort w) \<le> 50 \<and> sv_nextConnId w = int (length (nt_conns w)) + 1 \<and> sv_nextConnId w \<le> INT_MAX \<and>
     (\<forall>c < length (nt_conns w). tc_name (conn w c) = conn_name w (int c + 1)) \<and>
     (\<forall>n c. map_of (sv_connections w) n = Some c \<longrightarrow> c < length (nt_conns w) \<and> tc_name (conn w c) = n)"

definition fds_ok :: "server \<Rightarrow> bool" where
  "fds_ok w \<longleftrightarrow>
     (\<forall>c < length (nt_conns w). open_conn (conn w c) \<longrightarrow>
        nc_fd (tc_channel (conn w c)) \<noteq> nc_fd (sv_acceptChannel w) \<and>
        (\<forall>i < length (nt_loops w). nc_fd (tc_channel (conn w c)) \<noteq> nc_fd (lp_wakeupChannel (lookup_loop w i))) \<and>
        (\<forall>d < length (nt_conns w). d \<noteq> c \<and> open_conn (conn w d) \<longrightarrow>
           nc_fd (tc_channel (conn w c)) \<noteq> nc_fd (tc_channel (conn w d))))"

definition loop_flags :: "net_loop \<Rightarrow> bool" where
  "loop_flags l \<longleftrightarrow> \<not> (lp_eventHandling l \<and> lp_callingPendingFunctors l) \<and>
     (\<not> lp_callingPendingFunctors l \<longrightarrow> lp_functors l = [])"

definition srv_base :: "server \<Rightarrow> bool" where
  "srv_base w \<longleftrightarrow> sv_started w \<and> 0 < length (nt_loops w) \<and> pollers_ok (acc_of w) w \<and>
     (\<forall>i < length (nt_loops w). loop_flags (lookup_loop w i)) \<and>
     (\<forall>i < length (nt_loops w). \<forall>f \<in> set (queue_of w i). functor_ok w i f) \<and>
     sv_next w = (if length (nt_loops w) = 1 then 0 else length (nt_conns w) mod (length (nt_loops w) - 1)) \<and>
     (\<forall>c < length (nt_conns w). tc_loop (conn w c) = turn (length (nt_loops w)) c) \<and>
     names_ok w \<and> fds_ok w"

definition srv_inv :: "(nat \<Rightarrow> phase) \<Rightarrow> server \<Rightarrow> bool" where
  "srv_inv \<phi> w \<longleftrightarrow> srv_base w \<and> (\<forall>c < length (nt_conns w). conn_phase w c (\<phi> c))"

definition settled :: "(nat \<Rightarrow> phase) \<Rightarrow> bool" where
  "settled \<phi> \<longleftrightarrow> (\<forall>c. \<phi> c \<notin> {Starting, Limbo, Leaving})"

section \<open>The invariant and single changes\<close>

lemma same_fields:
  assumes "net.more w' = net.more w"
  shows "sv_ipPort w' = sv_ipPort w" "sv_name w' = sv_name w" "sv_acceptChannel w' = sv_acceptChannel w"
    "sv_started w' = sv_started w" "sv_next w' = sv_next w" "sv_nextConnId w' = sv_nextConnId w"
    "sv_connections w' = sv_connections w" "sv_listening w' = sv_listening w"
  using assms by (cases w; cases w'; simp)+

lemma put_conn_server [simp]:
  "sv_acceptChannel (put_conn c k w) = sv_acceptChannel w" "sv_connections (put_conn c k w) = sv_connections w"
  by (simp_all add: put_conn_def)

lemma put_loop_server [simp]:
  "sv_ipPort (put_loop i l w) = sv_ipPort w" "sv_name (put_loop i l w) = sv_name w"
  "sv_acceptChannel (put_loop i l w) = sv_acceptChannel w" "sv_started (put_loop i l w) = sv_started w"
  "sv_next (put_loop i l w) = sv_next w" "sv_nextConnId (put_loop i l w) = sv_nextConnId w"
  "sv_connections (put_loop i l w) = sv_connections w"
  by (simp_all add: put_loop_def)

lemma names_ok_cong:
  assumes nm: "names_ok w" and same: "sv_ipPort w' = sv_ipPort w" "sv_name w' = sv_name w" "sv_nextConnId w' = sv_nextConnId w"
      "length (nt_conns w') = length (nt_conns w)" "\<And>c. tc_name (conn w' c) = tc_name (conn w c)"
    and sub: "\<And>n c. map_of (sv_connections w') n = Some c \<Longrightarrow> map_of (sv_connections w) n = Some c"
  shows "names_ok w'"
  using nm sub unfolding names_ok_def conn_name_def same by blast

lemma count_list_replicate: "count_list (replicate n x) y = (if x = y then n else 0)"
  by (induction n) auto

lemma frame_queue:
  assumes "frame c w w'"
  shows "\<exists>n. queue_of w' i = queue_of w i @ replicate n (WriteComplete c) \<and> (i \<noteq> tc_loop (conn w c) \<longrightarrow> n = 0)"
proof -
  obtain n where n: "lp_pendingFunctors (lookup_loop w' i) = lp_pendingFunctors (lookup_loop w i) @ replicate n (WriteComplete c)"
      "i \<noteq> tc_loop (conn w c) \<longrightarrow> n = 0" "lp_functors (lookup_loop w' i) = lp_functors (lookup_loop w i)"
    using assms unfolding frame_def by blast
  then show ?thesis by (intro exI [of _ n]) (simp add: queue_of_def)
qed

lemma frame_jobs:
  assumes "frame c w w'" "f \<noteq> WriteComplete c"
  shows "jobs w' i f = jobs w i f"
proof -
  obtain n where "queue_of w' i = queue_of w i @ replicate n (WriteComplete c)" using frame_queue [OF assms(1)] by blast
  then show ?thesis using assms(2) by (simp add: jobs_def count_list_replicate)
qed

lemma frame_conn:
  assumes "frame c w w'"
  shows "tc_loop (conn w' d) = tc_loop (conn w d)" "tc_name (conn w' d) = tc_name (conn w d)"
    "nc_fd (tc_channel (conn w' d)) = nc_fd (tc_channel (conn w d))" "d \<noteq> c \<Longrightarrow> conn w' d = conn w d"
    "length (nt_conns w') = length (nt_conns w)" "length (nt_loops w') = length (nt_loops w)"
    "lp_wakeupChannel (lookup_loop w' i) = lp_wakeupChannel (lookup_loop w i)"
    "lp_eventHandling (lookup_loop w' i) = lp_eventHandling (lookup_loop w i)"
    "lp_callingPendingFunctors (lookup_loop w' i) = lp_callingPendingFunctors (lookup_loop w i)"
    "net.more w' = net.more w" "loop_flags (lookup_loop w' i) = loop_flags (lookup_loop w i)"
  using assms unfolding frame_def loop_flags_def by (cases "d = c"; auto)+

lemma srv_inv_frame:
  assumes inv: "srv_inv \<phi> w" and fr: "frame c w w'" and ok: "pollers_ok (acc_of w) w'" and c: "c < length (nt_conns w)"
    and ph: "phase_ok ph (conn w' c) (mapped w c) (jobs w (tc_loop (conn w c)) (ConnectEstablished c))
      (jobs w 0 (RemoveConnectionInLoop c)) (jobs w (tc_loop (conn w c)) (ConnectDestroyed c))"
    and op: "open_conn (conn w' c) \<Longrightarrow> open_conn (conn w c)" and st: "tc_state (conn w' c) \<noteq> kConnecting"
  shows "srv_inv (\<phi>(c := ph)) w'"
proof -
  note fc = frame_conn [OF fr]
  note sf = same_fields [OF fc(10)]
  have base: "srv_base w" and phases: "\<And>d. d < length (nt_conns w) \<Longrightarrow> conn_phase w d (\<phi> d)"
    using inv by (simp_all add: srv_inv_def)
  have opn: "open_conn (conn w' d) \<Longrightarrow> open_conn (conn w d)" for d using op fc(4) [of d] by (cases "d = c") auto
  have acc: "acc_of w' = acc_of w" by (simp add: acc_of_def sf)
  have up: "tc_state (conn w' d) \<noteq> kConnecting" if "tc_state (conn w d) \<noteq> kConnecting" for d
    using that st fc(4) [of d] by (cases "d = c") auto
  have fok: "functor_ok w' i f" if "functor_ok w i f" for i f
    using that up by (cases f) (simp_all add: fc(1,5))
  have fs: "functor_ok w' i f" if i: "i < length (nt_loops w)" and f: "f \<in> set (queue_of w' i)" for i f
  proof -
    obtain n where n: "queue_of w' i = queue_of w i @ replicate n (WriteComplete c)" "i \<noteq> tc_loop (conn w c) \<longrightarrow> n = 0"
      using frame_queue [OF fr] by blast
    consider "f \<in> set (queue_of w i)" | "f = WriteComplete c" "i = tc_loop (conn w c)" using f n by (auto split: if_splits)
    then show ?thesis
    proof cases
      case 1
      then have "functor_ok w i f" using base i unfolding srv_base_def by blast
      then show ?thesis by (rule fok)
    next
      case 2
      then show ?thesis using c st fc(1,5) by simp
    qed
  qed
  have "names_ok w" using base unfolding srv_base_def by blast
  then have nm: "names_ok w'" by (rule names_ok_cong) (simp_all add: sf fc(2,5))
  have f0: "fds_ok w" using base unfolding srv_base_def by blast
  have fd: "fds_ok w'"
    unfolding fds_ok_def sf fc(3,5,6,7)
  proof (intro allI impI conjI, goal_cases)
    case (1 d)
    then show ?case using f0 opn unfolding fds_ok_def by blast
  next
    case (2 d i)
    then show ?case using f0 opn unfolding fds_ok_def by blast
  next
    case (3 d d')
    then show ?case using f0 opn [of d] opn [of d'] unfolding fds_ok_def by blast
  qed
  have "srv_base w'"
    using base ok fs nm fd unfolding srv_base_def acc sf fc(1,5,6,11) by blast
  moreover have "conn_phase w' d ((\<phi>(c := ph)) d)" if d: "d < length (nt_conns w)" for d
  proof -
    have "mapped w' d = mapped w d" by (simp add: mapped_def sf fc(2))
    then show ?thesis
      using ph phases [OF d] fc(1,4) [of d] frame_jobs [OF fr] by (cases "d = c") (simp_all add: conn_phase_def)
  qed
  ultimately show ?thesis unfolding srv_inv_def fc(5) by blast
qed

lemma queue_of_queue_in:
  "i < length (nt_loops w) \<Longrightarrow> queue_of (queue_in me i f w) j = (if j = i then queue_of w i @ [f] else queue_of w j)"
  by (simp add: queue_of_def lookup_queue_in)

lemma queue_in_server [simp]:
  "sv_ipPort (queue_in me i f w) = sv_ipPort w" "sv_name (queue_in me i f w) = sv_name w"
  "sv_acceptChannel (queue_in me i f w) = sv_acceptChannel w" "sv_started (queue_in me i f w) = sv_started w"
  "sv_next (queue_in me i f w) = sv_next w" "sv_nextConnId (queue_in me i f w) = sv_nextConnId w"
  "sv_connections (queue_in me i f w) = sv_connections w"
  by (simp_all add: queue_in_def)

lemma functor_ok_cong:
  assumes "length (nt_conns w') = length (nt_conns w)" "\<And>c. c < length (nt_conns w) \<Longrightarrow> conn w' c = conn w c"
  shows "functor_ok w' i f = functor_ok w i f"
  using assms by (cases f) auto

lemma srv_base_queue_in:
  assumes base: "srv_base w" and i: "i < length (nt_loops w)" and f: "functor_ok w i f"
  shows "srv_base (queue_in me i f w)"
proof -
  let ?w = "queue_in me i f w"
  have fo: "functor_ok ?w j g = functor_ok w j g" for j g by (rule functor_ok_cong) simp_all
  have q: "\<forall>j < length (nt_loops ?w). \<forall>g \<in> set (queue_of ?w j). functor_ok ?w j g"
    using base i f unfolding srv_base_def fo by (auto simp: queue_of_queue_in)
  have l: "loop_flags (lookup_loop ?w j) = loop_flags (lookup_loop w j)"
    "lp_wakeupChannel (lookup_loop ?w j) = lp_wakeupChannel (lookup_loop w j)" for j
    using i by (simp_all add: lookup_queue_in loop_flags_def)
  have "names_ok w" using base unfolding srv_base_def by blast
  then have nm: "names_ok ?w" by (rule names_ok_cong) simp_all
  have fd: "fds_ok ?w" using base by (simp add: srv_base_def fds_ok_def l)
  show ?thesis using base q nm fd i unfolding srv_base_def by (simp add: l acc_of_def)
qed

lemma jobs_queue_in:
  "i < length (nt_loops w) \<Longrightarrow> jobs (queue_in me i f w) j g = jobs w j g + (if j = i \<and> g = f then 1 else 0)"
  by (simp add: jobs_def queue_of_queue_in)

fun life_of :: "net_functor \<Rightarrow> nat option" where
  "life_of (ConnectEstablished c) = Some c"
| "life_of (ConnectDestroyed c) = Some c"
| "life_of (RemoveConnectionInLoop c) = Some c"
| "life_of _ = None"

lemma srv_inv_queue_in:
  assumes inv: "srv_inv \<phi> w" and i: "i < length (nt_loops w)" and f: "functor_ok w i f"
    and ph: "\<And>c. life_of f = Some c \<Longrightarrow> conn_phase (queue_in me i f w) c (\<phi>' c)"
    and same: "\<And>c. life_of f \<noteq> Some c \<Longrightarrow> \<phi>' c = \<phi> c"
  shows "srv_inv \<phi>' (queue_in me i f w)"
proof -
  let ?w = "queue_in me i f w"
  have base: "srv_base w" and phases: "\<And>d. d < length (nt_conns w) \<Longrightarrow> conn_phase w d (\<phi> d)"
    using inv by (simp_all add: srv_inv_def)
  have "conn_phase ?w d (\<phi>' d)" if d: "d < length (nt_conns w)" for d
  proof (cases "life_of f = Some d")
    case True
    then show ?thesis by (rule ph)
  next
    case False
    then have "f \<noteq> ConnectEstablished d" "f \<noteq> ConnectDestroyed d" "f \<noteq> RemoveConnectionInLoop d" by auto
    then show ?thesis using phases [OF d] same [OF False] i by (simp add: conn_phase_def mapped_def jobs_queue_in)
  qed
  then show ?thesis using srv_base_queue_in [OF base i f] by (simp add: srv_inv_def)
qed

lemma name_inj:
  assumes nm: "names_ok w" and c: "c < length (nt_conns w)" and d: "d < length (nt_conns w)"
    and eq: "tc_name (conn w c) = tc_name (conn w d)"
  shows "c = d"
proof -
  have full: "take 63 (''-'' @ sv_ipPort w @ ''#'' @ to_string (int e + 1)) = ''-'' @ sv_ipPort w @ ''#'' @ to_string (int e + 1)"
    if e: "e < length (nt_conns w)" for e
  proof -
    have "nat (int e + 1) < 10 ^ Suc 9" using nm e by (simp add: names_ok_def INT_MAX_def nat_less_iff)
    then have "length (to_string (int e + 1)) \<le> 10"
      using string_of_nat_length [of "nat (int e + 1)" 9] by (simp add: to_string_def)
    moreover have "length (sv_ipPort w) \<le> 50" using nm by (simp add: names_ok_def)
    ultimately show ?thesis by simp
  qed
  have "conn_name w (int c + 1) = conn_name w (int d + 1)" using nm c d eq unfolding names_ok_def by metis
  then have "to_string (int c + 1) = to_string (int d + 1)" unfolding conn_name_def full [OF c] full [OF d] by simp
  then show ?thesis using to_string_inj by fastforce
qed

lemma srv_baseD:
  assumes "srv_base w"
  shows "sv_started w" "0 < length (nt_loops w)" "pollers_ok (acc_of w) w" "names_ok w" "fds_ok w"
    "i < length (nt_loops w) \<Longrightarrow> loop_flags (lookup_loop w i)"
    "i < length (nt_loops w) \<Longrightarrow> f \<in> set (queue_of w i) \<Longrightarrow> functor_ok w i f"
    "c < length (nt_conns w) \<Longrightarrow> tc_loop (conn w c) = turn (length (nt_loops w)) c"
    "sv_next w = (if length (nt_loops w) = 1 then 0 else length (nt_conns w) mod (length (nt_loops w) - 1))"
  using assms unfolding srv_base_def by blast+

lemma turn_bound: "0 < n \<Longrightarrow> turn n c < n"
proof (cases "n = 1")
  case False
  assume "0 < n"
  then have "0 < n - 1" using False by simp
  then have "c mod (n - 1) < n - 1" by (rule mod_less_divisor)
  then show ?thesis using False by (simp add: turn_def)
qed (simp add: turn_def)

lemma srv_conn_in: "srv_base w \<Longrightarrow> c < length (nt_conns w) \<Longrightarrow> conn_in w c"
  using srv_baseD(2,8) turn_bound by (simp add: conn_in_def)

lemma srv_invD:
  assumes "srv_inv \<phi> w" "c < length (nt_conns w)"
  shows "srv_base w" "conn_in w c" "pollers_ok (acc_of w) w" "conn_phase w c (\<phi> c)"
  using assms srv_conn_in srv_baseD(3) by (simp_all add: srv_inv_def)

text \<open>Taking a functor off the queue.\<close>

fun popped :: "net_functor \<Rightarrow> (nat \<Rightarrow> phase) \<Rightarrow> (nat \<Rightarrow> phase)" where
  "popped (ConnectEstablished c) \<phi> = \<phi>(c := Starting)"
| "popped (RemoveConnectionInLoop c) \<phi> = \<phi>(c := Limbo)"
| "popped (ConnectDestroyed c) \<phi> = \<phi>(c := Leaving)"
| "popped _ \<phi> = \<phi>"

lemma srv_base_put_loop:
  assumes base: "srv_base w" and i: "i < length (nt_loops w)"
    and l: "lp_poller l = lp_poller (lookup_loop w i)" "lp_wakeupChannel l = lp_wakeupChannel (lookup_loop w i)"
      "loop_flags l"
    and q: "set (lp_functors l @ lp_pendingFunctors l) \<subseteq> set (queue_of w i)"
  shows "srv_base (put_loop i l w)"
proof -
  let ?w = "put_loop i l w"
  have fo: "functor_ok ?w j g = functor_ok w j g" for j g by (rule functor_ok_cong) simp_all
  have lk: "lookup_loop ?w j = (if j = i then l else lookup_loop w j)" for j using i by simp
  have fs: "\<forall>j < length (nt_loops ?w). \<forall>g \<in> set (queue_of ?w j). functor_ok ?w j g"
    unfolding fo using srv_baseD(7) [OF base] i q by (auto simp: queue_of_def lk)
  have wk: "lp_wakeupChannel (lookup_loop ?w j) = lp_wakeupChannel (lookup_loop w j)" for j using l(2) by (simp add: lk)
  have "chan_at acc ?w j = chan_at acc w j" for acc j by (auto simp: fun_eq_iff chan_at_def wk split: chan_ptr.splits)
  then have po: "pollers_ok (acc_of ?w) ?w" using srv_baseD(3) [OF base] l(1) by (simp add: pollers_ok_def lk acc_of_def)
  have nm: "names_ok ?w" by (rule names_ok_cong [OF srv_baseD(4) [OF base]]) simp_all
  have fd: "fds_ok ?w" using srv_baseD(5) [OF base] unfolding fds_ok_def wk by simp
  have "\<forall>j < length (nt_loops ?w). loop_flags (lookup_loop ?w j)"
    using srv_baseD(6) [OF base] l(3) by (simp add: lk)
  then show ?thesis unfolding srv_base_def using fs po nm fd srv_baseD(1,2,8,9) [OF base] by simp
qed

lemma srv_inv_pop:
  assumes inv: "srv_inv \<phi> w" and i: "i < length (nt_loops w)" and f: "next_functor (lookup_loop w i) = Some (f, l)"
  shows "srv_inv (popped f \<phi>) (put_loop i l w)" "functor_ok (put_loop i l w) i f"
proof -
  let ?w = "put_loop i l w"
  have base: "srv_base w" and phases: "\<And>d. d < length (nt_conns w) \<Longrightarrow> conn_phase w d (\<phi> d)"
    using inv by (simp_all add: srv_inv_def)
  obtain fs where fs: "lp_functors (lookup_loop w i) = f # fs" "l = lookup_loop w i\<lparr>lp_functors := fs\<rparr>"
    using f by (auto simp: next_functor_def split: list.splits)
  have q: "queue_of w i = f # queue_of ?w i" "j \<noteq> i \<Longrightarrow> queue_of ?w j = queue_of w j" for j
    using fs i by (simp_all add: queue_of_def)
  have jb: "jobs w j g = jobs ?w j g + (if j = i \<and> g = f then 1 else 0)" for j g
    using q by (cases "j = i") (auto simp: jobs_def)
  have b: "srv_base ?w"
    by (rule srv_base_put_loop [OF base i]) (use fs srv_baseD(6) [OF base i] in \<open>auto simp: queue_of_def loop_flags_def\<close>)
  have fo: "functor_ok w i f" by (rule srv_baseD(7) [OF base i]) (simp add: q(1))
  then show "functor_ok ?w i f" using functor_ok_cong [of ?w w i f] by simp
  have "conn_phase ?w d (popped f \<phi> d)" if d: "d < length (nt_conns w)" for d
  proof (cases "life_of f = Some d")
    case False
    then have "f \<noteq> ConnectEstablished d" "f \<noteq> ConnectDestroyed d" "f \<noteq> RemoveConnectionInLoop d" by auto
    moreover have "popped f \<phi> d = \<phi> d" using False by (cases f) auto
    ultimately show ?thesis using phases [OF d] jb by (simp add: conn_phase_def mapped_def)
  next
    case True
    have ph: "phase_ok (\<phi> d) (conn w d) (mapped w d)
        (jobs ?w (tc_loop (conn w d)) (ConnectEstablished d) + (if f = ConnectEstablished d then 1 else 0))
        (jobs ?w 0 (RemoveConnectionInLoop d) + (if f = RemoveConnectionInLoop d then 1 else 0))
        (jobs ?w (tc_loop (conn w d)) (ConnectDestroyed d) + (if f = ConnectDestroyed d then 1 else 0))"
      using phases [OF d] fo unfolding conn_phase_def jb by (auto split: if_splits)
    have "mapped ?w d = mapped w d" by (simp add: mapped_def)
    then show ?thesis using ph True by (cases f; cases "\<phi> d") (auto simp: conn_phase_def)
  qed
  then show "srv_inv (popped f \<phi>) ?w" using b by (simp add: srv_inv_def)
qed

lemma srv_base_cong:
  assumes base: "srv_base w" and same: "nt_loops w' = nt_loops w" "nt_conns w' = nt_conns w" "sv_ipPort w' = sv_ipPort w"
      "sv_name w' = sv_name w" "sv_acceptChannel w' = sv_acceptChannel w" "sv_started w' = sv_started w" "sv_next w' = sv_next w"
      "sv_nextConnId w' = sv_nextConnId w"
    and sub: "\<And>n c. map_of (sv_connections w') n = Some c \<Longrightarrow> map_of (sv_connections w) n = Some c"
  shows "srv_base w'"
proof -
  have k: "conn w' d = conn w d" "lookup_loop w' i = lookup_loop w i" "queue_of w' i = queue_of w i" for d i
    by (simp_all add: conn_def lookup_loop_def queue_of_def same)
  have fo: "functor_ok w' j g = functor_ok w j g" for j g by (rule functor_ok_cong) (simp_all add: k same)
  have ch: "chan_at acc w' j = chan_at acc w j" for acc j by (auto simp: fun_eq_iff chan_at_def k same split: chan_ptr.splits)
  have "names_ok w'" by (rule names_ok_cong [OF srv_baseD(4) [OF base]]) (use sub in \<open>auto simp: k same\<close>)
  moreover have "fds_ok w'" using srv_baseD(5) [OF base] unfolding fds_ok_def k same by simp
  moreover have "pollers_ok (acc_of w') w'" using srv_baseD(3) [OF base] by (simp add: pollers_ok_def ch k acc_of_def same)
  ultimately show ?thesis using base unfolding srv_base_def k fo same by simp
qed

text \<open>Leaving the map.\<close>

lemma srv_inv_erase:
  assumes inv: "srv_inv \<phi> w" and c: "c < length (nt_conns w)" and l: "\<phi> c = Limbo"
  shows "srv_inv (\<phi>(c := Leaving)) (w\<lparr>sv_connections := alist_erase (tc_name (conn w c)) (sv_connections w)\<rparr>)"
    (is "srv_inv _ ?w")
proof -
  have base: "srv_base w" and phases: "\<And>d. d < length (nt_conns w) \<Longrightarrow> conn_phase w d (\<phi> d)"
    using inv by (simp_all add: srv_inv_def)
  note nm = srv_baseD(4) [OF base]
  have k: "conn ?w d = conn w d" "lookup_loop ?w i = lookup_loop w i" "queue_of ?w i = queue_of w i" "jobs ?w i f = jobs w i f" for d i f
    by (simp_all add: conn_def lookup_loop_def queue_of_def jobs_def)
  have b: "srv_base ?w" by (rule srv_base_cong [OF base]) (auto simp: map_of_alist_erase split: if_splits)
  have "conn_phase ?w d ((\<phi>(c := Leaving)) d)" if d: "d < length (nt_conns w)" for d
  proof (cases "d = c")
    case True
    then show ?thesis using phases [OF c] l by (simp add: conn_phase_def mapped_def k map_of_alist_erase)
  next
    case False
    then have "tc_name (conn w d) \<noteq> tc_name (conn w c)" using name_inj [OF nm d c] by blast
    then show ?thesis using False phases [OF d] by (simp add: conn_phase_def mapped_def k map_of_alist_erase)
  qed
  then show ?thesis using b by (simp add: srv_inv_def)
qed

lemma srv_inv_idle:
  assumes inv: "srv_inv \<phi> w"
  shows "srv_inv \<phi> (w\<lparr>sv_idleFd := fd\<rparr>)"
proof -
  have base: "srv_base w" and phases: "\<And>d. d < length (nt_conns w) \<Longrightarrow> conn_phase w d (\<phi> d)"
    using inv by (simp_all add: srv_inv_def)
  have "srv_base (w\<lparr>sv_idleFd := fd\<rparr>)" by (rule srv_base_cong [OF base]) auto
  then show ?thesis using phases
    by (simp add: srv_inv_def conn_phase_def mapped_def jobs_def queue_of_def lookup_loop_def conn_def)
qed

lemma removeConnectionInLoop_limbo:
  assumes inv: "srv_inv \<phi> w" and c: "c < length (nt_conns w)" and l: "\<phi> c = Limbo"
  shows "\<exists>w'. removeConnectionInLoop me c w = Inr w' \<and> srv_inv (\<phi>(c := Unmapped)) w'"
proof -
  let ?w = "w\<lparr>sv_connections := alist_erase (tc_name (conn w c)) (sv_connections w)\<rparr>"
  have k: "conn ?w d = conn w d" for d by (simp add: conn_def)
  note e = srv_inv_erase [OF inv c l]
  have i: "tc_loop (conn w c) < length (nt_loops ?w)" using srv_invD(2) [OF inv c] by (simp add: conn_in_def)
  have lv: "conn_phase ?w c Leaving" using srv_invD(4) [OF e, of c] c by simp
  have m: "mapped w c" using srv_invD(4) [OF inv c] l by (simp add: conn_phase_def)
  then have eq: "removeConnectionInLoop me c w = Inr (queue_in me (tc_loop (conn w c)) (ConnectDestroyed c) ?w)"
    by (simp add: removeConnectionInLoop_def cpp_assert_def mapped_def)
  have "srv_inv (\<phi>(c := Unmapped)) (queue_in me (tc_loop (conn w c)) (ConnectDestroyed c) ?w)"
  proof (rule srv_inv_queue_in [OF e i])
    show "functor_ok ?w (tc_loop (conn w c)) (ConnectDestroyed c)" using c by (simp add: k)
    show "conn_phase (queue_in me (tc_loop (conn w c)) (ConnectDestroyed c) ?w) d ((\<phi>(c := Unmapped)) d)"
      if "life_of (ConnectDestroyed c) = Some d" for d
    proof -
      have "d = c" using that by simp
      then show ?thesis using lv i by (simp add: conn_phase_def mapped_def jobs_queue_in k)
    qed
  qed auto
  then show ?thesis using eq by blast
qed

lemma removeConnection_limbo:
  assumes inv: "srv_inv \<phi> w" and c: "c < length (nt_conns w)" and l: "\<phi> c = Limbo"
  shows "\<exists>w' ph. removeConnection me c w = Inr w' \<and> srv_inv (\<phi>(c := ph)) w' \<and> ph \<in> {Closing, Unmapped}"
proof (cases "me = Some 0")
  case True
  then show ?thesis using removeConnectionInLoop_limbo [OF inv c l, of me] by (auto simp: removeConnection_def)
next
  case False
  have i: "0 < length (nt_loops w)" using srv_baseD(2) [OF srv_invD(1) [OF inv c]] .
  have lv: "conn_phase w c Limbo" using srv_invD(4) [OF inv c] l by simp
  have "srv_inv (\<phi>(c := Closing)) (queue_in me 0 (RemoveConnectionInLoop c) w)"
  proof (rule srv_inv_queue_in [OF inv i])
    show "functor_ok w 0 (RemoveConnectionInLoop c)" using c by simp
    show "conn_phase (queue_in me 0 (RemoveConnectionInLoop c) w) d ((\<phi>(c := Closing)) d)"
      if "life_of (RemoveConnectionInLoop c) = Some d" for d
      using that lv i by (simp add: conn_phase_def mapped_def jobs_queue_in)
  qed auto
  then show ?thesis using False by (auto simp: removeConnection_def)
qed

section \<open>Operations keep the invariant\<close>

lemma phase_same: "srv_inv \<phi> w \<Longrightarrow> \<phi> c = ph \<Longrightarrow> srv_inv (\<phi>(c := ph)) w"
  by (simp add: fun_upd_idem)

lemma closed_phase:
  assumes "conn_phase w c ph" "ph \<notin> {Starting, Opening, Up}"
  shows "closed (conn w c)" "\<not> isWriting (tc_channel (conn w c))"
proof -
  show "closed (conn w c)" using assms by (cases ph) (simp_all add: conn_phase_def)
  then show "\<not> isWriting (tc_channel (conn w c))" by (simp add: closed_def isWriting_def)
qed

lemma up_phase:
  assumes "conn_phase w c Up"
  shows "live (conn w c)" "up_calls (life_calls (conn w c))" "open_conn (conn w c)" "tc_state (conn w c) \<noteq> kConnecting"
  using assms by (auto simp: conn_phase_def live_def open_conn_def)

lemma srv_inv_up:
  assumes inv: "srv_inv \<phi> w" and c: "c < length (nt_conns w)" and up: "\<phi> c = Up"
    and st: "stays (acc_of w) c w w'" and calls: "up_calls (life_calls (conn w' c))"
  shows "srv_inv \<phi> w'"
proof -
  have p: "conn_phase w c Up" using srv_invD(4) [OF inv c] up by simp
  have "srv_inv (\<phi>(c := Up)) w'"
  proof (rule srv_inv_frame [OF inv _ _ c])
    show "frame c w w'" "pollers_ok (acc_of w) w'" using st by (simp_all add: stays_def)
    show "phase_ok Up (conn w' c) (mapped w c) (jobs w (tc_loop (conn w c)) (ConnectEstablished c))
        (jobs w 0 (RemoveConnectionInLoop c)) (jobs w (tc_loop (conn w c)) (ConnectDestroyed c))"
      using p st calls by (simp add: conn_phase_def stays_def)
    show "open_conn (conn w c)" by (rule up_phase(3) [OF p])
    show "tc_state (conn w' c) \<noteq> kConnecting" using st by (auto simp: stays_def live_def)
  qed
  then show ?thesis using up by (simp add: fun_upd_idem)
qed

lemma put_conn_closed:
  assumes inv: "srv_inv \<phi> w" and c: "c < length (nt_conns w)" and cl: "\<phi> c \<notin> {Starting, Opening}"
    and same: "tc_loop k = tc_loop (conn w c)" "tc_name k = tc_name (conn w c)" "tc_state k = tc_state (conn w c)"
      "nc_fd (tc_channel k) = nc_fd (tc_channel (conn w c))" "nc_index (tc_channel k) = nc_index (tc_channel (conn w c))"
      "nc_events (tc_channel k) = nc_events (tc_channel (conn w c))" "life_calls k = life_calls (conn w c)"
      "tc_outputBuffer k = tc_outputBuffer (conn w c)" "buffer_ok (tc_inputBuffer k) \<or> \<phi> c \<noteq> Up"
  shows "srv_inv \<phi> (put_conn c k w)"
proof -
  have p: "conn_phase w c (\<phi> c)" using srv_invD(4) [OF inv c] .
  have "srv_inv (\<phi>(c := \<phi> c)) (put_conn c k w)"
  proof (rule srv_inv_frame [OF inv _ _ c])
    show "frame c w (put_conn c k w)" by (rule frame_put_conn [OF c]) (use same in auto)
    show "pollers_ok (acc_of w) (put_conn c k w)"
      by (rule pollers_ok_put_conn [OF srv_invD(3) [OF inv c] c]) (use same in auto)
    show "phase_ok (\<phi> c) (conn (put_conn c k w) c) (mapped w c) (jobs w (tc_loop (conn w c)) (ConnectEstablished c))
        (jobs w 0 (RemoveConnectionInLoop c)) (jobs w (tc_loop (conn w c)) (ConnectDestroyed c))"
      using p c cl same by (cases "\<phi> c") (auto simp: conn_phase_def live_def live_events_def closed_def)
    show "open_conn (conn w c)" if "open_conn (conn (put_conn c k w) c)" using that c same by (simp add: open_conn_def)
    show "tc_state (conn (put_conn c k w) c) \<noteq> kConnecting"
      using p c cl same by (cases "\<phi> c") (auto simp: conn_phase_def live_def closed_def)
  qed
  then show ?thesis by simp
qed

lemma set_handling_inv:
  assumes "srv_inv \<phi> w" "c < length (nt_conns w)" "\<phi> c \<notin> {Starting, Opening}"
  shows "srv_inv \<phi> (set_handling c on w)"
proof -
  have "buffer_ok (tc_inputBuffer (conn w c)) \<or> \<phi> c \<noteq> Up"
    using up_phase(1) [of w c] srv_invD(4) [OF assms(1,2)] by (auto simp: live_def)
  then show ?thesis unfolding set_handling_def by (intro put_conn_closed [OF assms]) (simp_all add: life_calls_def)
qed

lemma handleClose_live:
  assumes kern: "kernel_obeys kern" and ok: "pollers_ok acc w" and c: "conn_in w c" and l: "live (conn w c)"
  shows "\<exists>w1. handleClose kern cb c w = cb c w1 \<and> frame c w w1 \<and> pollers_ok acc w1 \<and>
    conn w1 c = conn w c\<lparr>tc_state := kDisconnected, tc_channel := settle DisableAll (tc_channel (conn w c)),
      tc_calls := tc_calls (conn w c) @ [ConnectionCallback False, CloseCallback]\<rparr>"
proof -
  let ?k = "conn w c"
  define w1 where "w1 = setState kDisconnected c w"
  have b: "c < length (nt_conns w)" using c by (simp add: conn_in_def)
  have k1: "conn w1 c = ?k\<lparr>tc_state := kDisconnected\<rparr>" "conn_in w1 c"
    using b c by (simp_all add: w1_def setState_def conn_in_def)
  have ok1: "pollers_ok acc w1" unfolding w1_def setState_def by (rule pollers_ok_put_conn [OF ok b]) simp_all
  have fr1: "frame c w w1" unfolding w1_def setState_def by (rule frame_put_conn [OF b]) simp_all
  have "nc_index (tc_channel (conn w1 c)) \<noteq> kNew" using l k1 by (simp add: live_def)
  then obtain po where po: "on_channel (ask DisableAll kern) c w1 = Inr (asked DisableAll c po w1)"
      "pollers_ok acc (asked DisableAll c po w1)"
    using on_channel_ask [OF kern ok1 k1(2), of DisableAll] by auto
  let ?w2 = "asked DisableAll c po w1"
  have fr2: "frame c w ?w2" by (rule frame_trans [OF fr1 frame_asked [OF k1(2)]])
  have c2: "c < length (nt_conns ?w2)" using fr2 b by (simp add: frame_def)
  have k2: "conn ?w2 c = ?k\<lparr>tc_state := kDisconnected, tc_channel := settle DisableAll (tc_channel ?k)\<rparr>"
    using conn_asked [OF k1(2)] k1(1) by simp
  let ?k3 = "conn ?w2 c\<lparr>tc_calls := tc_calls (conn ?w2 c) @ [ConnectionCallback False, CloseCallback]\<rparr>"
  have eq: "handleClose kern cb c w = cb c (put_conn c ?k3 ?w2)"
    using l po(1) k2 c2 by (simp add: handleClose_def cpp_assert_def live_def w1_def ask_simps connectionCallback_def add_call_def)
  have fr3: "frame c w (put_conn c ?k3 ?w2)" by (rule frame_trans [OF fr2 frame_put_conn [OF c2]]) simp_all
  have ok3: "pollers_ok acc (put_conn c ?k3 ?w2)" by (rule pollers_ok_put_conn [OF po(2) c2]) simp_all
  show ?thesis using eq fr3 ok3 c2 k2 by (intro exI [of _ "put_conn c ?k3 ?w2"]) simp
qed

lemma handleClose_up:
  assumes kern: "kernel_obeys kern" and inv: "srv_inv \<phi> w" and c: "c < length (nt_conns w)" and up: "\<phi> c = Up"
  shows "\<exists>w' ph. handleClose kern (removeConnection me) c w = Inr w' \<and> srv_inv (\<phi>(c := ph)) w' \<and> ph \<in> {Closing, Unmapped}"
proof -
  have p: "conn_phase w c Up" using srv_invD(4) [OF inv c] up by simp
  note u = up_phase [OF p]
  obtain w1 where w1: "handleClose kern (removeConnection me) c w = removeConnection me c w1" "frame c w w1" "pollers_ok (acc_of w) w1"
      "conn w1 c = conn w c\<lparr>tc_state := kDisconnected, tc_channel := settle DisableAll (tc_channel (conn w c)),
        tc_calls := tc_calls (conn w c) @ [ConnectionCallback False, CloseCallback]\<rparr>"
    using handleClose_live [OF kern srv_invD(3,2) [OF inv c] u(1)] by blast
  have cl: "closed (conn w1 c)" "nc_index (tc_channel (conn w1 c)) = kDeleted"
    using u(1,2) unfolding w1(4)
    by (auto simp: closed_def life_calls_def up_calls_def down_calls_def NoneEvent_def settle_def after_update_def isNoneEvent_def live_def)
  have "srv_inv (\<phi>(c := Limbo)) w1"
  proof (rule srv_inv_frame [OF inv w1(2,3) c])
    show "phase_ok Limbo (conn w1 c) (mapped w c) (jobs w (tc_loop (conn w c)) (ConnectEstablished c))
        (jobs w 0 (RemoveConnectionInLoop c)) (jobs w (tc_loop (conn w c)) (ConnectDestroyed c))"
      using p cl by (simp add: conn_phase_def)
    show "open_conn (conn w c)" by (rule u(3))
    show "tc_state (conn w1 c) \<noteq> kConnecting" using cl(1) by (simp add: closed_def)
  qed
  moreover have "c < length (nt_conns w1)" using c frame_conn(5) [OF w1(2)] by simp
  ultimately show ?thesis using removeConnection_limbo [of "\<phi>(c := Limbo)" w1 c me] w1(1) by auto
qed

lemma life_calls_same: "tc_calls k' = tc_calls k \<Longrightarrow> life_calls k' = life_calls k"
  by (simp add: life_calls_def)

lemma handleWrite_any:
  assumes kern: "kernel_obeys kern" and inv: "srv_inv \<phi> w" and c: "c < length (nt_conns w)"
    and ph: "\<phi> c \<notin> {Starting, Opening}" and wr: "write_sane wr"
  shows "\<exists>w'. handleWrite kern wr me c w = Inr w' \<and> srv_inv \<phi> w'"
proof (cases "\<phi> c = Up")
  case True
  then have u: "live (conn w c)" "up_calls (life_calls (conn w c))" using up_phase srv_invD(4) [OF inv c] by auto
  obtain w' where w': "handleWrite kern wr me c w = Inr w'" "stays (acc_of w) c w w'" "rest_same (conn w c) (conn w' c)"
    using handleWrite_live [OF kern srv_invD(3,2) [OF inv c] u(1) wr] by blast
  then have "up_calls (life_calls (conn w' c))" using u(2) by (simp add: rest_same_def life_calls_def)
  then show ?thesis using w' srv_inv_up [OF inv c True] by blast
next
  case False
  then have "\<not> isWriting (tc_channel (conn w c))" using closed_phase(2) [OF srv_invD(4) [OF inv c]] ph by simp
  then show ?thesis using inv by (simp add: handleWrite_def)
qed

lemma sendInLoop_any:
  assumes kern: "kernel_obeys kern" and inv: "srv_inv \<phi> w" and c: "c < length (nt_conns w)"
    and ph: "\<phi> c \<notin> {Starting, Opening}" and wr: "write_sane wr"
  shows "\<exists>w'. sendInLoop kern wr me c data w = Inr w' \<and> srv_inv \<phi> w'"
proof (cases "\<phi> c = Up")
  case True
  then have u: "live (conn w c)" "up_calls (life_calls (conn w c))" using up_phase srv_invD(4) [OF inv c] by auto
  obtain w' where w': "sendInLoop kern wr me c data w = Inr w'" "stays (acc_of w) c w w'" "rest_same (conn w c) (conn w' c)"
    using sendInLoop_live [OF kern srv_invD(3,2) [OF inv c] u(1) wr] by blast
  then have "up_calls (life_calls (conn w' c))" using u(2) by (simp add: rest_same_def life_calls_def)
  then show ?thesis using w' srv_inv_up [OF inv c True] by blast
next
  case False
  then have "closed (conn w c)" using closed_phase(1) [OF srv_invD(4) [OF inv c]] ph by simp
  then show ?thesis using inv by (simp add: sendInLoop_def closed_def)
qed

lemma shutdownInLoop_any:
  assumes inv: "srv_inv \<phi> w" and c: "c < length (nt_conns w)" and ph: "\<phi> c \<notin> {Starting, Opening}"
  shows "srv_inv \<phi> (shutdownInLoop c w)"
proof -
  have "buffer_ok (tc_inputBuffer (conn w c)) \<or> \<phi> c \<noteq> Up"
    using up_phase(1) [of w c] srv_invD(4) [OF inv c] by (auto simp: live_def)
  then have "srv_inv \<phi> (put_conn c (conn w c\<lparr>tc_writeShut := True\<rparr>) w)"
    by (intro put_conn_closed [OF inv c ph]) (simp_all add: life_calls_def)
  then show ?thesis using inv by (simp add: shutdownInLoop_def)
qed

lemma state_phase:
  assumes "srv_inv \<phi> w" "c < length (nt_conns w)"
  shows "tc_state (conn w c) = kConnected \<or> tc_state (conn w c) = kDisconnecting \<longleftrightarrow> \<phi> c = Up"
    "tc_state (conn w c) = kConnecting \<longleftrightarrow> \<phi> c \<in> {Starting, Opening}"
  using srv_invD(4) [OF assms] by (cases "\<phi> c"; auto simp: conn_phase_def fresh_def live_def closed_def)+

lemma setState_up:
  assumes inv: "srv_inv \<phi> w" and c: "c < length (nt_conns w)" and up: "\<phi> c = Up"
  shows "srv_inv \<phi> (setState kDisconnecting c w)"
proof -
  have p: "live (conn w c)" "up_calls (life_calls (conn w c))" using up_phase srv_invD(4) [OF inv c] up by auto
  have "stays (acc_of w) c w (setState kDisconnecting c w)"
    unfolding setState_def
    by (rule stays_put_conn [OF srv_invD(3,2) [OF inv c]]) (use p in \<open>simp_all add: live_def live_events_def\<close>)
  then show ?thesis by (rule srv_inv_up [OF inv c up]) (use p c in \<open>simp add: setState_def life_calls_def\<close>)
qed

lemma forceCloseInLoop_any:
  assumes kern: "kernel_obeys kern" and inv: "srv_inv \<phi> w" and c: "c < length (nt_conns w)"
  shows "\<exists>w' ph. forceCloseInLoop kern (removeConnection me) c w = Inr w' \<and> srv_inv (\<phi>(c := ph)) w' \<and>
    (ph = \<phi> c \<or> ph \<in> {Closing, Unmapped})"
proof (cases "\<phi> c = Up")
  case True
  then show ?thesis
    using handleClose_up [OF kern inv c True, of me] state_phase(1) [OF inv c] by (auto simp: forceCloseInLoop_def)
next
  case False
  then show ?thesis using state_phase(1) [OF inv c] inv by (intro exI [of _ w] exI [of _ "\<phi> c"]) (auto simp: forceCloseInLoop_def)
qed

lemma fd_unregistered:
  assumes base: "srv_base w" and c: "c < length (nt_conns w)" and o: "open_conn (conn w c)"
    and new: "nc_index (tc_channel (conn w c)) = kNew"
  shows "map_of (po_channels (lp_poller (lookup_loop w (tc_loop (conn w c))))) (nc_fd (tc_channel (conn w c))) = None"
proof (rule ccontr)
  let ?i = "tc_loop (conn w c)"
  assume "\<not> ?thesis"
  then obtain p where p: "map_of (po_channels (lp_poller (lookup_loop w ?i))) (nc_fd (tc_channel (conn w c))) = Some p" by auto
  have i: "?i < length (nt_loops w)" using srv_conn_in [OF base c] by (simp add: conn_in_def)
  have pok: "poller_ok (chan_at (acc_of w) w ?i) (lp_poller (lookup_loop w ?i))"
    using srv_baseD(3) [OF base] i unfolding pollers_ok_def by blast
  obtain ch where ch: "chan_at (acc_of w) w ?i p = Some ch" "nc_fd ch = nc_fd (tc_channel (conn w c))" "nc_index ch \<noteq> kNew"
    using p [unfolded poller_okD(1) [OF pok]] by blast
  have f: "nc_fd (tc_channel (conn w c)) \<noteq> nc_fd (sv_acceptChannel w)"
      "nc_fd (tc_channel (conn w c)) \<noteq> nc_fd (lp_wakeupChannel (lookup_loop w ?i))"
      "d < length (nt_conns w) \<Longrightarrow> d \<noteq> c \<Longrightarrow> open_conn (conn w d) \<Longrightarrow> nc_fd (tc_channel (conn w c)) \<noteq> nc_fd (tc_channel (conn w d))" for d
    using srv_baseD(5) [OF base] c o i unfolding fds_ok_def by blast+
  show False
  proof (cases p)
    case WakeupChannel
    then show False using ch f(2) by (simp add: chan_at_def)
  next
    case AcceptChannel
    then show False using ch f(1) by (simp add: chan_at_def acc_of_def split: if_splits)
  next
    case (ConnChannel d)
    then have d: "d < length (nt_conns w)" "ch = tc_channel (conn w d)" using ch(1) by (simp_all add: chan_at_def split: if_splits)
    then have "d \<noteq> c" "open_conn (conn w d)" using ch(3) new by (auto simp: open_conn_def)
    then show False using f(3) [OF d(1)] ch(2) d(2) by simp
  qed
qed

lemma connectEstablished_starting:
  assumes kern: "kernel_obeys kern" and inv: "srv_inv \<phi> w" and c: "c < length (nt_conns w)" and s: "\<phi> c = Starting"
  shows "\<exists>w'. connectEstablished kern c w = Inr w' \<and> srv_inv (\<phi>(c := Up)) w'"
proof -
  have p: "conn_phase w c Starting" using srv_invD(4) [OF inv c] s by simp
  then have f: "fresh (conn w c)" by (simp add: conn_phase_def)
  then have o: "open_conn (conn w c)" "nc_index (tc_channel (conn w c)) = kNew" by (simp_all add: fresh_def open_conn_def)
  obtain w' where w': "connectEstablished kern c w = Inr w'" "stays (acc_of w) c w w'"
      "conn w' c = conn w c\<lparr>tc_state := kConnected, tc_channel := settle EnableReading (tc_channel (conn w c)),
        tc_calls := [ConnectionCallback True]\<rparr>"
    using connectEstablished_fresh [OF kern srv_invD(3,2) [OF inv c] f fd_unregistered [OF srv_invD(1) [OF inv c] c o]] by blast
  have "srv_inv (\<phi>(c := Up)) w'"
  proof (rule srv_inv_frame [OF inv _ _ c])
    show "frame c w w'" "pollers_ok (acc_of w) w'" using w'(2) by (simp_all add: stays_def)
    show "phase_ok Up (conn w' c) (mapped w c) (jobs w (tc_loop (conn w c)) (ConnectEstablished c))
        (jobs w 0 (RemoveConnectionInLoop c)) (jobs w (tc_loop (conn w c)) (ConnectDestroyed c))"
      using p w'(2,3) by (simp add: conn_phase_def stays_def life_calls_def up_calls_def)
    show "open_conn (conn w c)" by (rule o(1))
    show "tc_state (conn w' c) \<noteq> kConnecting" using w'(3) by simp
  qed
  then show ?thesis using w'(1) by blast
qed

lemma connectDestroyed_leaving:
  assumes kern: "kernel_obeys kern" and inv: "srv_inv \<phi> w" and c: "c < length (nt_conns w)" and s: "\<phi> c = Leaving"
    and idle: "\<not> lp_eventHandling (lookup_loop w (tc_loop (conn w c)))"
  shows "\<exists>w'. connectDestroyed kern c w = Inr w' \<and> srv_inv (\<phi>(c := Gone)) w'"
proof -
  let ?k = "conn w c" and ?i = "tc_loop (conn w c)"
  let ?l = "lookup_loop w ?i" and ?ch = "tc_channel (conn w c)\<lparr>nc_addedToLoop := False\<rparr>"
  have p: "conn_phase w c Leaving" using srv_invD(4) [OF inv c] s by simp
  have cl: "closed ?k" "nc_index (tc_channel ?k) = kDeleted" using p by (simp_all add: conn_phase_def)
  have b: "c < length (nt_conns w)" "?i < length (nt_loops w)" using srv_invD(2) [OF inv c] by (simp_all add: conn_in_def)
  have none: "isNoneEvent ?ch" "isNoneEvent (tc_channel ?k)" using cl(1) by (simp_all add: closed_def isNoneEvent_def NoneEvent_def)
  have pok: "poller_ok (chan_at (acc_of w) w ?i) (lp_poller ?l)" using srv_invD(3) [OF inv c] b unfolding pollers_ok_def by blast
  obtain po where po: "removeChannel kern (ConnChannel c) ?ch (lp_poller ?l) = Inr (?ch\<lparr>nc_index := kNew\<rparr>, po)"
      "poller_ok ((chan_at (acc_of w) w ?i)(ConnChannel c \<mapsto> ?ch\<lparr>nc_index := kNew\<rparr>)) po"
    using removeChannel_ok [OF kern pok chan_at_conn [OF b(1)], of ?ch] cl(2) none by auto
  let ?k' = "?k\<lparr>tc_channel := ?ch\<lparr>nc_index := kNew\<rparr>\<rparr>"
  let ?w = "put_conn c ?k' (put_loop ?i (?l\<lparr>lp_poller := po\<rparr>) w)"
  have eq: "connectDestroyed kern c w = Inr ?w"
    using cl none po(1) idle
    by (simp add: connectDestroyed_def closed_def remove_channel_def Let_def channel_remove_def loop_removeChannel_def cpp_assert_def)
  have fr: "frame c w ?w" by (rule frame_trans [OF frame_poller [OF b(2)] frame_put_conn]) (use b in auto)
  have pw: "pollers_ok (acc_of w) ?w"
    unfolding pollers_ok_def
  proof (intro allI impI)
    fix j assume j: "j < length (nt_loops ?w)"
    have "chan_at (acc_of w) ?w j = (if j = ?i then (chan_at (acc_of w) w j)(ConnChannel c \<mapsto> ?ch\<lparr>nc_index := kNew\<rparr>) else chan_at (acc_of w) w j)"
      using chan_at_set [OF b, of ?k' "?l\<lparr>lp_poller := po\<rparr>" "acc_of w" j] by simp
    then show "poller_ok (chan_at (acc_of w) ?w j) (lp_poller (lookup_loop ?w j))"
      using po(2) srv_invD(3) [OF inv c] j b by (auto simp: pollers_ok_def)
  qed
  have k': "conn ?w c = ?k'" using b by simp
  have "srv_inv (\<phi>(c := Gone)) ?w"
  proof (rule srv_inv_frame [OF inv fr pw c])
    show "phase_ok Gone (conn ?w c) (mapped w c) (jobs w (tc_loop (conn w c)) (ConnectEstablished c))
        (jobs w 0 (RemoveConnectionInLoop c)) (jobs w (tc_loop (conn w c)) (ConnectDestroyed c))"
      using p unfolding k' by (simp add: conn_phase_def closed_def life_calls_def)
    show "open_conn (conn w c)" if "open_conn (conn ?w c)" using that cl unfolding k' by (simp add: open_conn_def closed_def)
    show "tc_state (conn ?w c) \<noteq> kConnecting" using cl(1) unfolding k' by (simp add: closed_def)
  qed
  then show ?thesis using eq by blast
qed

lemma up_calls_message: "up_calls (life_calls k) \<Longrightarrow> up_calls (life_calls (k\<lparr>tc_calls := tc_calls k @ [MessageCallback str]\<rparr>))"
  by (auto simp: up_calls_def life_calls_def intro: exI [of _ "_ @ [str]"])

lemma handleRead_up:
  assumes kern: "kernel_obeys kern" and inv: "srv_inv \<phi> w" and c: "c < length (nt_conns w)" and up: "\<phi> c = Up"
    and rd: "readv_sane rd"
  shows "\<exists>w' ph. handleRead kern retrieveAllAsString rd (removeConnection me) c w = Inr w' \<and> srv_inv (\<phi>(c := ph)) w' \<and>
    ph \<in> {Up, Closing, Unmapped}"
proof -
  let ?k = "conn w c"
  have u: "live ?k" "up_calls (life_calls ?k)" using up_phase srv_invD(4) [OF inv c] up by auto
  have ib: "buffer_ok (tc_inputBuffer ?k)" using u(1) by (simp add: live_def)
  have keep: "srv_inv \<phi> (put_conn c (?k\<lparr>tc_inputBuffer := b, tc_calls := cs\<rparr>) w)"
    if "buffer_ok b" "up_calls (life_calls (?k\<lparr>tc_calls := cs\<rparr>))" for b cs
  proof -
    have "stays (acc_of w) c w (put_conn c (?k\<lparr>tc_inputBuffer := b, tc_calls := cs\<rparr>) w)"
      by (rule stays_put_conn [OF srv_invD(3,2) [OF inv c]]) (use u(1) that in \<open>simp_all add: live_def live_events_def\<close>)
    then show ?thesis by (rule srv_inv_up [OF inv c up]) (use that c in \<open>simp add: life_calls_def\<close>)
  qed
  show ?thesis
  proof (cases "\<exists>data. rd = kernel_readv data")
    case False
    then obtain err where err: "rd = (\<lambda>_. Inl err)" using rd by (auto simp: readv_sane_def)
    have "srv_inv \<phi> (put_conn c (?k\<lparr>tc_inputBuffer := tc_inputBuffer ?k\<rparr>) w)" using keep [OF ib, of "tc_calls ?k"] u(2) by simp
    then show ?thesis using err up
      by (intro exI [of _ "put_conn c (?k\<lparr>tc_inputBuffer := tc_inputBuffer ?k\<rparr>) w"] exI [of _ Up])
        (simp add: handleRead_def readFd_def Let_def handleError_def fun_upd_idem)
  next
    case True
    then obtain data where data: "rd = kernel_readv data" by blast
    define d where "d = take (read_room (tc_inputBuffer ?k)) data"
    obtain b1 where b1: "readFd rd (tc_inputBuffer ?k) = Inr (int (length d), None, b1)" "buffer_ok b1"
        "contents b1 = contents (tc_inputBuffer ?k) @ d"
      using readFd_bytes [OF ib, of rd data] by (auto simp: data kernel_readv_def d_def)
    show ?thesis
    proof (cases "d = []")
      case True
      let ?w1 = "put_conn c (?k\<lparr>tc_inputBuffer := b1\<rparr>) w"
      have "srv_inv \<phi> ?w1" using keep [OF b1(2), of "tc_calls ?k"] u(2) by simp
      then obtain w' ph where "handleClose kern (removeConnection me) c ?w1 = Inr w'" "srv_inv (\<phi>(c := ph)) w'" "ph \<in> {Closing, Unmapped}"
        using handleClose_up [OF kern, of \<phi> ?w1 c me] c up by auto
      then show ?thesis using b1(1) True by (intro exI [of _ w'] exI [of _ ph]) (simp add: handleRead_def Let_def)
    next
      case False
      obtain b2 where b2: "retrieveAllAsString b1 = Inr (contents b1, b2)" "buffer_ok b2"
        using retrieveAsString_bytes(1) [OF b1(2), of "length (contents b1)"] length_contents [OF b1(2)]
        by (auto simp: retrieveAllAsString_def)
      let ?w2 = "put_conn c (?k\<lparr>tc_inputBuffer := b2, tc_calls := tc_calls ?k @ [MessageCallback (contents b1)]\<rparr>) w"
      have "srv_inv \<phi> ?w2" by (rule keep [OF b2(2) up_calls_message [OF u(2)]])
      moreover have "handleRead kern retrieveAllAsString rd (removeConnection me) c w = Inr ?w2"
        using b1(1) b2(1) False c by (simp add: handleRead_def Let_def add_call_def)
      ultimately show ?thesis using up by (intro exI [of _ ?w2] exI [of _ Up]) (simp add: fun_upd_idem)
    qed
  qed
qed

lemma and_mask: "(r :: 'a::len word) AND NOT m = 0 \<Longrightarrow> r AND m = r"
proof -
  assume r: "r AND NOT m = 0"
  have "r = (r AND m) OR (r AND NOT m)" by (simp flip: bit.conj_disj_distrib)
  then show ?thesis using r by simp
qed

lemma no_stray_events:
  assumes "nc_events (tc_channel k) = live_events k" "revents AND NOT (nc_events (tc_channel k) OR POLLERR OR POLLHUP) = 0"
  shows "revents AND (POLLIN OR POLLPRI OR POLLRDHUP) = revents AND POLLIN"
proof -
  let ?m = "nc_events (tc_channel k) OR POLLERR OR POLLHUP"
  have m: "?m AND (POLLIN OR POLLPRI OR POLLRDHUP) = POLLIN" "?m AND POLLIN = POLLIN"
    using assms(1) by (auto simp: live_events_def ReadEvent_def WriteEvent_def POLLIN_def POLLOUT_def POLLPRI_def POLLRDHUP_def
        POLLERR_def POLLHUP_def)
  have "revents AND (POLLIN OR POLLPRI OR POLLRDHUP) = (revents AND ?m) AND (POLLIN OR POLLPRI OR POLLRDHUP)"
    using and_mask [OF assms(2)] by simp
  also have "\<dots> = revents AND POLLIN" by (simp only: and.assoc m(1))
  finally show ?thesis .
qed

lemma reportable_up:
  assumes inv: "srv_inv \<phi> w" and i: "i < length (nt_loops w)"
    and r: "reportable (lp_poller (lookup_loop w i)) revents (ConnChannel c)"
  shows "c < length (nt_conns w)" "tc_loop (conn w c) = i" "\<phi> c = Up"
    "revents AND (POLLIN OR POLLPRI OR POLLRDHUP) = revents AND POLLIN"
proof -
  have base: "srv_base w" using inv by (simp add: srv_inv_def)
  have pok: "poller_ok (chan_at (acc_of w) w i) (lp_poller (lookup_loop w i))"
    using srv_baseD(3) [OF base] i unfolding pollers_ok_def by blast
  obtain fd ev where ev: "interest (po_ctl (lp_poller (lookup_loop w i))) fd = Some (ev, ConnChannel c)"
      "revents AND NOT (ev OR POLLERR OR POLLHUP) = 0"
    using r unfolding reportable_def by blast
  obtain ch where ch: "chan_at (acc_of w) w i (ConnChannel c) = Some ch" "nc_index ch = kAdded" "nc_events ch = ev"
    using ev(1) [unfolded poller_okD(2) [OF pok]] by blast
  show c: "c < length (nt_conns w)" and "tc_loop (conn w c) = i" using ch(1) by (simp_all add: chan_at_def split: if_splits)
  have k: "ch = tc_channel (conn w c)" using ch(1) by (simp add: chan_at_def split: if_splits)
  show up: "\<phi> c = Up"
    using srv_invD(4) [OF inv c] ch(2) k by (cases "\<phi> c") (auto simp: conn_phase_def fresh_def)
  have "live (conn w c)" using up_phase(1) srv_invD(4) [OF inv c] up by auto
  then show "revents AND (POLLIN OR POLLPRI OR POLLRDHUP) = revents AND POLLIN"
    using no_stray_events [of "conn w c" revents] ev(2) ch(3) k by (simp add: live_def)
qed

lemma same_count:
  "on_channel f c w = Inr w' \<Longrightarrow> length (nt_conns w') = length (nt_conns w)"
  "removeConnection me c v = Inr v' \<Longrightarrow> length (nt_conns v') = length (nt_conns v)"
  "handleClose kern (removeConnection me) c v = Inr v' \<Longrightarrow> length (nt_conns v') = length (nt_conns v)"
  "handleRead kern cb rd (removeConnection me) c v = Inr v' \<Longrightarrow> length (nt_conns v') = length (nt_conns v)"
  "handleWrite kern wr me c w = Inr w' \<Longrightarrow> length (nt_conns w') = length (nt_conns w)"
proof -
  show ch: "on_channel f c w = Inr w' \<Longrightarrow> length (nt_conns w') = length (nt_conns w)" for f and w w' :: "'z net_scheme"
    by (auto simp: on_channel_def Let_def then_do_def split: sum.splits)
  have rm: "removeConnection me c v = Inr v' \<Longrightarrow> length (nt_conns v') = length (nt_conns v)" for v v'
    by (auto simp: removeConnection_def removeConnectionInLoop_def cpp_assert_def Let_def split: if_splits)
  then show "removeConnection me c v = Inr v' \<Longrightarrow> length (nt_conns v') = length (nt_conns v)" .
  have cl: "handleClose kern (removeConnection me) c v = Inr v' \<Longrightarrow> length (nt_conns v') = length (nt_conns v)" for v v'
    by (auto simp: handleClose_def cpp_assert_def then_do_def connectionCallback_def add_call_def setState_def
        split: if_splits sum.splits dest!: rm ch)
  then show "handleClose kern (removeConnection me) c v = Inr v' \<Longrightarrow> length (nt_conns v') = length (nt_conns v)" .
  show "handleRead kern cb rd (removeConnection me) c v = Inr v' \<Longrightarrow> length (nt_conns v') = length (nt_conns v)"
    by (auto simp: handleRead_def then_do_def Let_def add_call_def handleError_def split: if_splits sum.splits dest!: cl)
  show "handleWrite kern wr me c w = Inr w' \<Longrightarrow> length (nt_conns w') = length (nt_conns w)"
    by (auto simp: handleWrite_def then_do_def Let_def shutdownInLoop_def split: if_splits sum.splits dest!: ch)
qed

lemma conn_event_ok:
  assumes kern: "kernel_obeys kern" and inv: "srv_inv \<phi> w" and i: "i < length (nt_loops w)"
    and r: "reportable (lp_poller (lookup_loop w i)) revents (ConnChannel c)" and wr: "write_sane wr" and rd: "readv_sane rd"
  shows "\<exists>w' ph. conn_event kern retrieveAllAsString wr rd (removeConnection me) me c revents w = Inr w' \<and>
    srv_inv (\<phi>(c := ph)) w' \<and> ph \<in> {Up, Closing, Unmapped}"
proof -
  note u = reportable_up [OF inv i r]
  let ?w1 = "set_handling c True w"
  have i1: "srv_inv \<phi> ?w1" by (rule set_handling_inv [OF inv u(1)]) (simp add: u(3))
  have c1: "c < length (nt_conns ?w1)" using u(1) by (simp add: set_handling_def)
  have first: "\<exists>w2 ph. then_do (call_if (revents AND POLLHUP \<noteq> 0 \<and> revents AND POLLIN = 0)
      (Some (handleClose kern (removeConnection me) c)) ?w1) (\<lambda>s.
        call_if (revents AND POLLIN \<noteq> 0) (Some (handleRead kern retrieveAllAsString rd (removeConnection me) c)) s) = Inr w2 \<and>
      srv_inv (\<phi>(c := ph)) w2 \<and> ph \<in> {Up, Closing, Unmapped}"
  proof (cases "revents AND POLLIN = 0")
    case True
    have "srv_inv (\<phi>(c := Up)) ?w1" using phase_same [OF i1 u(3)] .
    then show ?thesis using True handleClose_up [OF kern i1 c1 u(3), of me] by (auto simp: call_if_def)
  next
    case False
    then show ?thesis using handleRead_up [OF kern i1 c1 u(3) rd, of me] by (simp add: call_if_def)
  qed
  then obtain w2 ph where w2: "then_do (call_if (revents AND POLLHUP \<noteq> 0 \<and> revents AND POLLIN = 0)
      (Some (handleClose kern (removeConnection me) c)) ?w1) (\<lambda>s.
        call_if (revents AND POLLIN \<noteq> 0) (Some (handleRead kern retrieveAllAsString rd (removeConnection me) c)) s) = Inr w2"
      "srv_inv (\<phi>(c := ph)) w2" "ph \<in> {Up, Closing, Unmapped}" by blast
  have c2: "c < length (nt_conns w2)"
    using w2(1) c1 same_count(3) [of kern me c ?w1] same_count(4) [of kern retrieveAllAsString rd me c]
    by (auto simp: call_if_def then_do_def split: if_splits sum.splits)
  obtain w3 where w3: "call_if (revents AND POLLOUT \<noteq> 0) (Some (handleWrite kern wr me c)) w2 = Inr w3" "srv_inv (\<phi>(c := ph)) w3"
      "length (nt_conns w3) = length (nt_conns w2)"
  proof (cases "revents AND POLLOUT \<noteq> 0")
    case True
    obtain v where v: "handleWrite kern wr me c w2 = Inr v" "srv_inv (\<phi>(c := ph)) v"
      using handleWrite_any [OF kern w2(2) c2 _ wr, of me] w2(3) by auto
    show ?thesis using that [of v] True v same_count(5) [OF v(1)] by (simp add: call_if_def)
  qed (use that w2(2) in \<open>simp add: call_if_def\<close>)
  have "srv_inv (\<phi>(c := ph)) (set_handling c False w3)"
    by (rule set_handling_inv [OF w3(2)]) (use c2 w3(3) w2(3) in auto)
  moreover have "conn_event kern retrieveAllAsString wr rd (removeConnection me) me c revents w = Inr (set_handling c False w3)"
    using w2(1) w3(1) u(4)
    by (auto simp: conn_event_def handleEvent_def handleError_def call_if_def then_do_def split: if_splits sum.splits)
  ultimately show ?thesis using w2(3) by blast
qed


section \<open>Accepting\<close>

lemma turn_next:
  assumes "0 < n" "n \<noteq> 1" "next = c mod (n - 1)"
  shows "Suc next = turn n c" "(if n - 1 \<le> Suc next then 0 else Suc next) = Suc c mod (n - 1)"
proof -
  show "Suc next = turn n c" using assms by (simp add: turn_def)
  have "next < n - 1" using assms by simp
  moreover have "Suc c mod (n - 1) = (if Suc (c mod (n - 1)) = n - 1 then 0 else Suc (c mod (n - 1)))" by (rule mod_Suc)
  ultimately show "(if n - 1 \<le> Suc next then 0 else Suc next) = Suc c mod (n - 1)" using assms(3) by auto
qed

text \<open>The state in which the new connection exists but \<open>connectEstablished\<close> has not been arranged for.\<close>

definition added :: "int \<Rightarrow> server \<Rightarrow> server" where
  "added sockfd w =
     (let n = length (nt_loops w); c = length (nt_conns w); name = conn_name w (sv_nextConnId w)
      in w\<lparr>sv_next := (if n = 1 then 0 else Suc c mod (n - 1)), sv_nextConnId := sv_nextConnId w + 1,
           nt_conns := nt_conns w @ [new_TcpConnection (turn n c) name sockfd (sv_writeCompleteCallback w)],
           sv_connections := alist_put name c (sv_connections w)\<rparr>)"

lemma added_simps:
  "length (nt_conns (added fd w)) = Suc (length (nt_conns w))" "nt_loops (added fd w) = nt_loops w"
  "c < length (nt_conns w) \<Longrightarrow> conn (added fd w) c = conn w c"
  "conn (added fd w) (length (nt_conns w)) =
     new_TcpConnection (turn (length (nt_loops w)) (length (nt_conns w))) (conn_name w (sv_nextConnId w)) fd (sv_writeCompleteCallback w)"
  "lookup_loop (added fd w) i = lookup_loop w i" "queue_of (added fd w) i = queue_of w i" "jobs (added fd w) i f = jobs w i f"
  "sv_ipPort (added fd w) = sv_ipPort w" "sv_name (added fd w) = sv_name w" "sv_acceptChannel (added fd w) = sv_acceptChannel w"
  "sv_started (added fd w) = sv_started w" "sv_nextConnId (added fd w) = sv_nextConnId w + 1"
  "sv_connections (added fd w) = alist_put (conn_name w (sv_nextConnId w)) (length (nt_conns w)) (sv_connections w)"
  "sv_next (added fd w) = (if length (nt_loops w) = 1 then 0 else Suc (length (nt_conns w)) mod (length (nt_loops w) - 1))"
  by (simp_all add: added_def Let_def conn_def lookup_loop_def queue_of_def jobs_def nth_append)

lemma names_ok_added:
  assumes nm: "names_ok w" and n: "sv_nextConnId w < INT_MAX"
  shows "names_ok (added fd w)"
proof -
  let ?w = "added fd w" and ?c = "length (nt_conns w)"
  have cn: "conn_name ?w m = conn_name w m" for m by (simp add: conn_name_def added_simps)
  have id: "sv_nextConnId w = int ?c + 1" using nm by (simp add: names_ok_def)
  have new: "tc_name (conn ?w ?c) = conn_name w (int ?c + 1)" by (simp add: added_simps new_TcpConnection_def id)
  have old: "tc_name (conn ?w d) = conn_name w (int d + 1)" if "d < ?c" for d
    using nm that by (simp add: added_simps names_ok_def)
  have names: "tc_name (conn ?w d) = conn_name ?w (int d + 1)" if "d < length (nt_conns ?w)" for d
    using that new old unfolding cn by (cases "d = ?c") (auto simp: added_simps)
  have map: "d < length (nt_conns ?w) \<and> tc_name (conn ?w d) = m" if "map_of (sv_connections ?w) m = Some d" for m d
  proof (cases "m = conn_name w (sv_nextConnId w)")
    case True
    then have "d = ?c" using that by (simp add: added_simps map_of_alist_put)
    then show ?thesis using new True id by (simp add: added_simps)
  next
    case False
    then have "map_of (sv_connections w) m = Some d" using that by (simp add: added_simps map_of_alist_put)
    then have "d < ?c" "tc_name (conn w d) = m" using nm unfolding names_ok_def by blast+
    then show ?thesis by (simp add: added_simps)
  qed
  have "length (sv_ipPort ?w) \<le> 50" "sv_nextConnId ?w = int (length (nt_conns ?w)) + 1" "sv_nextConnId ?w \<le> INT_MAX"
    using nm n by (simp_all add: added_simps names_ok_def)
  then show ?thesis unfolding names_ok_def using names map by blast
qed

lemma new_name:
  assumes nm: "names_ok w" "sv_nextConnId w < INT_MAX" and c: "c < length (nt_conns w)"
  shows "tc_name (conn w c) \<noteq> conn_name w (sv_nextConnId w)"
proof
  assume "tc_name (conn w c) = conn_name w (sv_nextConnId w)"
  then have "tc_name (conn (added 0 w) c) = tc_name (conn (added 0 w) (length (nt_conns w)))"
    using c by (simp add: added_simps new_TcpConnection_def)
  then have "c = length (nt_conns w)"
    by (rule name_inj [OF names_ok_added [OF nm], rotated 2]) (use c in \<open>simp_all add: added_simps\<close>)
  then show False using c by simp
qed

lemma poller_ok_new:
  assumes "poller_ok chan po" "chan p = None" "nc_index ch = kNew"
  shows "poller_ok (chan(p \<mapsto> ch)) po"
proof -
  have eq: "(\<exists>ch'. (chan(p \<mapsto> ch)) q = Some ch' \<and> P ch' \<and> nc_index ch' \<noteq> kNew) \<longleftrightarrow>
      (\<exists>ch'. chan q = Some ch' \<and> P ch' \<and> nc_index ch' \<noteq> kNew)" for q P
    using assms(2,3) by (cases "q = p") auto
  have "map_of (po_channels po) fd = Some q \<longleftrightarrow>
      (\<exists>ch'. (chan(p \<mapsto> ch)) q = Some ch' \<and> nc_fd ch' = fd \<and> nc_index ch' \<noteq> kNew)" for fd q
    using poller_okD(1) [OF assms(1), of fd q] eq [of q "\<lambda>ch. nc_fd ch = fd"] by simp
  moreover have "interest (po_ctl po) fd = Some (ev, q) \<longleftrightarrow>
      (\<exists>ch'. (chan(p \<mapsto> ch)) q = Some ch' \<and> nc_fd ch' = fd \<and> nc_index ch' = kAdded \<and> nc_events ch' = ev)" for fd ev q
  proof -
    have "(\<exists>ch'. (chan(p \<mapsto> ch)) q = Some ch' \<and> nc_fd ch' = fd \<and> nc_index ch' = kAdded \<and> nc_events ch' = ev) \<longleftrightarrow>
        (\<exists>ch'. chan q = Some ch' \<and> nc_fd ch' = fd \<and> nc_index ch' = kAdded \<and> nc_events ch' = ev)"
      using assms(2,3) by (cases "q = p") auto
    then show ?thesis using poller_okD(2) [OF assms(1), of fd ev q] by simp
  qed
  moreover have "nc_index ch' \<in> {kNew, kAdded, kDeleted}" if "(chan(p \<mapsto> ch)) q = Some ch'" for q ch'
    using that assms(3) poller_okD(3) [OF assms(1), of q ch'] by (cases "q = p") auto
  ultimately show ?thesis unfolding poller_ok_def using poller_okD(4) [OF assms(1)] by simp
qed

lemma chan_at_added:
  "chan_at acc (added fd w) i =
     (if i = turn (length (nt_loops w)) (length (nt_conns w))
      then (chan_at acc w i)(ConnChannel (length (nt_conns w)) \<mapsto> new_Channel fd) else chan_at acc w i)"
  by (auto simp: fun_eq_iff chan_at_def added_simps new_TcpConnection_def less_Suc_eq split: chan_ptr.splits)

lemma jobs_unborn:
  assumes "srv_base w" "i < length (nt_loops w)"
  shows "jobs w i (ConnectEstablished (length (nt_conns w))) = 0" "jobs w i (RemoveConnectionInLoop (length (nt_conns w))) = 0"
    "jobs w i (ConnectDestroyed (length (nt_conns w))) = 0"
  using srv_baseD(7) [OF assms] by (fastforce simp: jobs_def count_list_0_iff)+

lemma srv_inv_added:
  assumes inv: "srv_inv \<phi> w" and fd: "\<not> fd_in_use w fd" and n: "sv_nextConnId w < INT_MAX"
  shows "srv_inv (\<phi>(length (nt_conns w) := Starting)) (added fd w)"
proof -
  let ?w = "added fd w" and ?c = "length (nt_conns w)" and ?n = "length (nt_loops w)"
  have base: "srv_base w" and phases: "\<And>d. d < ?c \<Longrightarrow> conn_phase w d (\<phi> d)" using inv by (simp_all add: srv_inv_def)
  note bD = srv_baseD [OF base]
  have fo: "functor_ok ?w i f" if "functor_ok w i f" for i f using that by (cases f) (auto simp: added_simps)
  have fs: "\<forall>i < length (nt_loops ?w). \<forall>f \<in> set (queue_of ?w i). functor_ok ?w i f" using bD(7) fo by (simp add: added_simps)
  have po: "pollers_ok (acc_of ?w) ?w"
    unfolding pollers_ok_def
  proof (intro allI impI)
    fix i assume "i < length (nt_loops ?w)"
    then have "poller_ok (chan_at (acc_of w) w i) (lp_poller (lookup_loop w i))" using bD(3) by (simp add: pollers_ok_def added_simps)
    moreover have "chan_at (acc_of w) w i (ConnChannel ?c) = None" by (simp add: chan_at_def)
    ultimately show "poller_ok (chan_at (acc_of ?w) ?w i) (lp_poller (lookup_loop ?w i))"
      using poller_ok_new [of "chan_at (acc_of w) w i" "lp_poller (lookup_loop w i)" "ConnChannel ?c" "new_Channel fd"]
      by (auto simp: chan_at_added added_simps acc_of_def)
  qed
  have fdn: "nc_fd (tc_channel (conn ?w ?c)) = fd" by (simp add: added_simps new_TcpConnection_def)
  have fds: "fds_ok ?w"
    unfolding fds_ok_def
  proof (intro allI impI, goal_cases)
    case (1 d)
    show ?case
    proof (cases "d = ?c")
      case True
      then show ?thesis using fd unfolding True fdn by (auto simp: fd_in_use_def added_simps less_Suc_eq)
    next
      case False
      then have d: "d < ?c" "open_conn (conn w d)" using 1 by (auto simp: added_simps less_Suc_eq)
      have "nc_fd (tc_channel (conn w d)) \<noteq> fd" using fd d by (auto simp: fd_in_use_def)
      then show ?thesis using bD(5) d fdn unfolding fds_ok_def by (auto simp: added_simps less_Suc_eq)
    qed
  qed
  have "srv_base ?w"
    unfolding srv_base_def using fs po fds names_ok_added [OF bD(4) n] bD(1,2,6,8)
    by (auto simp: added_simps less_Suc_eq new_TcpConnection_def)
  moreover have "conn_phase ?w d ((\<phi>(?c := Starting)) d)" if d: "d < length (nt_conns ?w)" for d
  proof (cases "d = ?c")
    case True
    have "turn ?n ?c < ?n" by (rule turn_bound [OF bD(2)])
    then show ?thesis unfolding True
      using jobs_unborn [OF base] bD(2)
      by (simp add: conn_phase_def added_simps fresh_new mapped_def map_of_alist_put new_TcpConnection_def)
        (simp add: fresh_new [unfolded new_TcpConnection_def])
  next
    case False
    then have dc: "d < ?c" using d by (simp add: added_simps)
    have "tc_name (conn w d) \<noteq> conn_name w (sv_nextConnId w)" by (rule new_name [OF bD(4) n dc])
    then show ?thesis using phases [OF dc] False dc by (simp add: conn_phase_def added_simps mapped_def map_of_alist_put)
  qed
  ultimately show ?thesis by (simp add: srv_inv_def)
qed

lemma newConnection_ok:
  assumes kern: "kernel_obeys kern" and inv: "srv_inv \<phi> w" and fd: "\<not> fd_in_use w fd" and n: "sv_nextConnId w < INT_MAX"
  shows "\<exists>w' ph. newConnection kern me fd w = Inr w' \<and> srv_inv (\<phi>(length (nt_conns w) := ph)) w' \<and> ph \<in> {Opening, Up}"
proof -
  let ?c = "length (nt_conns w)" and ?i = "turn (length (nt_loops w)) (length (nt_conns w))"
  have base: "srv_base w" using inv by (simp add: srv_inv_def)
  note bD = srv_baseD [OF base]
  have a: "srv_inv (\<phi>(?c := Starting)) (added fd w)" by (rule srv_inv_added [OF inv fd n])
  have eq: "newConnection kern me fd w = (if me = Some ?i then connectEstablished kern ?c (added fd w)
      else Inr (queue_in me ?i (ConnectEstablished ?c) (added fd w)))"
  proof (cases "length (nt_loops w) = 1")
    case True
    then have "w\<lparr>sv_next := 0\<rparr> = w" using bD(9) by simp
    then show ?thesis using True n bD(1)
      by (simp add: newConnection_def getNextLoop_def cpp_assert_def Let_def turn_def added_def conn_name_def)
  next
    case False
    have t: "Suc (sv_next w) = ?i" "(if length (nt_loops w) - 1 \<le> Suc (sv_next w) then 0 else Suc (sv_next w)) = Suc ?c mod (length (nt_loops w) - 1)"
      using turn_next [OF bD(2) False, of "sv_next w" ?c] bD(9) False by simp_all
    have "getNextLoop w = Inr (?i, w\<lparr>sv_next := Suc ?c mod (length (nt_loops w) - 1)\<rparr>)"
      using False bD(1) unfolding getNextLoop_def Let_def t(2) by (simp add: cpp_assert_def t(1))
    then show ?thesis using False n by (simp add: newConnection_def Let_def added_def conn_name_def)
  qed
  have i: "?i < length (nt_loops (added fd w))" using turn_bound [OF bD(2)] by (simp add: added_simps)
  show ?thesis
  proof (cases "me = Some ?i")
    case True
    then show ?thesis using eq connectEstablished_starting [OF kern a, of ?c] by (auto simp: added_simps)
  next
    case False
    have st: "conn_phase (added fd w) ?c Starting" using srv_invD(4) [OF a, of ?c] by (simp add: added_simps)
    have tl: "tc_loop (conn (added fd w) ?c) = ?i" by (simp add: added_simps new_TcpConnection_def)
    have "srv_inv (\<phi>(?c := Opening)) (queue_in me ?i (ConnectEstablished ?c) (added fd w))"
    proof (rule srv_inv_queue_in [OF a i])
      show "functor_ok (added fd w) ?i (ConnectEstablished ?c)" using tl by (simp add: added_simps)
      show "conn_phase (queue_in me ?i (ConnectEstablished ?c) (added fd w)) d ((\<phi>(?c := Opening)) d)"
        if "life_of (ConnectEstablished ?c) = Some d" for d
      proof -
        have "d = ?c" using that by simp
        then show ?thesis using st i tl by (simp add: conn_phase_def mapped_def jobs_queue_in)
      qed
    qed auto
    then show ?thesis using eq False by auto
  qed
qed


section \<open>Every step succeeds and keeps the invariant\<close>

lemma settled_upd: "settled \<phi> \<Longrightarrow> ph \<notin> {Starting, Limbo, Leaving} \<Longrightarrow> settled (\<phi>(c := ph))"
  by (simp add: settled_def)

definition good :: "server \<Rightarrow> bool" where
  "good w \<longleftrightarrow> (\<exists>\<phi>. settled \<phi> \<and> srv_inv \<phi> w)"

lemma goodI: "srv_inv \<phi> w \<Longrightarrow> settled \<phi> \<Longrightarrow> good w"
  unfolding good_def by blast

lemma put_loop_good:
  assumes s: "settled \<phi>" and inv: "srv_inv \<phi> w" and i: "i < length (nt_loops w)"
    and l: "lp_poller l = lp_poller (lookup_loop w i)" "lp_wakeupChannel l = lp_wakeupChannel (lookup_loop w i)"
      "loop_flags l"
    and q: "lp_functors l @ lp_pendingFunctors l = queue_of w i"
  shows "good (put_loop i l w)"
proof -
  have base: "srv_base w" and phases: "\<And>d. d < length (nt_conns w) \<Longrightarrow> conn_phase w d (\<phi> d)"
    using inv by (simp_all add: srv_inv_def)
  have b: "srv_base (put_loop i l w)" by (rule srv_base_put_loop [OF base i l]) (simp add: q)
  have "queue_of (put_loop i l w) j = queue_of w j" for j using i q by (simp add: queue_of_def)
  then have "conn_phase (put_loop i l w) d (\<phi> d)" if "d < length (nt_conns w)" for d
    using phases [OF that] by (simp add: conn_phase_def mapped_def jobs_def)
  then show ?thesis using s b by (auto simp: good_def srv_inv_def)
qed

lemma poll_good:
  assumes s: "settled \<phi>" and inv: "srv_inv \<phi> w" and i: "i < length (nt_loops w)" and b: "blocked (lookup_loop w i)"
    and r: "\<forall>evs. ready = Some evs \<longrightarrow> length evs \<le> po_events_size (lp_poller (lookup_loop w i)) \<and>
         (\<forall>(revents, p) \<in> set evs. reportable (lp_poller (lookup_loop w i)) revents p)"
  shows "\<exists>w'. then_do (loop_poll (fd_of w i) ready (lookup_loop w i)) (\<lambda>(_, l). Inr (put_loop i l w)) = Inr w' \<and> good w'"
proof -
  let ?l = "lookup_loop w i"
  let ?po = "lp_poller ?l"
  have base: "srv_base w" using inv by (simp add: srv_inv_def)
  have pok: "poller_ok (chan_at (acc_of w) w i) ?po" using srv_baseD(3) [OF base] i unfolding pollers_ok_def by blast
  have owner: "map_of (po_channels ?po) (fd_of w i p) = Some p" if rp: "reportable ?po revents p" for revents p
  proof -
    obtain fd ev where "interest (po_ctl ?po) fd = Some (ev, p)" using rp unfolding reportable_def by blast
    then obtain ch where "chan_at (acc_of w) w i p = Some ch" "nc_index ch = kAdded" unfolding poller_okD(2) [OF pok] by blast
    then show ?thesis using poller_okD(1) [OF pok, of "nc_fd ch" p] by (auto simp: fd_of_def)
  qed
  have fill: "\<exists>active. fillActiveChannels (fd_of w i) evs ?po = Inr active"
    if "\<forall>(revents, p) \<in> set evs. reportable ?po revents p" for evs
    using that by (induction evs) (auto simp: cpp_assert_def owner)
  have "\<exists>active po. poll (fd_of w i) ready ?po = Inr (active, po) \<and> po_channels po = po_channels ?po \<and> po_ctl po = po_ctl ?po"
  proof (cases ready)
    case (Some evs)
    then show ?thesis using r fill [of evs] by (auto simp: poll_def cpp_assert_def)
  qed (simp add: poll_def)
  then obtain active po where po: "poll (fd_of w i) ready ?po = Inr (active, po)" "po_channels po = po_channels ?po" "po_ctl po = po_ctl ?po"
    by blast
  let ?l' = "?l\<lparr>lp_poller := po, lp_activeChannels := map fst active, lp_iteration := lp_iteration ?l + 1, lp_eventHandling := True\<rparr>"
  have eq: "then_do (loop_poll (fd_of w i) ready ?l) (\<lambda>(_, l). Inr (put_loop i l w)) = Inr (put_loop i ?l' w)"
    using po(1) by (simp add: loop_poll_def)
  let ?w = "put_loop i ?l' w"
  have lk: "lookup_loop ?w j = (if j = i then ?l' else lookup_loop w j)" for j using i by simp
  have fo: "functor_ok ?w j g = functor_ok w j g" for j g by (rule functor_ok_cong) simp_all
  have qu: "queue_of ?w j = queue_of w j" for j by (simp add: queue_of_def lk)
  have wk: "lp_wakeupChannel (lookup_loop ?w j) = lp_wakeupChannel (lookup_loop w j)" for j by (simp add: lk)
  have ch: "chan_at acc ?w j = chan_at acc w j" for acc j by (auto simp: fun_eq_iff chan_at_def wk split: chan_ptr.splits)
  have ps: "pollers_ok (acc_of ?w) ?w"
    using srv_baseD(3) [OF base] po(2,3) unfolding pollers_ok_def ch by (auto simp: lk acc_of_def poller_ok_def)
  have nm: "names_ok ?w" by (rule names_ok_cong [OF srv_baseD(4) [OF base]]) simp_all
  have fd: "fds_ok ?w" using srv_baseD(5) [OF base] unfolding fds_ok_def wk by simp
  have fl: "\<forall>j < length (nt_loops ?w). loop_flags (lookup_loop ?w j)"
    using srv_baseD(6) [OF base] b by (auto simp: lk blocked_def loop_flags_def)
  have fs: "\<forall>j < length (nt_loops ?w). \<forall>f \<in> set (queue_of ?w j). functor_ok ?w j f"
    unfolding fo qu using srv_baseD(7) [OF base] by simp
  have bs: "srv_base ?w" unfolding srv_base_def using ps nm fd fl fs srv_baseD(1,2,8,9) [OF base] by simp
  have "conn_phase ?w d (\<phi> d)" if "d < length (nt_conns w)" for d
    using srv_invD(4) [OF inv that] by (simp add: conn_phase_def mapped_def jobs_def qu)
  then have "srv_inv \<phi> ?w" using bs by (simp add: srv_inv_def)
  then show ?thesis using eq s goodI by blast
qed

lemma run_functor_good:
  assumes kern: "kernel_obeys kern" and s: "settled \<phi>" and inv: "srv_inv (popped f \<phi>) w" and f: "functor_ok w i f"
    and wr: "write_sane wr" and idle: "\<not> lp_eventHandling (lookup_loop w i)"
  shows "\<exists>w'. run_functor kern wr (Some i) f w = Inr w' \<and> good w'"
proof -
  have live_f: "\<phi> c \<notin> {Starting, Opening}" if "c < length (nt_conns w)" "tc_state (conn w c) \<noteq> kConnecting" "popped f \<phi> = \<phi>" for c
    using state_phase(2) [of \<phi> w c] inv that by simp
  show ?thesis
  proof (cases f)
    case (SendInLoop c data)
    then obtain w' where "sendInLoop kern wr (Some i) c data w = Inr w'" "srv_inv \<phi> w'"
      using sendInLoop_any [OF kern, of \<phi> w c wr "Some i" data] live_f [of c] inv f wr by auto
    then show ?thesis using s SendInLoop goodI by (auto simp: run_functor_def)
  next
    case (ShutdownInLoop c)
    then have "srv_inv \<phi> (shutdownInLoop c w)" using shutdownInLoop_any [of \<phi> w c] live_f [of c] inv f by auto
    then show ?thesis using s ShutdownInLoop goodI by (auto simp: run_functor_def)
  next
    case (ForceCloseInLoop c)
    then obtain w' ph where w': "forceCloseInLoop kern (removeConnection (Some i)) c w = Inr w'" "srv_inv (\<phi>(c := ph)) w'"
        "ph = \<phi> c \<or> ph \<in> {Closing, Unmapped}"
      using forceCloseInLoop_any [OF kern, of \<phi> w c "Some i"] inv f by auto
    have "settled (\<phi>(c := ph))" by (rule settled_upd [OF s]) (use w'(3) s in \<open>auto simp: settled_def\<close>)
    then show ?thesis using w' ForceCloseInLoop goodI by (auto simp: run_functor_def)
  next
    case (ConnectEstablished c)
    then obtain w' where "connectEstablished kern c w = Inr w'" "srv_inv (\<phi>(c := Up)) w'"
      using connectEstablished_starting [OF kern inv, of c] f by auto
    then show ?thesis using goodI [OF _ settled_upd [OF s]] ConnectEstablished by (auto simp: run_functor_def)
  next
    case (ConnectDestroyed c)
    then obtain w' where "connectDestroyed kern c w = Inr w'" "srv_inv (\<phi>(c := Gone)) w'"
      using connectDestroyed_leaving [OF kern inv, of c] f idle by auto
    then show ?thesis using goodI [OF _ settled_upd [OF s]] ConnectDestroyed by (auto simp: run_functor_def)
  next
    case (RemoveConnectionInLoop c)
    then obtain w' where "removeConnectionInLoop (Some i) c w = Inr w'" "srv_inv (\<phi>(c := Unmapped)) w'"
      using removeConnectionInLoop_limbo [OF inv, of c "Some i"] f by auto
    then show ?thesis using goodI [OF _ settled_upd [OF s]] RemoveConnectionInLoop by (auto simp: run_functor_def)
  next
    case (WriteComplete c)
    then have c: "c < length (nt_conns w)" "\<phi> c \<notin> {Starting, Opening}" "srv_inv \<phi> w" using live_f [of c] inv f by auto
    have "buffer_ok (tc_inputBuffer (conn w c)) \<or> \<phi> c \<noteq> Up"
      using up_phase(1) [of w c] srv_invD(4) [OF c(3,1)] by (auto simp: live_def)
    then have "srv_inv \<phi> (add_call WriteCompleteCallback c w)"
      unfolding add_call_def by (intro put_conn_closed [OF c(3,1,2)]) (simp_all add: life_calls_def)
    then show ?thesis using s WriteComplete goodI by (auto simp: run_functor_def)
  qed (use f in auto)
qed

lemma queue_good:
  assumes s: "settled \<phi>" and inv: "srv_inv \<phi> w" and c: "c < length (nt_conns w)" and st: "tc_state (conn w c) \<noteq> kConnecting"
    and f: "f \<in> {ShutdownInLoop c, ForceCloseInLoop c} \<or> (\<exists>data. f = SendInLoop c data)"
  shows "good (queue_in me (tc_loop (conn w c)) f w)"
proof -
  have i: "tc_loop (conn w c) < length (nt_loops w)" using srv_invD(2) [OF inv c] by (simp add: conn_in_def)
  have "srv_inv \<phi> (queue_in me (tc_loop (conn w c)) f w)"
    by (rule srv_inv_queue_in [OF inv i]) (use f c st in auto)
  then show ?thesis using s goodI by blast
qed

lemma send_good:
  assumes kern: "kernel_obeys kern" and s: "settled \<phi>" and inv: "srv_inv \<phi> w" and c: "c < length (nt_conns w)"
    and wr: "write_sane wr" and buf: "buffer_ok buf"
  shows "\<exists>w'. then_do (send kern wr me c buf w) (\<lambda>(_, w). Inr w) = Inr w' \<and> good w'"
proof (cases "tc_state (conn w c) = kConnected")
  case True
  then have up: "\<phi> c = Up" using state_phase(1) [OF inv c] by simp
  show ?thesis
  proof (cases "me = Some (tc_loop (conn w c))")
    case m: True
    obtain w' where "sendInLoop kern wr me c (peek_bytes (readableBytes buf) buf) w = Inr w'" "srv_inv \<phi> w'"
      using sendInLoop_any [OF kern inv c _ wr] up by force
    then show ?thesis using True m s goodI by (auto simp: send_def)
  next
    case False
    obtain b where "retrieveAllAsString buf = Inr (contents buf, b)"
      using retrieveAsString_bytes(1) [OF buf, of "length (contents buf)"] length_contents [OF buf]
      by (auto simp: retrieveAllAsString_def)
    then show ?thesis using True False queue_good [OF s inv c, of "SendInLoop c (contents buf)" me] by (simp add: send_def)
  qed
next
  case False
  then show ?thesis using inv s goodI by (auto simp: send_def)
qed

lemma shutdown_good:
  assumes s: "settled \<phi>" and inv: "srv_inv \<phi> w" and c: "c < length (nt_conns w)"
  shows "good (shutdown me c w)"
proof (cases "tc_state (conn w c) = kConnected")
  case True
  then have up: "\<phi> c = Up" using state_phase(1) [OF inv c] by simp
  let ?w = "setState kDisconnecting c w"
  have i: "srv_inv \<phi> ?w" by (rule setState_up [OF inv c up])
  have k: "c < length (nt_conns ?w)" "tc_state (conn ?w c) = kDisconnecting" "tc_loop (conn ?w c) = tc_loop (conn w c)"
    using c by (simp_all add: setState_def)
  have "good (shutdownInLoop c ?w)" using shutdownInLoop_any [OF i k(1)] up s goodI by auto
  then show ?thesis using True k queue_good [OF s i k(1), of "ShutdownInLoop c" me] by (simp add: shutdown_def Let_def)
next
  case False
  then show ?thesis using goodI [OF inv s] by (simp add: shutdown_def)
qed

lemma forceClose_good:
  assumes s: "settled \<phi>" and inv: "srv_inv \<phi> w" and c: "c < length (nt_conns w)"
  shows "good (forceClose me c w)"
proof (cases "\<phi> c = Up")
  case True
  let ?w = "setState kDisconnecting c w"
  have i: "srv_inv \<phi> ?w" by (rule setState_up [OF inv c True])
  have k: "c < length (nt_conns ?w)" "tc_state (conn ?w c) = kDisconnecting" "tc_loop (conn ?w c) = tc_loop (conn w c)"
    using c by (simp_all add: setState_def)
  show ?thesis using True k queue_good [OF s i k(1), of "ForceCloseInLoop c" me] state_phase(1) [OF inv c]
    by (simp add: forceClose_def)
next
  case False
  then have "forceClose me c w = w" using state_phase(1) [OF inv c] by (simp add: forceClose_def)
  then show ?thesis using goodI [OF inv s] by simp
qed

lemma srv_step_good:
  assumes kern: "kernel_obeys kern" and g: "good w" and step: "srv_step kern w r"
  shows "\<exists>w'. r = Inr w' \<and> good w'"
proof -
  obtain \<phi> where s: "settled \<phi>" and inv: "srv_inv \<phi> w" using g unfolding good_def by blast
  have base: "srv_base w" using inv by (simp add: srv_inv_def)
  from step show ?thesis
  proof cases
    case (poll i ready)
    then show ?thesis using poll_good [OF s inv] by blast
  next
    case (wake i)
    have "good (put_loop i (loop_handleRead (lookup_loop w i)) w)"
      by (rule put_loop_good [OF s inv]) (use wake srv_baseD(6) [OF base wake(2)] in \<open>auto simp: loop_handleRead_def queue_of_def loop_flags_def\<close>)
    then show ?thesis using wake(1) by blast
  next
    case (event i wr rd revents c)
    obtain w' ph where w': "r = Inr w'" "srv_inv (\<phi>(c := ph)) w'" "ph \<in> {Up, Closing, Unmapped}"
      using conn_event_ok [OF kern inv event(2,6,4,5), of "Some i"] event(1) by blast
    have "settled (\<phi>(c := ph))" by (rule settled_upd [OF s]) (use w'(3) in auto)
    then show ?thesis using w' goodI by blast
  next
    case (accept accepted idle)
    show ?thesis
    proof (cases accepted)
      case (Inr fd)
      then obtain w' ph where w': "r = Inr w'" "srv_inv (\<phi>(length (nt_conns w) := ph)) w'" "ph \<in> {Opening, Up}"
        using newConnection_ok [OF kern inv, of fd "Some 0"] accept by (auto simp: acceptor_handleRead_def)
      have "settled (\<phi>(length (nt_conns w) := ph))" by (rule settled_upd [OF s]) (use w'(3) in auto)
      then show ?thesis using w' goodI by blast
    next
      case (Inl err)
      have "srv_inv \<phi> (w\<lparr>sv_idleFd := idle\<rparr>)" by (rule srv_inv_idle [OF inv])
      then show ?thesis using Inl accept(1) inv s goodI by (auto simp: acceptor_handleRead_def)
    qed
  next
    case (handled i)
    have "good (put_loop i (begin_functors (loop_handled (lookup_loop w i))) w)"
      by (rule put_loop_good [OF s inv])
        (use handled srv_baseD(6) [OF base handled(2)] in \<open>auto simp: begin_functors_def loop_handled_def queue_of_def loop_flags_def\<close>)
    then show ?thesis using handled(1) by blast
  next
    case (run i wr f l)
    have p: "srv_inv (popped f \<phi>) (put_loop i l w)" "functor_ok (put_loop i l w) i f"
      using srv_inv_pop [OF inv run(2,5)] by blast+
    have "\<not> lp_eventHandling (lookup_loop (put_loop i l w) i)"
      using run srv_baseD(6) [OF base run(2)] by (auto simp: next_functor_def loop_flags_def split: list.splits)
    then show ?thesis using run_functor_good [OF kern s p run(4)] run(1) by simp
  next
    case (finish i)
    have "good (put_loop i (end_functors (lookup_loop w i)) w)"
      by (rule put_loop_good [OF s inv]) (use finish srv_baseD(6) [OF base finish(2)] in \<open>auto simp: end_functors_def queue_of_def loop_flags_def\<close>)
    then show ?thesis using finish(1) by blast
  next
    case (send c me wr buf)
    then show ?thesis using send_good [OF kern s inv] by blast
  next
    case (shutdown c me)
    then show ?thesis using shutdown_good [OF s inv] by blast
  next
    case (force_close c me)
    then show ?thesis using forceClose_good [OF s inv] by blast
  qed
qed

section \<open>From the start of the server\<close>

lemma start_threads_ok:
  assumes kern: "kernel_obeys kern"
  shows "\<exists>ls. start_threads kern fds w = Inr (w\<lparr>nt_loops := nt_loops w @ ls\<rparr>) \<and>
    list_all2 (\<lambda>fd l. new_EventLoop kern WakeupChannel fd = Inr l) fds ls"
proof (induction fds arbitrary: w)
  case Nil
  then show ?case by (intro exI [of _ "[]"]) simp
next
  case (Cons fd fds)
  obtain l :: net_loop where l: "new_EventLoop kern WakeupChannel fd = Inr l"
    by (rule exE [OF new_loop_exists [OF kern]])
  obtain ls where "start_threads kern fds (w\<lparr>nt_loops := nt_loops w @ [l]\<rparr>) = Inr (w\<lparr>nt_loops := nt_loops w @ l # ls\<rparr>)"
      "list_all2 (\<lambda>fd l. new_EventLoop kern WakeupChannel fd = Inr l) fds ls"
    using Cons.IH [of "w\<lparr>nt_loops := nt_loops w @ [l]\<rparr>"] by auto
  then show ?case using l by (intro exI [of _ "l # ls"]) auto
qed

lemma server_start_good:
  assumes kern: "kernel_obeys kern" and l0: "new_EventLoop kern WakeupChannel wakeupFd = Inr l0" and fd: "listenFd \<noteq> wakeupFd"
    and ip: "length ipPort \<le> 50"
  shows "\<exists>w. server_start kern wakeupFds (new_TcpServer l0 ipPort name listenFd idleFd wc) = Inr w \<and> good w \<and>
    nt_conns w = [] \<and> sv_nextConnId w = 1 \<and> nc_fd (sv_acceptChannel w) = listenFd \<and>
    length (nt_loops w) = Suc (length wakeupFds) \<and> blocked (lookup_loop w 0) \<and>
    (\<forall>i < length (nt_loops w). nc_fd (lp_wakeupChannel (lookup_loop w i)) = (wakeupFd # wakeupFds) ! i)"
proof -
  let ?w0 = "new_TcpServer l0 ipPort name listenFd idleFd wc\<lparr>sv_started := True\<rparr>"
  obtain ls where ls: "start_threads kern wakeupFds ?w0 = Inr (?w0\<lparr>nt_loops := l0 # ls\<rparr>)"
      "list_all2 (\<lambda>fd l. new_EventLoop kern WakeupChannel fd = Inr l) wakeupFds ls"
    using start_threads_ok [OF kern, of wakeupFds ?w0] by (auto simp: new_TcpServer_def)
  let ?L = "l0 # ls" and ?F = "wakeupFd # wakeupFds"
  let ?w1 = "?w0\<lparr>nt_loops := ?L\<rparr>" and ?new = "new_Channel listenFd"
  have len: "length ?L = length ?F" using ls(2) by (simp add: list_all2_lengthD)
  have new: "new_EventLoop kern WakeupChannel (?F ! i) = Inr (?L ! i)" if "i < length ?F" for i
    using that l0 list_all2_nthD [OF ls(2)] by (cases i) auto
  let ?ch = "\<lambda>acc i. chan_at acc ?w1 i"
  have k1: "nt_conns ?w1 = []" "lookup_loop ?w1 i = ?L ! i" for i by (simp_all add: new_TcpServer_def lookup_loop_def)
  have n: "poller_ok (?ch (Some ?new) i) (lp_poller (?L ! i)) \<and> nc_fd (lp_wakeupChannel (?L ! i)) = ?F ! i \<and>
      lp_pendingFunctors (?L ! i) = [] \<and> lp_functors (?L ! i) = [] \<and> \<not> lp_eventHandling (?L ! i) \<and> \<not> lp_callingPendingFunctors (?L ! i)"
    if i: "i < length ?F" for i
  proof -
    have w: "?ch (Some ?new) i WakeupChannel = Some (lp_wakeupChannel (?L ! i))" using k1(2) by (simp add: chan_at_def)
    have o: "nc_index c = kNew" if "p \<noteq> WakeupChannel" "?ch (Some ?new) i p = Some c" for p c
      using that k1(1) by (auto simp: chan_at_def split: chan_ptr.splits if_splits)
    show ?thesis
      using new_loop_poller_ok(1,2,5-8) [where chan = "?ch (Some ?new) i", OF kern new [OF i] w] o by blast
  qed
  have n0: "poller_ok (?ch (Some ?new) 0) (lp_poller l0)" "nc_fd (lp_wakeupChannel l0) = wakeupFd" using n [of 0] by simp_all
  have free: "map_of (po_channels (lp_poller l0)) listenFd = None"
  proof (rule ccontr)
    assume "map_of (po_channels (lp_poller l0)) listenFd \<noteq> None"
    then obtain p where p: "map_of (po_channels (lp_poller l0)) listenFd = Some p" by auto
    obtain c where c: "?ch (Some ?new) 0 p = Some c" "nc_fd c = listenFd" "nc_index c \<noteq> kNew"
      using p [unfolded poller_okD(1) [OF n0(1)]] by blast
    show False
    proof (cases p)
      case WakeupChannel
      then show False using c fd n0(2) k1(2) by (simp add: chan_at_def)
    next
      case AcceptChannel
      then have "c = ?new" using c(1) by (simp add: chan_at_def)
      then show False using c(3) by simp
    next
      case (ConnChannel d)
      then show False using c(1) k1(1) by (simp add: chan_at_def split: if_splits)
    qed
  qed
  have acc: "?ch (Some ?new) 0 AcceptChannel = Some ?new" by (simp add: chan_at_def)
  obtain po where po: "ask EnableReading kern AcceptChannel ?new (lp_poller l0) = Inr (settle EnableReading ?new, po)"
      "poller_ok ((?ch (Some ?new) 0)(AcceptChannel \<mapsto> settle EnableReading ?new)) po"
    using updateChannel_ok [OF kern n0(1) acc, of "?new\<lparr>nc_events := wants EnableReading (nc_events ?new), nc_addedToLoop := True\<rparr>"] free
    unfolding ask_def settle_def by auto
  let ?acc = "settle EnableReading ?new"
  let ?w2 = "put_loop 0 (l0\<lparr>lp_poller := po\<rparr>) (?w1\<lparr>sv_listening := True, sv_acceptChannel := ?acc\<rparr>)"
  have w2: "nt_conns ?w2 = []" "length (nt_loops ?w2) = length ?F" "sv_started ?w2" "sv_next ?w2 = 0" "sv_nextConnId ?w2 = 1"
    "sv_connections ?w2 = []" "sv_ipPort ?w2 = ipPort" "sv_acceptChannel ?w2 = ?acc"
    "lookup_loop ?w2 i = (if i = 0 then l0\<lparr>lp_poller := po\<rparr> else ?L ! i)" for i
    using len by (simp_all add: new_TcpServer_def put_loop_def lookup_loop_def nth_list_update)
  have start: "server_start kern wakeupFds (new_TcpServer l0 ipPort name listenFd idleFd wc) = Inr ?w2"
    using ls(1) po(1)
    by (simp add: server_start_def pool_start_def cpp_assert_def acceptor_listen_def ask_simps lookup_loop_def new_TcpServer_def Let_def)
  have ch2: "chan_at (Some ?acc) ?w2 i = (if i = 0 then (?ch (Some ?new) i)(AcceptChannel \<mapsto> ?acc) else ?ch (Some ?new) i)" for i
    unfolding fun_eq_iff fun_upd_apply if_distribR chan_at_def w2(1) w2(9) k1 by (auto split: chan_ptr.splits)
  have q: "queue_of ?w2 i = []" "loop_flags (lookup_loop ?w2 i)" if "i < length ?F" for i
    using n [OF that] n [of 0] unfolding queue_of_def w2(9) loop_flags_def by auto
  have "pollers_ok (acc_of ?w2) ?w2"
    unfolding pollers_ok_def acc_of_def w2(8) ch2 w2(2) w2(9)
  proof (intro allI impI)
    fix i assume i: "i < length ?F"
    show "poller_ok (if i = 0 then (?ch (Some ?new) i)(AcceptChannel \<mapsto> ?acc) else ?ch (Some ?new) i)
        (lp_poller (if i = 0 then l0\<lparr>lp_poller := po\<rparr> else ?L ! i))"
      using po(2) n [OF i] by (cases "i = 0") auto
  qed
  moreover have "names_ok ?w2" unfolding names_ok_def w2 using ip by (simp add: INT_MAX_def)
  moreover have "fds_ok ?w2" unfolding fds_ok_def w2 by simp
  ultimately have "srv_base ?w2" unfolding srv_base_def using w2 q by simp
  then have "srv_inv (\<lambda>_. Gone) ?w2" using w2(1) by (simp add: srv_inv_def)
  then have "good ?w2" by (rule goodI) (simp add: settled_def)
  moreover have "blocked (lookup_loop ?w2 0)" using n [of 0] w2(9) [of 0] by (simp add: blocked_def)
  moreover have "nc_fd (lp_wakeupChannel (lookup_loop ?w2 i)) = ?F ! i" if "i < length (nt_loops ?w2)" for i
    using that n [of i] unfolding w2(2) w2(9) by (cases i) auto
  ultimately show ?thesis using start w2 by (intro exI [of _ ?w2]) simp
qed


lemma srv_reach_good:
  assumes "kernel_obeys kern" "srv_reach kern w0 w" "good w0"
  shows "good w"
  using assms(2)
proof induction
  case (step w w')
  then show ?case using srv_step_good [OF assms(1), of w "Inr w'"] by auto
qed (rule assms(3))

text \<open>What the invariant says of one connection.\<close>

definition conn_healthy :: "server \<Rightarrow> nat \<Rightarrow> bool" where
  "conn_healthy w c \<longleftrightarrow>
     (let k = conn w c; calls = po_ctl (lp_poller (lookup_loop w (tc_loop k)))
      in tc_loop k = turn (length (nt_loops w)) c \<and>
         (\<forall>d < length (nt_conns w). tc_name (conn w d) = tc_name k \<longrightarrow> d = c) \<and>
         (case tc_state k of
            kConnecting \<Rightarrow> life_calls k = []
          | kDisconnected \<Rightarrow> down_calls (life_calls k)
          | _ \<Rightarrow> up_calls (life_calls k)) \<and>
         (tc_state k \<noteq> kDisconnected \<longrightarrow> map_of (sv_connections w) (tc_name k) = Some c) \<and>
         (if tc_state k = kConnected \<or> tc_state k = kDisconnecting
          then interest calls (nc_fd (tc_channel k)) = Some (live_events k, ConnChannel c)
          else \<forall>fd ev. interest calls fd \<noteq> Some (ev, ConnChannel c)) \<and>
         ((\<forall>i < length (nt_loops w). queue_of w i = []) \<longrightarrow>
            tc_state k \<noteq> kConnecting \<and>
            (tc_state k = kDisconnected \<longrightarrow> map_of (sv_connections w) (tc_name k) = None \<and>
               nc_index (tc_channel k) = kNew)))"

lemma good_healthy:
  assumes g: "good w" and c: "c < length (nt_conns w)"
  shows "conn_healthy w c"
proof -
  obtain \<phi> where s: "settled \<phi>" and inv: "srv_inv \<phi> w" using g unfolding good_def by blast
  let ?k = "conn w c"
  let ?po = "lp_poller (lookup_loop w (tc_loop ?k))"
  note bD = srv_baseD [OF srv_invD(1) [OF inv c]]
  have ph: "conn_phase w c (\<phi> c)" by (rule srv_invD(4) [OF inv c])
  have i: "tc_loop ?k < length (nt_loops w)" using srv_invD(2) [OF inv c] by (simp add: conn_in_def)
  have pok: "poller_ok (chan_at (acc_of w) w (tc_loop ?k)) ?po" using bD(3) i unfolding pollers_ok_def by blast
  have watch: "interest (po_ctl ?po) fd = Some (ev, ConnChannel c) \<longleftrightarrow>
      nc_fd (tc_channel ?k) = fd \<and> nc_index (tc_channel ?k) = kAdded \<and> nc_events (tc_channel ?k) = ev" for fd ev
    unfolding poller_okD(2) [OF pok] chan_at_conn [OF c] by auto
  have names: "d = c" if "d < length (nt_conns w)" "tc_name (conn w d) = tc_name ?k" for d
    using name_inj [OF bD(4) that(1) c that(2)] .
  have unmapped: "map_of (sv_connections w) (tc_name ?k) = None" if "\<not> mapped w c"
  proof (rule ccontr)
    assume "map_of (sv_connections w) (tc_name ?k) \<noteq> None"
    then obtain d where d: "map_of (sv_connections w) (tc_name ?k) = Some d" by auto
    then have "d < length (nt_conns w)" "tc_name (conn w d) = tc_name ?k" using bD(4) unfolding names_ok_def by blast+
    then show False using names d that by (auto simp: mapped_def)
  qed
  have st: "case tc_state ?k of kConnecting \<Rightarrow> life_calls ?k = [] | kDisconnected \<Rightarrow> down_calls (life_calls ?k)
      | _ \<Rightarrow> up_calls (life_calls ?k)"
    using ph by (cases "\<phi> c") (auto simp: conn_phase_def fresh_def live_def closed_def life_calls_def)
  have mp: "tc_state ?k \<noteq> kDisconnected \<longrightarrow> map_of (sv_connections w) (tc_name ?k) = Some c"
    using ph by (cases "\<phi> c") (auto simp: conn_phase_def mapped_def fresh_def live_def closed_def)
  have wt: "if tc_state ?k = kConnected \<or> tc_state ?k = kDisconnecting
      then interest (po_ctl ?po) (nc_fd (tc_channel ?k)) = Some (live_events ?k, ConnChannel c)
      else \<forall>fd ev. interest (po_ctl ?po) fd \<noteq> Some (ev, ConnChannel c)"
    using ph unfolding watch by (cases "\<phi> c") (auto simp: conn_phase_def fresh_def live_def closed_def)
  have qt: "tc_state ?k \<noteq> kConnecting \<and> (tc_state ?k = kDisconnected \<longrightarrow>
      map_of (sv_connections w) (tc_name ?k) = None \<and> nc_index (tc_channel ?k) = kNew)"
    if q: "\<forall>i < length (nt_loops w). queue_of w i = []"
  proof -
    have "jobs w j f = 0" if "j < length (nt_loops w)" for j f using q that by (simp add: jobs_def)
    then show ?thesis using ph i bD(2) s unmapped
      by (cases "\<phi> c") (auto simp: conn_phase_def live_def closed_def settled_def)
  qed
  show ?thesis
    unfolding conn_healthy_def Let_def using bD(8) [OF c] names st mp wt qt by blast
qed


end
