(* ===== verification/Task_Types.thy ===== *)
theory Task_Types
  imports Endpoint_Router
begin

text \<open>
  Ranges of the scheduler's \<^verbatim>\<open>int\<close> variables. The model of \<^verbatim>\<open>vllm_task\<close> uses unbounded integers for the
  C++ type \<^verbatim>\<open>int\<close>; here it is shown that the configured values, the limits of endpoints and the
  fields of requests fit into 32 bits in every state a scheduler reaches, so that the unbounded
  integers stand for what the program computes. Two sums of \<^verbatim>\<open>parse_config\<close> can overflow, and the
  condition on a configuration is that they do not.
\<close>

section \<open>Typed values\<close>

definition profile_typed :: "ModelProfile \<Rightarrow> bool" where
  "profile_typed p \<longleftrightarrow> list_all is_int32 [mp_max_context_len p, mp_default_max_tokens p, mp_default_timeout_ms p,
     mp_default_deadline_ms p, mp_default_priority p]"

definition config_typed :: "SchedConfig \<Rightarrow> bool" where
  "config_typed c \<longleftrightarrow> list_all is_int32 [cf_timeout_ms c, cf_deadline_ms c, cf_max_retries c, cf_max_tokens c,
     cf_worker_count c, cf_endpoint_wait_ms c, cf_max_queue_size c, cf_low_priority_drop_threshold c,
     cf_high_priority_threshold c, cf_default_priority c, cf_health_check_interval_ms c, cf_health_check_timeout_ms c,
     cf_unhealthy_threshold c, cf_recovery_threshold c, cf_circuit_failure_threshold c, cf_circuit_open_ms c] \<and>
     list_all profile_typed (cf_model_profiles c)"

definition endpoint_typed :: "VllmEndpoint \<Rightarrow> bool" where
  "endpoint_typed ep \<longleftrightarrow> list_all is_int32 [ep_weight ep, ep_max_context_len ep, ep_max_concurrency ep] \<and>
     1 \<le> ep_max_concurrency ep"

definition request_typed :: "InferenceRequest \<Rightarrow> bool" where
  "request_typed r \<longleftrightarrow> list_all is_int32 [rq_task_id r, rq_priority r, rq_timeout_ms r, rq_deadline_ms r,
     rq_max_retries r, rq_max_tokens r, rq_retry_count r]"

definition store_typed :: "endpoint_store \<Rightarrow> bool" where
  "store_typed st \<longleftrightarrow> list_all endpoint_typed (es_heap st)"

definition task_typed :: "vllm_task \<Rightarrow> bool" where
  "task_typed t \<longleftrightarrow> config_typed (tk_cfg t) \<and> store_typed (tk_store t) \<and> addrs_ok (tk_store t) (tk_endpoints t) \<and>
     list_all request_typed (tk_pending t) \<and>
     list_all is_int32 [tk_config_version t, tk_config_update_count t, tk_task_id_counter t] \<and>
     0 \<le> tk_queue_schedule_slot t \<and> tk_queue_schedule_slot t < 9"

text \<open>The operations of a running scheduler.\<close>

datatype sched_op =
    SReload tsdb int json
  | SQueue queue_op
  | SRouter router_event

fun sched_step :: "sched_op \<Rightarrow> vllm_task \<Rightarrow> vllm_task" where
  "sched_step (SReload db now body) t = snd (reload_config db now body t)"
| "sched_step (SQueue op) t = queue_op_step op t"
| "sched_step (SRouter ev) t = router_step ev t"

definition sched_run :: "sched_op list \<Rightarrow> vllm_task \<Rightarrow> vllm_task" where
  "sched_run ops t = fold sched_step ops t"

text \<open>The sums \<^verbatim>\<open>timeout_ms_ + 10000\<close> and \<^verbatim>\<open>max_queue_size_ - 16\<close> do not overflow.\<close>

definition sums_in_range :: "json \<Rightarrow> bool" where
  "sums_in_range body \<longleftrightarrow> is_int32 (json_int_value body ''timeout_ms'' 30000 + 10000) \<and>
     is_int32 (json_int_value body ''max_queue_size'' 64 - 16)"

section \<open>Configurations\<close>

named_theorems typed_intros

lemma int32_max [typed_intros]: "is_int32 a \<Longrightarrow> is_int32 b \<Longrightarrow> is_int32 (max a b)"
  by (simp add: max_def)

lemma int32_numerals [simp]:
  "is_int32 0" "is_int32 1" "is_int32 (-1)" "- 2147483648 \<le> (numeral n :: int) \<Longrightarrow> numeral n \<le> (2147483647 :: int) \<Longrightarrow> is_int32 (numeral n)"
  by (simp_all add: is_int32_def INT_MAX_def INT_MIN_def)

lemma to_int32_typed [simp]: "is_int32 (to_int32 i)"
  by (rule to_int32_range)

declare json_int_value_int32 [typed_intros]

lemma config_values_typed:
  assumes "sums_in_range body" "list_all profile_typed (cf_model_profiles c)"
  shows "config_typed (parse_config_values getenv body c)"
  using assms by (simp add: config_typed_def parse_config_values_def sums_in_range_def Let_def typed_intros)

lemma reload_values_typed: "config_typed c \<Longrightarrow> config_typed (reload_values body c)"
  by (simp add: config_typed_def reload_values_def Let_def typed_intros)

lemma profile_item_typed: "profile_typed (profile_from_item m item)"
  by (simp add: profile_typed_def profile_from_item_def Let_def typed_intros)

lemma profiles_typed: "build_model_profiles_from_config body m = (err, ps) \<Longrightarrow> list_all profile_typed ps"
  by (auto simp: build_model_profiles_from_config_def list_all_iff profile_item_typed split: option.splits json.splits)

section \<open>Endpoints\<close>

lemma endpoint_item_typed: "endpoint_typed (endpoint_from_item i m k item)" "endpoint_typed (default_endpoint m url k)"
  by (simp_all add: endpoint_typed_def endpoint_from_item_def default_endpoint_def new_endpoint_def Let_def typed_intros)

lemma store_typed_get: "store_typed st \<Longrightarrow> a < length (es_heap st) \<Longrightarrow> endpoint_typed (es_get st a)"
  by (simp add: store_typed_def es_get_def list_all_length)

lemma store_typed_alloc: "store_typed st \<Longrightarrow> endpoint_typed ep \<Longrightarrow> store_typed (snd (es_alloc ep st))"
  by (simp add: store_typed_def)

lemma store_typed_update:
  "store_typed st \<Longrightarrow> (\<And>ep. endpoint_typed ep \<Longrightarrow> endpoint_typed (f ep)) \<Longrightarrow> store_typed (es_update a f st)"
  by (cases "a < length (es_heap st)") (auto simp: store_typed_def es_update_def list_all_length nth_list_update)

lemma store_typed_publish [simp]: "store_typed (publish_endpoint_runtime a st) = store_typed st"
  by (simp add: store_typed_def)

lemma place_typed:
  assumes "store_typed st" "endpoint_typed ep"
  shows "store_typed (snd (place_endpoint alive share ep out st))"
proof -
  let ?st = "snd (es_alloc ep st)"
  have st: "store_typed ?st" by (rule store_typed_alloc [OF assms])
  have ep: "endpoint_typed (es_get ?st (length (es_heap st)))" using assms(2) by (simp add: es_get_def)
  have "store_typed (snd (share_endpoint_runtime al (length (es_heap st)) ?st))" for al
    using st ep store_typed_update [OF st]
    by (auto simp: share_endpoint_runtime_def take_configured_fields_def endpoint_typed_def Let_def split: option.split)
  then show ?thesis using st by (auto simp: place_endpoint_def es_alloc_def Let_def split: prod.split) (metis snd_conv)
qed

lemma build_items_typed:
  "store_typed st \<Longrightarrow> store_typed (snd (build_items alive m k mock share strict items index out st))"
proof (induction alive m k mock share strict items index out st rule: build_items.induct)
  case (2 alive m k mock share strict item items index out st)
  let ?ep = "endpoint_from_item index m k item"
  obtain o1 s1 where p: "place_endpoint alive share ?ep out st = (o1, s1)" by (cases "place_endpoint alive share ?ep out st")
  have "store_typed s1" using place_typed [OF 2(3) endpoint_item_typed(1), of alive share index m k item out] p by simp
  then show ?case using 2 p by (auto simp: Let_def)
qed simp

lemma build_endpoints_typed:
  assumes "store_typed st"
  shows "store_typed (snd (build_endpoints_from_config alive body m url k mock share strict st))"
proof (cases "endpoint_array body")
  case (Inr items)
  obtain r s1 where b: "build_items alive m k mock share strict items 0 [] st = (r, s1)" by fastforce
  have s1: "store_typed s1" using build_items_typed [OF assms, of alive m k mock share strict items 0 "[]"] b by simp
  have "store_typed (snd (place_endpoint alive share (default_endpoint m url k) [] s1))"
    by (rule place_typed [OF s1 endpoint_item_typed(2)])
  then show ?thesis using Inr b s1
    by (auto simp: build_endpoints_from_config_def split: sum.split prod.split)
qed (simp add: build_endpoints_from_config_def assms)


lemma commit_typed:
  assumes st: "store_typed st" and a: "addrs_ok st old" "addrs_ok st out"
  shows "store_typed (snd (commit_reloaded_endpoints_locked old out st))"
    and "addrs_ok (snd (commit_reloaded_endpoints_locked old out st)) (fst (commit_reloaded_endpoints_locked old out st))"
proof -
  have "endpoint_typed (committed_endpoint st olds c)" if "c \<in> set out" for olds c
  proof -
    have "endpoint_typed (es_get st c)" using store_typed_get [OF st] a(2) that by (simp add: addrs_ok_def)
    then show ?thesis
      by (auto simp: committed_endpoint_def copy_endpoint_runtime_fields_def endpoint_typed_def Let_def split: option.split)
  qed
  then show "store_typed (snd (commit_reloaded_endpoints_locked old out st))"
    using st by (auto simp: store_typed_def commit_heap [OF a(2,1)] list_all_iff)
  show "addrs_ok (snd (commit_reloaded_endpoints_locked old out st)) (fst (commit_reloaded_endpoints_locked old out st))"
    by (simp add: addrs_ok_def commit_heap [OF a(2,1)])
qed

lemma extends_addrs: "extends_heap st st' \<Longrightarrow> addrs_ok st as \<Longrightarrow> addrs_ok st' as"
  by (fastforce simp: extends_heap_def addrs_ok_def)

lemma reload_store_typed: "store_typed (tk_store t) \<Longrightarrow> store_typed (snd (reload_endpoints body c t))"
  using build_endpoints_typed [of "tk_store t" "\<lambda>_. False" body "cf_model c" _ "cf_api_key c" "cf_mock_mode c" False True]
  by (auto simp: reload_endpoints_def Let_def split: sum.split prod.split) (metis snd_conv)+

section \<open>Operations\<close>

lemma reload_profiles:
  assumes "reload_config db now body t = (Inr (), t')" "config_typed (tk_cfg t)"
  shows "list_all profile_typed (cf_model_profiles (tk_cfg t'))"
proof -
  let ?c = "reload_values body (tk_cfg t)"
  obtain err ps where p: "(if contains body ''model_profiles'' then build_model_profiles_from_config body (cf_model ?c)
      else (None, cf_model_profiles ?c)) = (err, ps)" by fastforce
  have "list_all profile_typed ps"
    using p profiles_typed assms(2) by (auto simp: config_typed_def reload_values_def Let_def split: if_splits)
  moreover have "cf_model_profiles (tk_cfg t') = ps"
    using assms(1) p by (auto simp: reload_config_def Let_def split: if_splits option.splits prod.splits sum.splits)
  ultimately show ?thesis by simp
qed

lemma reload_typed:
  assumes "task_typed t"
  shows "task_typed (snd (reload_config db now body t))"
proof -
  obtain r t' where r: "reload_config db now body t = (r, t')" by fastforce
  let ?c = "reload_values body (tk_cfg t)"
  obtain re st where e: "reload_endpoints body ?c t = (re, st)" by fastforce
  have st: "store_typed st" using reload_store_typed [of t body ?c] assms e by (simp add: task_typed_def)
  have ext: "extends_heap (tk_store t) st" using reload_endpoints_extends [of t body ?c] e by simp
  have addr: "addrs_ok st (tk_endpoints t)" using extends_addrs [OF ext] assms by (simp add: task_typed_def)
  show ?thesis
  proof (cases "r = Inr ()")
    case True
    obtain base_url out st' profiles where t': "reload_endpoints body ?c t = (Inr (base_url, out), st')"
      "config_typed (tk_cfg t') = config_typed (?c\<lparr>cf_model_profiles := profiles\<rparr>)" "cf_model_profiles (tk_cfg t') = profiles"
      "tk_store t' = (if has_endpoint_reload_config body then snd (commit_reloaded_endpoints_locked (tk_endpoints t) out st') else st')"
      "tk_endpoints t' = (if has_endpoint_reload_config body then fst (commit_reloaded_endpoints_locked (tk_endpoints t) out st')
         else tk_endpoints t)"
      "tk_pending t' = tk_pending t" "tk_config_version t' = to_int32 (tk_config_version t + 1)"
      "tk_config_update_count t' = to_int32 (tk_config_update_count t + 1)" "tk_task_id_counter t' = tk_task_id_counter t"
      "tk_queue_schedule_slot t' = tk_queue_schedule_slot t"
      by (rule reload_config_cases [OF r]) (simp_all add: True config_typed_def)
    have st': "st' = st" using t'(1) e by simp
    have "config_typed ?c" using assms reload_values_typed by (simp add: task_typed_def)
    moreover have "list_all profile_typed profiles"
      using reload_profiles [OF r [unfolded True]] assms t'(3) by (simp add: task_typed_def)
    ultimately have cfg: "config_typed (tk_cfg t')" unfolding t'(2) by (simp add: config_typed_def)
    have out: "addrs_ok st out" if "has_endpoint_reload_config body"
      using reload_endpoints_out_ok [OF t'(1) that] by (simp add: new_out_ok_def st')
    have "store_typed (tk_store t')" "addrs_ok (tk_store t') (tk_endpoints t')"
      using commit_typed [OF st addr out] st addr by (simp_all add: t'(4,5) st')
    then show ?thesis using assms cfg t'(6-) r by (simp add: task_typed_def)
  next
    case False
    have "t' = t\<lparr>tk_store := st\<rparr> \<or> t' = t"
      using r e False by (auto simp: reload_config_def Let_def split: if_splits option.splits prod.splits sum.splits)
    then show ?thesis using assms st addr r by (auto simp: task_typed_def)
  qed
qed

lemma profile_found_typed:
  assumes "config_typed c" "is_int32 d" "\<And>p. profile_typed p \<Longrightarrow> is_int32 (f p)"
  shows "is_int32 (case find_profile_for_action c a of None \<Rightarrow> d | Some p \<Rightarrow> if bad p then d else f p)"
proof (cases "find_profile_for_action c a")
  case (Some p)
  then have "profile_typed p"
    using assms(1) by (auto simp: config_typed_def find_profile_for_action_def list_all_length find_Some_iff split: if_splits)
  then show ?thesis using Some assms(2,3) by simp
qed (use assms in simp)

lemma profile_applied_typed:
  assumes "config_typed c"
  shows "is_int32 (rq_priority (apply_profile_to_request c meta r))" "is_int32 (rq_timeout_ms (apply_profile_to_request c meta r))"
    "is_int32 (rq_deadline_ms (apply_profile_to_request c meta r))" "is_int32 (rq_max_retries (apply_profile_to_request c meta r))"
    "is_int32 (rq_max_tokens (apply_profile_to_request c meta r))"
  using assms
  by (simp_all add: apply_profile_to_request_def Let_def)
    (intro json_int_value_int32 profile_found_typed [OF assms]; simp add: config_typed_def profile_typed_def)+

lemma request_made_typed:
  assumes "config_typed (tk_cfg t)"
  shows "request_typed (make_request t now rid wid url obj prompt meta opts)"
  using profile_applied_typed [OF assms]
  by (simp add: request_typed_def make_request_def Let_def)
    (simp add: apply_profile_to_request_def new_request_def Let_def)

lemma schedule_loop_slot:
  "schedule_loop n high slot p = (r, slot') \<Longrightarrow> 0 \<le> slot \<Longrightarrow> slot < 9 \<Longrightarrow> 0 \<le> slot' \<and> slot' < 9"
  by (induction n arbitrary: slot) (auto simp: Let_def split: option.splits)

lemma version_frame [frame_simps]:
  "tk_config_version (inference now rid wid url obj prompt meta opts t) = tk_config_version t"
  "tk_config_update_count (inference now rid wid url obj prompt meta opts t) = tk_config_update_count t"
  "tk_config_version (observe_queue t) = tk_config_version t" "tk_config_update_count (observe_queue t) = tk_config_update_count t"
  by (simp_all add: inference_def enqueue_request_def record_pending_def observe_queue_def emit_error_def emit_def Let_def
      split: option.split)

lemma queue_op_typed:
  assumes "task_typed t"
  shows "task_typed (queue_op_step op t)"
proof (cases op)
  case (QSubmit now rid wid url obj prompt meta opts)
  have "request_typed (make_request t now rid wid url obj prompt meta opts)"
    using assms request_made_typed by (simp add: task_typed_def)
  moreover have "tk_pending (inference now rid wid url obj prompt meta opts t) \<in>
      {tk_pending t, tk_pending t @ [make_request t now rid wid url obj prompt meta opts]}"
    "tk_store (inference now rid wid url obj prompt meta opts t) = tk_store t"
    "tk_endpoints (inference now rid wid url obj prompt meta opts t) = tk_endpoints t"
    "tk_task_id_counter (inference now rid wid url obj prompt meta opts t) = to_int32 (tk_task_id_counter t + 1)"
    by (simp_all add: inference_def enqueue_pending frame_simps)
  ultimately show ?thesis using assms QSubmit by (auto simp: task_typed_def frame_simps)
next
  case QPop
  have "list_all request_typed (remove_nth i (tk_pending t))" for i
    using assms by (auto simp: task_typed_def remove_nth_def list_all_iff dest: in_set_takeD in_set_dropD)
  moreover have "0 \<le> slot' \<and> slot' < 9"
    if "schedule_pick high (tk_queue_schedule_slot t) (tk_pending t) = (i, slot')" for high i slot'
    using that assms schedule_loop_slot [of 9 high "tk_queue_schedule_slot t" "tk_pending t"]
    by (auto simp: schedule_pick_def task_typed_def split: prod.splits option.splits)
  ultimately show ?thesis using assms QPop
    by (auto simp: task_typed_def pop_next_request_def frame_simps Let_def split: prod.split)
qed

lemma router_typed:
  assumes "task_typed t"
  shows "task_typed (router_step ev t)"
proof -
  have a: "addrs_ok (tk_store t) (tk_endpoints t)" and st: "store_typed (tk_store t)" using assms by (simp_all add: task_typed_def)
  have op: "endpoint_typed (opened now ep) = endpoint_typed ep" for now ep
    by (simp add: endpoint_typed_def opened_cases)
  have "store_typed (tk_store (router_step ev t))"
  proof (cases ev)
    case (RSelect now req)
    obtain st' where s: "half_opened now (tk_store t) st'"
      "select_endpoint now req t = (case selection now req t of None \<Rightarrow> (None, t\<lparr>tk_store := st'\<rparr>)
         | Some a \<Rightarrow> (Some a, observe_endpoint_at a (t\<lparr>tk_store := es_update a acquire_endpoint st'\<rparr>)))"
      using select_endpoint_spec [OF a] by blast
    have "store_typed st'"
      using s(1) store_typed_get [OF st] op unfolding half_opened_def store_typed_def list_all_length es_get_def by metis
    then have "store_typed (es_update b acquire_endpoint st')" for b
      by (rule store_typed_update) (simp add: endpoint_typed_def acquire_endpoint_def)
    then show ?thesis using RSelect s(2) \<open>store_typed st'\<close> by (simp add: frame_simps split: option.split)
  next
    case (RResult b ok latency now)
    then show ?thesis using st
      by (auto simp: update_endpoint_result_def frame_simps endpoint_result_def count_failure_def endpoint_typed_def Let_def
          intro!: store_typed_update)
  next
    case (RHealth b ok latency now)
    then show ?thesis using st
      by (auto simp: update_endpoint_health_def frame_simps endpoint_health_def count_failure_def endpoint_typed_def Let_def
          intro!: store_typed_update)
  qed
  moreover have e: "router_step ev t = t\<lparr>tk_store := tk_store (router_step ev t), tk_observability := tk_observability (router_step ev t)\<rparr>"
    by (cases ev) (auto simp: select_endpoint_def update_endpoint_result_def update_endpoint_health_def observe_endpoint_at_def Let_def
        split: prod.split option.split)
  have "tk_cfg (router_step ev t) = tk_cfg t" "tk_endpoints (router_step ev t) = tk_endpoints t"
    "tk_pending (router_step ev t) = tk_pending t" "tk_config_version (router_step ev t) = tk_config_version t"
    "tk_config_update_count (router_step ev t) = tk_config_update_count t"
    "tk_task_id_counter (router_step ev t) = tk_task_id_counter t"
    "tk_queue_schedule_slot (router_step ev t) = tk_queue_schedule_slot t"
    by (subst e, simp)+
  moreover have "addrs_ok (tk_store (router_step ev t)) (tk_endpoints t)"
    using router_step_frame [OF a, of ev] a by (simp add: addrs_ok_def)
  ultimately show ?thesis using assms by (simp add: task_typed_def)
qed

lemma sched_step_typed: "task_typed t \<Longrightarrow> task_typed (sched_step op t)"
  by (cases op) (simp_all add: reload_typed queue_op_typed router_typed)

interpretation sched_ops: invariant_of sched_step task_typed
  by unfold_locales (rule sched_step_typed)

section \<open>Property\<close>

lemma load_typed:
  assumes sums: "sums_in_range body" and t: "task_typed t" "store_ok (tk_store t)"
    and l: "load_model db getenv alive now body t = (0, t')"
  shows "task_typed t'"
proof -
  let ?c = "parse_config_values getenv body (tk_cfg t)"
  let ?m = "cf_model ?c"
  obtain err ps where ps: "build_model_profiles_from_config body ?m = (err, ps)" by fastforce
  have cfg: "config_typed ?c" "list_all profile_typed ps"
    using config_values_typed [OF sums] profiles_typed [OF ps] t(1) by (simp_all add: task_typed_def config_typed_def)
  obtain out st where b: "build_endpoints_from_config (\<lambda>a. alive a \<or> a \<in> set (tk_endpoints t)) body ?m
      (trim_right_slash (cf_base_url ?c)) (cf_api_key ?c) (cf_mock_mode ?c) True False (tk_store t) = (Inr out, st)"
    and t': "tk_store t' = st" "tk_endpoints t' = out" "tk_pending t' = tk_pending t" "tk_config_version t' = tk_config_version t"
      "tk_config_update_count t' = tk_config_update_count t" "tk_task_id_counter t' = tk_task_id_counter t"
      "tk_queue_schedule_slot t' = tk_queue_schedule_slot t" "config_typed (tk_cfg t') = config_typed (?c\<lparr>cf_model_profiles := ps\<rparr>)"
    using l ps
    by (auto simp: load_model_def parse_config_def Let_def config_typed_def split: if_splits option.splits sum.splits prod.splits)
  have "store_typed st" using build_endpoints_typed [of "tk_store t"] t(1) b by (metis snd_conv task_typed_def)
  moreover have "addrs_ok st out" using load_model_builds [OF l t(2)] t'(1,2) by (simp add: built_inv_def)
  moreover have "config_typed (tk_cfg t')" unfolding t'(8) using cfg by (simp add: config_typed_def)
  ultimately show ?thesis using t(1) t' by (simp add: task_typed_def)
qed

lemma new_task_typed: "task_typed (new_task w empty_store)" "store_ok (tk_store (new_task w empty_store))"
  by (simp_all add: task_typed_def new_task_def config_typed_def new_config_def store_typed_def empty_store_def addrs_ok_def store_ok_def)



text \<open>A configuration whose default deadline overflows.\<close>

lemma deadline_overflows:
  "\<not> config_typed (parse_config_values getenv (JObj [(''timeout_ms'', JInt 2147483647)]) c)"
  by (simp add: config_typed_def parse_config_values_def Let_def json_int_value_def to_int32_def is_int32_def INT_MAX_def)

end
