(* ===== verification/Spec2Isabelle.thy ===== *)
theory Spec2Isabelle
  imports Stack_Flow Tcp_Server Task_Types
begin

text \<open>
  Verification of VllmRoute, a request router in front of vLLM servers.

  \<^bold>\<open>The program.\<close> TCP clients connect to the \<^emph>\<open>unit manager\<close> (\<^verbatim>\<open>unit-manager/\<close>), which runs on a small
  event-loop library (\<^verbatim>\<open>network/\<close>) and gives every connection a session with a ZeroMQ address of its own. It
  keeps the registry of \<^emph>\<open>units\<close> (work ids and ports), answers their RPC calls and dispatches a client's
  JSON message: an inference request is published on the address of the unit it names, with the
  client's address in front; every other action becomes an RPC call to the unit. A unit is built on the
  framework in \<^verbatim>\<open>infra-controller/\<close> (events, channels, registration) over \<^verbatim>\<open>hybrid-comm/\<close> (RPC, message parameters). The
  unit here is the \<^emph>\<open>vLLM node\<close> (\<^verbatim>\<open>node/vllm-client/\<close>): sessions on one shared \<^emph>\<open>scheduler\<close>, which admits requests into a
  bounded queue with priority classes, picks an endpoint under concurrency limits and a circuit
  breaker, calls the server with retries, relays the stream of fragments to the client's address, and
  records metrics, also into a time series store.

  \<^bold>\<open>Theories.\<close> Each opens with a description of its part.
  \<^item> \<open>Prelude\<close>: exceptions as values (\<open>cpp_exn\<close>, \<open>'a result\<close>), 32 and 64 bit integers over \<open>int\<close>, doubles as rationals with
    the rounding function \<open>rnd\<close>, decimal text, \<^verbatim>\<open>std::string\<close> searches, association lists for maps.
  \<^item> \<open>Json_Values\<close>: \<^verbatim>\<open>nlohmann::json\<close> values and the accessors of \<^verbatim>\<open>main.cpp\<close> (\<^verbatim>\<open>json_int_value\<close> and its like).
  \<^item> \<open>Vllm_Types\<close>, \<open>Metrics\<close>, \<open>Observability\<close>: the structs of the node, \<^verbatim>\<open>MetricsCollector\<close>, and \<^verbatim>\<open>observability_metrics.cpp\<close>.
  \<^item> \<open>Endpoint_Store\<close>, \<open>Sched_Config\<close>, \<open>Request_Queue\<close>, \<open>Endpoint_Router\<close>, \<open>Vllm_Stream\<close>, \<open>Request_Exec\<close>, \<open>Task_Info\<close>: the class \<^verbatim>\<open>vllm_task\<close>, in
    the order a request passes through it. Its state is the record \<open>vllm_task\<close>; endpoint objects shared
    between schedulers live in a store with addresses, so that aliasing is explicit. \<open>Task_Types\<close> shows
    that its integers stay in the range of the C++ types.
  \<^item> \<open>Text_Util\<close>, \<open>Channel\<close>, \<open>Sessions\<close>, \<open>Stack_Flow\<close>: the text helpers and \<^verbatim>\<open>pzmq_data\<close>, \<^verbatim>\<open>llm_channel_obj\<close>, the class \<^verbatim>\<open>vllm_llm\<close>, and
    \<^verbatim>\<open>StackFlow\<close> with the RPC servers. \<open>Stack_Flow\<close> has the record \<open>system\<close> of node, event queue and manager.
  \<^item> \<open>Unit_Manager\<close>: the record \<open>manager\<close> with the value store, the registry, the dispatcher and the sessions.
  \<^item> \<open>Net_Buffer\<close>, \<open>Event_Loop\<close>, \<open>Tcp_Connection\<close>, \<open>Tcp_Server\<close>: \<^verbatim>\<open>Buffer\<close>; \<^verbatim>\<open>Channel\<close>, \<^verbatim>\<open>Poller\<close>, \<^verbatim>\<open>EventLoop\<close>; \<^verbatim>\<open>TcpConnection\<close>; \<^verbatim>\<open>TcpServer\<close>,
    \<^verbatim>\<open>Acceptor\<close>, \<^verbatim>\<open>EventLoopThreadPool\<close>.
  \<^item> this theory: the way of a request through all of them.

  A definition has the name of the function it models; where that is taken, a prefix says what it
  belongs to (\<open>channel_send\<close>, \<open>loop_quit\<close>). A method takes the object and returns it updated. An exception, an
  assertion that fails or undefined behaviour is \<open>Inl\<close>. What leaves the process is recorded in the state
  (\<open>tk_out\<close>, \<open>nl_sent\<close>, \<open>um_sent\<close>, \<open>tc_wire\<close>, \<open>po_ctl\<close>), so that theorems can speak about it. A section under a mutex is one
  step; interleavings are sequences of such steps (\<open>sys_step\<close>, \<open>srv_step\<close>, \<open>loop_step\<close>, the operation types of the other
  theories), and where a lock is released in the middle the effect of other threads is an argument.

  \<^bold>\<open>What is shown.\<close>
  \<^item> End to end: a client's request becomes one queued request or one error, and all answers go back to
    that client only (this theory).
  \<^item> Scheduler: admission and queue bounds with headroom for high priority, fair shares, the choice of
    endpoints is safe and optimal, in-flight counts are bounded and released, the circuit breaker is its
    state machine, waiting ends, a request is answered exactly once, streams are relayed independently of
    how they arrive, reloads are atomic and keep health, counters are exact, flushes lose nothing.
  \<^item> Node and manager: sessions and fragment buffers are bounded, fragments are assembled, defaults fill
    gaps only, ports and work ids are never shared, node and manager agree in all reachable states, every
    client message has the described outcome.
  \<^item> Network: the buffer refines a byte sequence, the kernel's interest list mirrors the channels, functors run
    once and in order and wake a sleeping loop, connections lose and reorder no byte, and in every
    interleaving of a server each connection has an orderly life and no assertion fails.

  \<^bold>\<open>Parameters.\<close> Code that is not in the repository is an argument with its documented behaviour as a
  hypothesis: the kernel (\<open>kernel_obeys\<close>: a valid \<^verbatim>\<open>epoll_ctl\<close> call succeeds; results of \<^verbatim>\<open>read\<close>, \<^verbatim>\<open>write\<close>, \<^verbatim>\<open>accept\<close>), curl,
  ZeroMQ, simdjson, the time series engine, clocks and environment variables. Every theorem with such a
  hypothesis has a witness on a concrete instance.

  \<^bold>\<open>Fuel.\<close> \<open>wait_loop\<close>, \<open>worker_drain\<close> and the definitions over them take a number of rounds, since \<^verbatim>\<open>wait_for_endpoint\<close> runs until the clock
  says so; \<open>wait_for_endpoint_returns\<close> proves that it ends once the clock passes the limit, and \<open>patient\<close> in the
  theorems on requests says that enough rounds are given. All other functions are total.

  \<^bold>\<open>Not modelled.\<close> Threads as such and data races between fields without a lock; memory management except where
  objects are shared; logging; \<^verbatim>\<open>Socket\<close>, \<^verbatim>\<open>SocketsOps\<close> and \<^verbatim>\<open>InetAddress\<close> (one system call or conversion each);
  \<^verbatim>\<open>EventLoopThread\<close> (thread start); \<^verbatim>\<open>TcpClient\<close> and \<^verbatim>\<open>Connector\<close> (used by no program of the repository); the socket handling of
  \<^verbatim>\<open>pzmq.hpp\<close>, which calls libzmq; \<^verbatim>\<open>node/test\<close>, \<^verbatim>\<open>sample/\<close>, scripts and documents. Of \<^verbatim>\<open>utils/json.hpp\<close>, a copy of the nlohmann library,
  values and accessors are modelled; the parser and printer of JSON text are parameters.
\<close>

section \<open>From a client to the scheduler and back\<close>

text \<open>Sessions of TCP clients: one context per connection, the URL of a live session is the printed form
  of its port, and no two live sessions have the same port.\<close>

definition contexts_ok :: "manager \<Rightarrow> bool" where
  "contexts_ok m \<longleftrightarrow> distinct (map fst (um_contexts m)) \<and>
     (\<forall>c z. map_of (um_contexts m) c = Some z \<and> zb_exit_flage z \<noteq> 0 \<longrightarrow>
        sprintf (um_zmq_s_format m) (zb_port z) = Inr (zb_url z)) \<and>
     (\<forall>c c' z z'. map_of (um_contexts m) c = Some z \<and> map_of (um_contexts m) c' = Some z' \<and>
        zb_exit_flage z \<noteq> 0 \<and> zb_exit_flage z' \<noteq> 0 \<and> zb_port z = zb_port z' \<longrightarrow> c = c')"

lemma onConnection_contexts_ok:
  assumes "contexts_ok m" and "good_format (um_zmq_s_format m) pre post"
    and "\<And>c z. map_of (um_contexts m) c = Some z \<Longrightarrow> zb_exit_flage z \<noteq> 0 \<Longrightarrow> zb_port z \<noteq> um_counter_port m"
  shows "contexts_ok (snd (onConnection c up m))"
proof (cases up)
  case True
  have "name_ok post" using assms(2) plain_char_all [of post] by (auto simp: good_format_def name_ok_all)
  moreover have f: "um_zmq_s_format m = pre @ ''%i'' @ post" "list_all plain_char pre"
    using assms(2) by (simp_all add: good_format_def)
  ultimately have sp: "\<exists>url. sprintf (um_zmq_s_format m) (um_counter_port m) = Inr url"
    unfolding f(1) using sprintf_format [OF f(2)] by blast
  then obtain url where "sprintf (um_zmq_s_format m) (um_counter_port m) = Inr url" by blast
  then show ?thesis using True assms(1,3)
    by (auto simp: onConnection_def bus_work_def Let_def contexts_ok_def map_of_alist_put distinct_alist_put split: if_splits)
      blast+
next
  case False
  then show ?thesis using assms(1)
    by (cases "map_of (um_contexts m) c")
      (auto simp: onConnection_def bus_stop_def contexts_ok_def map_of_alist_put distinct_alist_put split: if_splits)
qed

lemma filter_unique:
  "distinct (map fst xs) \<Longrightarrow> (k, v) \<in> set xs \<Longrightarrow> P (k, v) \<Longrightarrow> \<forall>y \<in> set xs. P y \<longrightarrow> fst y = k \<Longrightarrow> filter P xs = [(k, v)]"
proof (induction xs)
  case (Cons x xs)
  show ?case
  proof (cases "x = (k, v)")
    case True
    then have "filter P xs = []" using Cons.prems(1,4) by (auto simp: filter_empty_conv image_iff rev_image_eqI)
    then show ?thesis using True Cons.prems(3) by simp
  next
    case False
    then have "\<not> P x" using Cons.prems by (cases x) (auto simp: rev_image_eqI)
    then show ?thesis using Cons False by auto
  qed
qed simp

lemma session_receive_unique:
  assumes ok: "contexts_ok m" and gf: "good_format (um_zmq_s_format m) pre post"
    and z: "map_of (um_contexts m) c = Some z" "zb_exit_flage z \<noteq> 0" and url: "zb_url z = url"
  shows "session_receive (url, msg) m = [(c, msg)]"
proof -
  have f: "um_zmq_s_format m = pre @ ''%i'' @ post" "list_all plain_char pre" "name_ok post"
    using gf plain_char_all [of post] by (auto simp: good_format_def name_ok_all)
  have inj: "p = q" if "sprintf (um_zmq_s_format m) p = Inr w" "sprintf (um_zmq_s_format m) q = Inr w" for p q w
  proof -
    have "pre @ to_string p @ post = w" "pre @ to_string q @ post = w"
      using that unfolding f(1) sprintf_format [OF f(2,3)] by simp_all
    then have "pre @ to_string p @ post = pre @ to_string q @ post" by (simp only:)
    then show ?thesis using to_string_inj by simp
  qed
  have d: "distinct (map fst (um_contexts m))" using ok by (simp add: contexts_ok_def)
  have "filter (\<lambda>(c, z). zb_exit_flage z \<noteq> 0 \<and> zb_url z = url) (um_contexts m) = [(c, z)]"
  proof (rule filter_unique [OF d])
    show "(c, z) \<in> set (um_contexts m)" using z(1) by (rule map_of_SomeD)
    show "\<forall>y \<in> set (um_contexts m). (case y of (c, z) \<Rightarrow> zb_exit_flage z \<noteq> 0 \<and> zb_url z = url) \<longrightarrow> fst y = c"
    proof (intro ballI impI)
      fix y assume y: "y \<in> set (um_contexts m)" "case y of (c, z) \<Rightarrow> zb_exit_flage z \<noteq> 0 \<and> zb_url z = url"
      obtain k z' where c: "y = (k, z')" by (cases y)
      have m: "map_of (um_contexts m) k = Some z'" using y(1) d c by (simp add: map_of_is_SomeI)
      have "sprintf (um_zmq_s_format m) (zb_port z') = Inr (zb_url z')" "sprintf (um_zmq_s_format m) (zb_port z) = Inr (zb_url z)"
        using ok m z y(2) c by (auto simp: contexts_ok_def)
      then have "zb_port z' = zb_port z" using inj url y(2) c by auto
      then show "fst y = c" using ok m z y(2) c by (auto simp: contexts_ok_def)
    qed
  qed (use z url in simp)
  then show ?thesis by (simp add: session_receive_def)
qed

text \<open>The text of a client's inference request with plain members, and what the unit manager makes of it.\<close>

definition client_request :: "string \<Rightarrow> string \<Rightarrow> string \<Rightarrow> string \<Rightarrow> string" where
  "client_request request_id work_id object data =
     CHR 0x7B # segments [''request_id'', '':'', request_id, '','', ''work_id'', '':'', work_id, '','',
       ''action'', '':'', ''inference'', '','', ''object'', '':'', object, '','', ''data'', '':'', data, [CHR 0x7D]]"

definition member_ok :: "string \<Rightarrow> bool" where
  "member_ok v \<longleftrightarrow> plain_text v \<and> v \<notin> {''zmq_com'', ''request_id'', ''work_id'', ''action'', ''object'', ''data''}"

lemma json_get_segments:
  assumes t: "t = x @ segments (ss @ [key, [CHR '':''], d] @ r # rest)" and "quote_char \<notin> set x"
    and "quote_char \<notin> set key" and "list_all (\<lambda>s. quote_char \<notin> set s \<and> s \<noteq> key) ss" and "plain_text d"
  shows "sample_json_str_get t key = d"
proof (rule json_get_string [where k = "length x + length (segments ss)" and rest = "r @ segments rest", OF _ _ assms(5)])
  have t': "t = x @ segments ss @ segments [key] @ quote_char # [CHR '':'', quote_char] @ d @ quote_char # r @ segments rest"
    by (simp add: t segments_def)
  show "str_find ([quote_char] @ key @ [quote_char]) t = Some (length x + length (segments ss))"
    using str_find_skip [OF assms(2), of "key @ [quote_char]"] find_segments [OF assms(3,4)] by (simp add: t')
  show "drop (length x + length (segments ss) + length key + 2) t = [CHR '':'', quote_char] @ d @ [quote_char] @ r @ segments rest"
    by (simp add: t' segments_def [of "[key]"])
qed

lemma raw_segments:
  "inference_raw_data url (client_request rid wid obj data) =
     [CHR 0x7B] @ segments [''zmq_com'', '':'', url, '','', ''request_id'', '':'', rid, '','', ''work_id'', '':'', wid, '','',
       ''action'', '':'', ''inference'', '','', ''object'', '':'', obj, '','', ''data'', '':'', data, [CHR 0x7D]]"
  by (simp add: inference_raw_data_def client_request_def segments_def)

lemma raw_members:
  assumes v: "member_ok url" "member_ok rid" "member_ok wid" "member_ok obj" "member_ok data"
    and raw: "raw = inference_raw_data url (client_request rid wid obj data)"
  shows "sample_json_str_get raw ''zmq_com'' = url" "sample_json_str_get raw ''request_id'' = rid"
    "sample_json_str_get raw ''work_id'' = wid" "sample_json_str_get raw ''object'' = obj"
    "sample_json_str_get raw ''data'' = data" "action_loop raw (find_from action_flag raw 0)"
proof -
  note r = raw [unfolded raw_segments]
  note v' = v [unfolded member_ok_def plain_text_def]
  show "sample_json_str_get raw ''zmq_com'' = url"
    by (rule json_get_segments [where x = "[CHR 0x7B]" and ss = "[]"])
      (use v v' in \<open>simp_all add: r quote_char_def member_ok_def\<close>)
  show "sample_json_str_get raw ''request_id'' = rid"
    by (rule json_get_segments [where x = "[CHR 0x7B]" and ss = "[''zmq_com'', '':'', url, '','']"])
      (use v v' in \<open>simp_all add: r quote_char_def member_ok_def\<close>)
  show "sample_json_str_get raw ''work_id'' = wid"
    by (rule json_get_segments [where x = "[CHR 0x7B]" and ss = "[''zmq_com'', '':'', url, '','', ''request_id'', '':'', rid, '','']"])
      (use v v' in \<open>simp_all add: r quote_char_def member_ok_def\<close>)
  show "sample_json_str_get raw ''object'' = obj"
    by (rule json_get_segments [where x = "[CHR 0x7B]" and ss = "[''zmq_com'', '':'', url, '','', ''request_id'', '':'', rid, '','',
        ''work_id'', '':'', wid, '','', ''action'', '':'', ''inference'', '','']"])
      (use v v' in \<open>simp_all add: r quote_char_def member_ok_def\<close>)
  show "sample_json_str_get raw ''data'' = data"
    by (rule json_get_segments [where x = "[CHR 0x7B]" and ss = "[''zmq_com'', '':'', url, '','', ''request_id'', '':'', rid, '','',
        ''work_id'', '':'', wid, '','', ''action'', '':'', ''inference'', '','', ''object'', '':'', obj, '','']"])
      (use v v' in \<open>simp_all add: r quote_char_def member_ok_def\<close>)
  let ?ss = "[''zmq_com'', '':'', url, '','', ''request_id'', '':'', rid, '','', ''work_id'', '':'', wid, '','']"
  obtain rest where raw': "raw = [CHR 0x7B] @ segments ?ss @ segments [''action''] @ quote_char # rest"
    by (simp add: r segments_def)
  have "str_find action_flag raw = Some (1 + length (segments ?ss))"
    using str_find_skip [of quote_char "[CHR 0x7B]" "''action'' @ [quote_char]" "segments ?ss @ segments [''action''] @ quote_char # rest"]
      find_segments [of "''action''" ?ss rest] v'
    by (simp add: raw' action_flag_def quote_char_def)
  moreover have "raw ! length (segments ?ss) = CHR '',''"
    by (simp add: r segments_def nth_append)
  ultimately show "action_loop raw (find_from action_flag raw 0)"
    by (simp add: find_from_def)
qed

text \<open>The node takes the request from its channel.\<close>

lemma request_fields:
  "rq_request_id (make_request t now rid wid url obj prompt meta opts) = rid"
  "rq_output_url (make_request t now rid wid url obj prompt meta opts) = url"
  "rq_prompt (make_request t now rid wid url obj prompt meta opts) = prompt"
  by (simp_all add: make_request_def apply_profile_to_request_def Let_def)

lemma event_call_members:
  assumes v: "member_ok url" "member_ok rid" "member_ok wid" "member_ok obj" "member_ok data" and "url \<noteq> []"
    and "subscriber_event_call (inference_raw_data url (client_request rid wid obj data)) ch = (args, ch')"
  shows "args = (obj, data)" "ch_output_url ch' = url" "ch_request_id ch' = rid" "ch_work_id ch' = wid"
  using assms(6,7) raw_members [OF v refl]
  by (auto simp: subscriber_event_call_def set_push_url_def Let_def split: if_splits)

definition admitted :: "vllm_task \<Rightarrow> InferenceRequest \<Rightarrow> bool" where
  "admitted t req \<longleftrightarrow> admission (tk_cfg t) (int (length (tk_pending t))) (rq_priority req) = None"

lemma inference_sends:
  assumes "tk_out t = []"
  shows "\<exists>req. rq_request_id req = rid \<and> rq_output_url req = url \<and> rq_prompt req = prompt \<and>
    (let t' = inference now rid wid url obj prompt meta opts t
     in if admitted t req then tk_pending t' = tk_pending t @ [req] \<and> tk_out t' = []
        else tk_pending t' = tk_pending t \<and>
          (\<exists>code msg. tk_out t' = (if tk_out_callback t then [error_message req code msg] else [])))"
  using assms
  by (intro exI [of _ "make_request t now rid wid url obj prompt meta opts"])
    (auto simp: inference_def admitted_def request_fields enqueue_request_def record_pending_def frame_simps Let_def
      split: option.split)

lemma task_output_sends:
  assumes "\<forall>m \<in> set ms. msg_output_url m = url" and "url \<noteq> []"
  shows "\<exists>texts. length texts = length ms \<and> nl_sent (fold (task_output e) ms n) = nl_sent n @ map (Pair url) texts"
  using assms(1)
proof (induction ms arbitrary: n)
  case (Cons m ms)
  obtain w where w: "nl_sent (task_output e m n) = nl_sent n @ [(url, w)]"
    using Cons.prems assms(2) by (simp add: task_output_def send_client_message_def push_out_def)
  obtain texts where "length texts = length ms"
    "nl_sent (fold (task_output e) ms (task_output e m n)) = nl_sent (task_output e m n) @ map (Pair url) texts"
    using Cons by fastforce
  then show ?case using w by (intro exI [of _ "w # texts"]) simp
qed simp

lemma run_task_sends:
  assumes "\<forall>m \<in> set (tk_out t). msg_output_url m = url" and "url \<noteq> []"
  shows "\<exists>texts. length texts = length (tk_out t) \<and> nl_sent (run_task e t n) = nl_sent n @ map (Pair url) texts"
  using task_output_sends [OF assms, of e "n\<lparr>nl_shared := Some (t\<lparr>tk_out := []\<rparr>)\<rparr>"] by (simp add: run_task_def)

lemma numbered_url: "m \<in> set (numbered req i ds) \<Longrightarrow> msg_output_url m = rq_output_url req"
  by (induction ds arbitrary: i) (auto simp: delta_message_def)

lemma channel_message_submits:
  assumes v: "member_ok url" "member_ok rid" "member_ok (node_wid num)" "member_ok obj" "member_ok prompt" and "url \<noteq> []"
    and node: "map_of (nl_channels (sy_node s)) num = Some ch" "is_int32 num" "map_of (nl_sessions (sy_node s)) num = Some session"
      "nl_shared (sy_node s) = Some t" "tk_out t = []"
    and prompt: "prompt \<noteq> []" "prompt \<noteq> ''None''" "\<not> str_contains ''stream'' obj" "jt_parse (ne_json e) prompt = Inl err"
    and s': "s' = channel_message e num (inference_raw_data url (client_request rid (node_wid num) obj prompt)) s"
  shows "s' = s\<lparr>sy_node := sy_node s'\<rparr> \<and>
    (\<exists>req t'. nl_shared (sy_node s') = Some t' \<and> rq_request_id req = rid \<and> rq_output_url req = url \<and> rq_prompt req = prompt \<and>
      (if admitted t req then tk_pending t' = tk_pending t @ [req] \<and> nl_sent (sy_node s') = nl_sent (sy_node s)
       else tk_pending t' = tk_pending t \<and>
         (tk_out_callback t \<longrightarrow> (\<exists>w. nl_sent (sy_node s') = nl_sent (sy_node s) @ [(url, w)]))))"
proof -
  let ?raw = "inference_raw_data url (client_request rid (node_wid num) obj prompt)"
  obtain args ch' where ec: "subscriber_event_call ?raw ch = (args, ch')" by (cases "subscriber_event_call ?raw ch")
  note c = event_call_members [OF v assms(6) ec]
  obtain kvs where meta: "apply_session_defaults session (JObj []) = Inr kvs" using apply_defaults_obj by blast
  define n1 where "n1 = put_channel num ch' (sy_node s)"
  define t1 where "t1 = inference (ne_now e) rid (node_wid num) url obj prompt kvs (session_options session) t"
  have n1: "nl_shared n1 = Some t" "map_of (nl_sessions n1) num = Some session" "nl_sent n1 = nl_sent (sy_node s)"
    using node by (simp_all add: n1_def put_channel_def)
  have "task_user_data e (Some ch') obj prompt n1 = (Inr (), run_task e t1 n1)"
    using n1 c prompt meta node_wid_num [OF node(2)] by (simp add: task_user_data_def submit_def Let_def t1_def)
  then have s'': "s' = s\<lparr>sy_node := run_task e t1 n1\<rparr>"
    using node(1) ec c(1) by (simp add: s' channel_message_def n1_def Let_def)
  obtain req where req: "rq_request_id req = rid" "rq_output_url req = url" "rq_prompt req = prompt"
      "if admitted t req then tk_pending t1 = tk_pending t @ [req] \<and> tk_out t1 = []
       else tk_pending t1 = tk_pending t \<and>
         (\<exists>code msg. tk_out t1 = (if tk_out_callback t then [error_message req code msg] else []))"
    using inference_sends [OF node(5), of rid url prompt "ne_now e" "node_wid num" obj kvs "session_options session"]
    by (auto simp: Let_def t1_def)
  have "\<forall>m \<in> set (tk_out t1). msg_output_url m = url"
    using req by (auto simp: error_message_def split: if_splits)
  then obtain texts where texts: "length texts = length (tk_out t1)" "nl_sent (run_task e t1 n1) = nl_sent n1 @ map (Pair url) texts"
    using run_task_sends [OF _ assms(6)] by blast
  show ?thesis
    unfolding s'' using req texts n1(3)
    by (intro conjI exI [of _ req] exI [of _ "t1\<lparr>tk_out := []\<rparr>"])
      (auto simp: run_task_frame length_Suc_conv split: if_splits)
qed

text \<open>The client's message reaches the unit, and what is sent to the client's address reaches the client.\<close>

lemma client_request_published:
  assumes fmt: "good_format (um_zmq_s_format m) pre post" "um_zmq_c_format m = um_zmq_s_format m"
    and ctx: "contexts_ok m" "map_of (um_contexts m) c = Some z" "zb_exit_flage z \<noteq> 0" "length (zb_url z) < 128"
    and u: "unit_at m wid = Some u" "wid \<noteq> []"
    and js: "js \<noteq> []" "select_json_str msg = js" "sj_iterate sj js" "sj_string sj js ''request_id'' = Some rid"
      "sj_string sj js ''work_id'' = Some wid" "sj_string sj js ''action'' = Some ''inference''"
  shows "onMessage jt sj connect created c msg m =
    (Inr (), m\<lparr>um_sent := um_sent m @ [(ud_inference_url u, inference_raw_data (zb_url z) js)]\<rparr>)"
proof -
  have "sprintf (um_zmq_s_format m) (zb_port z) = Inr (zb_url z)" using ctx by (auto simp: contexts_ok_def)
  then have "client_url (zb_port z) m = Inr (zb_url z)" using fmt(2) ctx(4) by (simp add: client_url_def)
  then show ?thesis using ctx js u
    by (simp add: onMessage_def unit_action_match_def push_inference_def zmq_bus_publisher_push_def log_level_def
        SAMPLE_LOG_WARN_def safe_reading_def unit_at_def send_msg_def Let_def)
qed

lemma select_client_request:
  "msg = client_request rid wid obj data \<or> msg = client_request rid wid obj data @ [CHR 0x0A] \<Longrightarrow>
   select_json_str msg = client_request rid wid obj data"
proof -
  have "last (client_request rid wid obj data) = CHR 0x7D" by (simp add: client_request_def segments_def)
  moreover assume "msg = client_request rid wid obj data \<or> msg = client_request rid wid obj data @ [CHR 0x0A]"
  ultimately show ?thesis by (auto simp: select_json_str_def)
qed

text \<open>What a worker emits for a request goes out on the wire to one address.\<close>

lemma answers_sent_to:
  assumes "quiet envs" "patient envs req" "task_ok u" "rq_enoutput req" "tk_out_callback u" "tk_out u = []"
    and url: "rq_output_url req = url" "url \<noteq> []"
  shows "\<exists>u' texts. handle_request jt envs False now req u = Some u' \<and> texts \<noteq> [] \<and>
    nl_sent (run_task e u' n) = nl_sent n @ map (Pair url) texts"
proof -
  obtain u' where h: "handle_request jt envs False now req u = Some u'"
    using handle_request_returns [OF assms(2)] by blast
  obtain ds areq m where out: "tk_out u' = numbered areq 0 ds @ [m]" "rq_output_url areq = url" "msg_output_url m = url"
    using handle_request_effect [OF assms(1,3-5) h] assms(6) url by (auto simp: answered_def)
  then have "\<forall>m \<in> set (tk_out u'). msg_output_url m = url" using numbered_url by auto
  then obtain texts where "length texts = length (tk_out u')" "nl_sent (run_task e u' n) = nl_sent n @ map (Pair url) texts"
    using run_task_sends [OF _ url(2)] by blast
  then show ?thesis using h out(1) by (intro exI [of _ u'] exI [of _ texts]) auto
qed

section \<open>The way of a request\<close>

text \<open>
  C1. An inference request travels from a TCP client to the scheduler, and its answers travel back to
  that client and to no other. A client that is connected to the unit manager sends a request with
  plain members for a session of the node, whose records agree with the manager's. The manager
  publishes it exactly once, on the URL that the session's channel listens to, with the address of
  the client in front. When the node takes it from there, its scheduler either queues one more
  request, with the client's request id, prompt and address, or sends one error to that address. When
  a worker handles the queued request, it sends at least one text, and all texts it sends go to
  that address. And what is sent to that address reaches the connection of this client only.
\<close>
theorem inference_round_trip:
  assumes fmt: "good_format (um_zmq_s_format (sy_mgr s)) pre post" "um_zmq_c_format (sy_mgr s) = um_zmq_s_format (sy_mgr s)"
    and ctx: "contexts_ok (sy_mgr s)" "map_of (um_contexts (sy_mgr s)) c = Some z" "zb_exit_flage z \<noteq> 0"
      "length (zb_url z) < 128" "zb_url z \<noteq> []"
    and node: "coherent (sy_node s) (sy_mgr s)" "map_of (nl_channels (sy_node s)) num = Some ch" "0 \<le> num" "is_int32 num"
      "map_of (nl_sessions (sy_node s)) num = Some session" "nl_shared (sy_node s) = Some t" "tk_out t = []" "tk_out_callback t"
    and members: "list_all member_ok [zb_url z, rid, node_wid num, obj, prompt]"
    and prompt: "prompt \<noteq> []" "prompt \<noteq> ''None''" "\<not> str_contains ''stream'' obj" "jt_parse (ne_json e) prompt = Inl err"
    and js: "js = client_request rid (node_wid num) obj prompt" "msg = js \<or> msg = js @ [CHR 0x0A]"
    and simdjson: "sj_iterate sj js" "sj_string sj js ''request_id'' = Some rid"
      "sj_string sj js ''work_id'' = Some (node_wid num)" "sj_string sj js ''action'' = Some ''inference''"
  shows "\<exists>raw m' req t' n'. onMessage jt sj connect created c msg (sy_mgr s) = (Inr (), m') \<and>
    um_sent m' = um_sent (sy_mgr s) @ [(ch_inference_url ch, raw)] \<and>
    channel_message e num raw (s\<lparr>sy_mgr := m'\<rparr>) = s\<lparr>sy_mgr := m', sy_node := n'\<rparr> \<and> nl_shared n' = Some t' \<and>
    rq_request_id req = rid \<and> rq_output_url req = zb_url z \<and> rq_prompt req = prompt \<and>
    (if admitted t req then tk_pending t' = tk_pending t @ [req] \<and> nl_sent n' = nl_sent (sy_node s)
     else tk_pending t' = tk_pending t \<and> (\<exists>w. nl_sent n' = nl_sent (sy_node s) @ [(zb_url z, w)])) \<and>
    (\<forall>jt envs now u n. quiet envs \<and> patient envs req \<and> task_ok u \<and> rq_enoutput req \<and> tk_out_callback u \<and> tk_out u = [] \<longrightarrow>
      (\<exists>u' texts. handle_request jt envs False now req u = Some u' \<and> texts \<noteq> [] \<and>
        nl_sent (run_task e u' n) = nl_sent n @ map (Pair (zb_url z)) texts)) \<and>
    (\<forall>w. session_receive (zb_url z, w) m' = [(c, w)])"
proof -
  let ?raw = "inference_raw_data (zb_url z) js"
  define m' where "m' = sy_mgr s\<lparr>um_sent := um_sent (sy_mgr s) @ [(ch_inference_url ch, ?raw)]\<rparr>"
  obtain u where u: "unit_at (sy_mgr s) (node_wid num) = Some u" "ud_inference_url u = ch_inference_url ch"
  proof -
    have "chan_urls (sy_node s) num = Some (ch_publisher_url ch, ch_inference_url ch)" using node(2) by (simp add: chan_urls_def)
    then show thesis using node(1,3) that unfolding coherent_def by blast
  qed
  have sel: "select_json_str msg = js" using js select_client_request by simp
  have "js \<noteq> []" "node_wid num \<noteq> []" by (simp_all add: js(1) client_request_def sample_get_work_id_def)
  then have pub: "onMessage jt sj connect created c msg (sy_mgr s) = (Inr (), m')"
    using client_request_published [OF fmt ctx(1-4) u(1) _ _ sel simdjson] by (simp add: m'_def u(2))
  define s1 where "s1 = channel_message e num ?raw (s\<lparr>sy_mgr := m'\<rparr>)"
  have v: "member_ok (zb_url z)" "member_ok rid" "member_ok (node_wid num)" "member_ok obj" "member_ok prompt"
    using members by simp_all
  have n: "map_of (nl_channels (sy_node (s\<lparr>sy_mgr := m'\<rparr>))) num = Some ch"
    "map_of (nl_sessions (sy_node (s\<lparr>sy_mgr := m'\<rparr>))) num = Some session" "nl_shared (sy_node (s\<lparr>sy_mgr := m'\<rparr>)) = Some t"
    using node by simp_all
  have sy: "sy_node (s\<lparr>sy_mgr := m'\<rparr>) = sy_node s" by simp
  note sub = channel_message_submits [OF v ctx(5) n(1) node(4) n(2,3) node(7) prompt s1_def [unfolded js(1)]]
  obtain req t' where s1: "s1 = s\<lparr>sy_mgr := m', sy_node := sy_node s1\<rparr>" and q: "nl_shared (sy_node s1) = Some t'" "rq_request_id req = rid" "rq_output_url req = zb_url z"
      "rq_prompt req = prompt" "if admitted t req then tk_pending t' = tk_pending t @ [req] \<and> nl_sent (sy_node s1) = nl_sent (sy_node s)
       else tk_pending t' = tk_pending t \<and> (\<exists>w. nl_sent (sy_node s1) = nl_sent (sy_node s) @ [(zb_url z, w)])"
    using sub [unfolded sy eqTrueI [OF node(8)] simp_thms] by blast
  have cm: "um_contexts m' = um_contexts (sy_mgr s)" "um_zmq_s_format m' = um_zmq_s_format (sy_mgr s)" by (simp_all add: m'_def)
  have "contexts_ok m'" using ctx(1) unfolding contexts_ok_def cm .
  then have "session_receive (zb_url z, w) m' = [(c, w)]" for w
    using session_receive_unique [where m = m' and c = c and z = z, OF _ _ _ ctx(3) refl] fmt(1) ctx(2) by (simp add: m'_def)
  then show ?thesis
    using pub s1 q answers_sent_to [OF _ _ _ _ _ _ q(3) ctx(5)]
    by (intro exI [of _ ?raw] exI [of _ m'] exI [of _ req] exI [of _ t'] exI [of _ "sy_node s1"]) (simp add: m'_def s1_def)
qed

definition sample_request_system :: system where
  "sample_request_system = sample_system\<lparr>
     sy_mgr := snd (onConnection 5 True (snd (rpc_allocate_unit ''llm'' sample_manager))),
     sy_node := sample_node\<lparr>nl_channels := [(0, new_channel False False ''ipc:///tmp/llm/5010.sock.llm.output_url''
         ''ipc:///tmp/llm/5011.sock.llm.inference_url'' ''llm'')],
       nl_sessions := [(0, make_session_context 0 ''llm.0'' JNull)]\<rparr>\<rparr>"

definition sample_inference :: simdjson where
  "sample_inference =
     \<lparr>sj_iterate = \<lambda>_. True,
      sj_string = \<lambda>_ k. map_of [(''request_id'', ''r1''), (''work_id'', ''llm.0''), (''action'', ''inference'')] k\<rparr>"

theorem inference_round_trip_witness:
  "\<exists>raw m'. onMessage sample_json sample_inference (\<lambda>_. 0) 0 5 (client_request ''r1'' ''llm.0'' ''llm.utf-8'' ''hello'')
     (sy_mgr sample_request_system) = (Inr (), m') \<and>
   um_sent m' = [(''ipc:///tmp/llm/5011.sock.llm.inference_url'', raw)] \<and>
   session_receive (''ipc:///tmp/llm/8000.sock'', ''answer'') m' = [(5, ''answer'')]"
proof -
  let ?s = sample_request_system
  let ?z = "\<lparr>zb_url = ''ipc:///tmp/llm/8000.sock'', zb_exit_flage = 1, zb_port = 8000\<rparr>"
  let ?ch = "new_channel False False ''ipc:///tmp/llm/5010.sock.llm.output_url'' ''ipc:///tmp/llm/5011.sock.llm.inference_url'' ''llm''"
  have m: "um_contexts (sy_mgr ?s) = [(5, ?z)]" "um_zmq_s_format (sy_mgr ?s) = ''ipc:///tmp/llm/%i.sock''"
    "um_zmq_c_format (sy_mgr ?s) = ''ipc:///tmp/llm/%i.sock''" "um_sent (sy_mgr ?s) = []"
    "unit_at (sy_mgr ?s) (node_wid 0) = Some \<lparr>ud_work_id = ''llm.0'', ud_output_url = ''ipc:///tmp/llm/5010.sock.llm.output_url'',
       ud_inference_url = ''ipc:///tmp/llm/5011.sock.llm.inference_url'', ud_port = 0\<rparr>"
    by code_simp+
  have n: "nl_channels (sy_node ?s) = [(0, ?ch)]" "nl_sessions (sy_node ?s) = [(0, make_session_context 0 ''llm.0'' JNull)]"
    "nl_shared (sy_node ?s) = Some sample_task"
    by (simp_all add: sample_request_system_def sample_node_def)
  have w: "node_wid 0 = ''llm.0''" by code_simp
  have p: "sprintf ''ipc:///tmp/llm/%i.sock'' 8000 = Inr ''ipc:///tmp/llm/8000.sock''" by code_simp
  have cx: "contexts_ok (sy_mgr ?s)" unfolding contexts_ok_def m by (simp add: p)
  have co: "coherent (sy_node ?s) (sy_mgr ?s)"
    using m(5) by (simp add: coherent_def chan_urls_def has_session_def n new_channel_def)
  have t: "tk_out sample_task = []" "tk_out_callback sample_task" by code_simp+
  have fm: "good_format ''ipc:///tmp/llm/%i.sock'' ''ipc:///tmp/llm/'' ''.sock''" by code_simp
  have mem: "list_all member_ok [zb_url ?z, ''r1'', node_wid 0, ''llm.utf-8'', ''hello'']" by code_simp
  have ob: "\<not> str_contains ''stream'' ''llm.utf-8''" by code_simp
  have pr: "jt_parse (ne_json sample_env) ''hello'' = Inl ''parse error''" by (simp add: sample_env_def)
  show ?thesis
    using inference_round_trip [where s = ?s and c = 5 and z = ?z and num = 0 and ch = ?ch and rid = "''r1''" and obj = "''llm.utf-8''"
        and prompt = "''hello''" and e = sample_env and sj = sample_inference and jt = sample_json and connect = "\<lambda>_. 0" and created = 0
        and js = "client_request ''r1'' ''llm.0'' ''llm.utf-8'' ''hello''" and msg = "client_request ''r1'' ''llm.0'' ''llm.utf-8'' ''hello''"
        and pre = "''ipc:///tmp/llm/''" and post = "''.sock''" and session = "make_session_context 0 ''llm.0'' JNull" and t = sample_task
        and err = "''parse error''"]
      m(1-4) n w cx co t fm mem ob pr
    by (force simp: is_int32_def INT_MAX_def INT_MIN_def sample_inference_def new_channel_def)
qed

end
